(* ===== verification/Prelude.thy ===== *)
theory Prelude
  imports Main
begin

section \<open>Prelude: errors, loops, vectors and decimal text\<close>

text \<open>
  What the components share.
  \<^item> \<open>error\<close> and \<open>result\<close>: how a C++ operation can fail to return. A failed
    \<open>assert\<close> (the default build type is Debug, so asserts are compiled in), an access
    the language leaves undefined, a thrown exception, and a wait for an event that the
    environment never delivers are all values.
  \<^item> \<open>for_each\<close>: the range-based \<open>for\<close> loop over a vector, with its rules.
  \<^item> \<open>vec_at\<close>, \<open>vec_set\<close>, \<open>at2\<close>, \<open>set2\<close>: \<open>operator[]\<close> on
    \<open>std::vector\<close> and on a vector of vectors, undefined out of range.
  \<^item> \<open>size_max\<close>, \<open>wrap64\<close>: \<open>size_t\<close> is a \<open>nat\<close> with the wrap-around
    written out where the code adds or multiplies.
  \<^item> \<open>show_nat\<close>: \<open>std::to_string\<close> of an unsigned number.
\<close>

named_theorems result_simps \<open>when an operation of the result type returns\<close>

subsection \<open>Errors as values\<close>

datatype error =
    Assertion string
  | Undefined_behaviour string
  | Exception string
  | Blocked string

type_synonym 'a result = "error + 'a"

fun rbind :: "'a result \<Rightarrow> ('a \<Rightarrow> 'b result) \<Rightarrow> 'b result" where
  "rbind (Inl e) f = Inl e"
| "rbind (Inr a) f = f a"

definition assert_that :: "bool \<Rightarrow> string \<Rightarrow> unit result" where
  "assert_that b msg = (if b then Inr () else Inl (Assertion msg))"

lemma rbind_cong [fundef_cong]:
  "m = m' \<Longrightarrow> (\<And>a. m' = Inr a \<Longrightarrow> f a = f' a) \<Longrightarrow> rbind m f = rbind m' f'"
  by (cases m') auto

lemma rbind_Inr_iff [simp, result_simps]:
  "rbind m f = Inr b \<longleftrightarrow> (\<exists>a. m = Inr a \<and> f a = Inr b)"
  by (cases m) auto

lemma rbind_Inl_iff:
  "rbind m f = Inl e \<longleftrightarrow> m = Inl e \<or> (\<exists>a. m = Inr a \<and> f a = Inl e)"
  by (cases m) auto

lemma rbind_assoc: "rbind (rbind m f) g = rbind m (\<lambda>a. rbind (f a) g)"
  by (cases m) auto

lemma assert_that_Inr [simp, result_simps]: "assert_that b msg = Inr u \<longleftrightarrow> b"
  by (simp add: assert_that_def)

lemma assert_that_Inl [simp]: "assert_that b msg = Inl e \<longleftrightarrow> \<not> b \<and> e = Assertion msg"
  by (auto simp: assert_that_def)

lemma assert_that_True [simp]: "assert_that True msg = Inr ()"
  by (simp add: assert_that_def)

lemma assert_that_False [simp]: "assert_that False msg = Inl (Assertion msg)"
  by (simp add: assert_that_def)

subsection \<open>Range-based for loops\<close>

fun for_each :: "('a \<Rightarrow> 's \<Rightarrow> 's result) \<Rightarrow> 'a list \<Rightarrow> 's \<Rightarrow> 's result" where
  "for_each f [] s = Inr s"
| "for_each f (x # xs) s = rbind (f x s) (for_each f xs)"

lemma for_each_cong [fundef_cong]:
  assumes "xs = ys" and "s = t" and "\<And>x u. x \<in> set ys \<Longrightarrow> f x u = g x u"
  shows "for_each f xs s = for_each g ys t"
  unfolding assms(1,2) using assms(3)
  by (induction ys arbitrary: t) (auto intro!: rbind_cong)

lemma for_each_append: "for_each f (xs @ ys) s = rbind (for_each f xs s) (for_each f ys)"
  by (induction xs arbitrary: s) (auto simp: rbind_assoc intro!: rbind_cong)

text \<open>Elements that the body passes over.\<close>

lemma for_each_filter:
  assumes "\<And>x s. x \<in> set xs \<Longrightarrow> f x s = (if P x then g x s else Inr s)"
  shows "for_each f xs s = for_each g (filter P xs) s"
  using assms by (induction xs arbitrary: s) (auto intro!: rbind_cong)

text \<open>Partial correctness: what every iteration keeps holds when the loop is left.\<close>

lemma for_each_invariant:
  assumes "for_each f xs s = Inr s'" and "I s"
    and "\<And>x s s'. x \<in> set xs \<Longrightarrow> I s \<Longrightarrow> f x s = Inr s' \<Longrightarrow> I s'"
  shows "I s'"
  using assms
proof (induction xs arbitrary: s)
  case Nil
  then show ?case by simp
next
  case (Cons x xs)
  from Cons.prems(1) obtain t where t: "f x s = Inr t" "for_each f xs t = Inr s'" by auto
  from Cons.prems(2,3) t(1) have "I t" by auto
  with t(2) Cons.prems(3) show ?case by (auto intro: Cons.IH)
qed

text \<open>
  Total correctness: if every iteration returns and moves the invariant from the elements
  already visited to one more, the loop returns.
\<close>

lemma for_each_total:
  assumes init: "I [] s"
    and step: "\<And>pre x post s. xs = pre @ x # post \<Longrightarrow> I pre s \<Longrightarrow>
      \<exists>s'. f x s = Inr s' \<and> I (pre @ [x]) s'"
  shows "\<exists>s'. for_each f xs s = Inr s' \<and> I xs s'"
proof -
  have "\<exists>s'. for_each f post s = Inr s' \<and> I xs s'" if "xs = pre @ post" "I pre s" for pre post s
    using that
  proof (induction post arbitrary: pre s)
    case Nil
    then show ?case by simp
  next
    case (Cons x post)
    from step [OF Cons.prems] obtain t where t: "f x s = Inr t" "I (pre @ [x]) t" by blast
    from Cons.prems(1) have "xs = (pre @ [x]) @ post" by simp
    from Cons.IH [OF this t(2)] t(1) show ?case by simp
  qed
  from this [of "[]" xs s] init show ?thesis by simp
qed

subsection \<open>Vectors\<close>

definition vec_at :: "'a list \<Rightarrow> nat \<Rightarrow> 'a result" where
  "vec_at xs i =
     (if i < length xs then Inr (xs ! i) else Inl (Undefined_behaviour ''vector index''))"

definition vec_set :: "'a list \<Rightarrow> nat \<Rightarrow> 'a \<Rightarrow> 'a list result" where
  "vec_set xs i v =
     (if i < length xs then Inr (xs[i := v]) else Inl (Undefined_behaviour ''vector index''))"

lemma vec_at_Inr [simp, result_simps]: "vec_at xs i = Inr v \<longleftrightarrow> i < length xs \<and> v = xs ! i"
  by (auto simp: vec_at_def)

lemma vec_set_Inr [simp, result_simps]:
  "vec_set xs i v = Inr ys \<longleftrightarrow> i < length xs \<and> ys = xs[i := v]"
  by (auto simp: vec_set_def)

lemma vec_at_in: "i < length xs \<Longrightarrow> vec_at xs i = Inr (xs ! i)"
  by simp

lemma vec_set_in: "i < length xs \<Longrightarrow> vec_set xs i v = Inr (xs[i := v])"
  by simp

text \<open>A vector of vectors, addressed by a pair of indices as the configurations are.\<close>

definition at2 :: "'a list list \<Rightarrow> nat \<Rightarrow> nat \<Rightarrow> 'a result" where
  "at2 xss m s = rbind (vec_at xss m) (\<lambda>xs. vec_at xs s)"

definition set2 :: "'a list list \<Rightarrow> nat \<Rightarrow> nat \<Rightarrow> 'a \<Rightarrow> 'a list list result" where
  "set2 xss m s v = rbind (vec_at xss m) (\<lambda>xs. rbind (vec_set xs s v) (vec_set xss m))"

definition in2 :: "'a list list \<Rightarrow> nat \<times> nat \<Rightarrow> bool" where
  "in2 xss p \<longleftrightarrow> fst p < length xss \<and> snd p < length (xss ! fst p)"

definition get2 :: "'a list list \<Rightarrow> nat \<times> nat \<Rightarrow> 'a" where
  "get2 xss p = xss ! fst p ! snd p"

definition put2 :: "'a list list \<Rightarrow> nat \<times> nat \<Rightarrow> 'a \<Rightarrow> 'a list list" where
  "put2 xss p v = xss[fst p := (xss ! fst p)[snd p := v]]"

lemma at2_Inr [simp, result_simps]:
  "at2 xss m s = Inr v \<longleftrightarrow> in2 xss (m, s) \<and> v = get2 xss (m, s)"
  by (auto simp: at2_def in2_def get2_def)

lemma set2_Inr [simp, result_simps]:
  "set2 xss m s v = Inr yss \<longleftrightarrow> in2 xss (m, s) \<and> yss = put2 xss (m, s) v"
  by (auto simp: set2_def in2_def put2_def)

lemma at2_in: "in2 xss (m, s) \<Longrightarrow> at2 xss m s = Inr (get2 xss (m, s))"
  by simp

lemma set2_in: "in2 xss (m, s) \<Longrightarrow> set2 xss m s v = Inr (put2 xss (m, s) v)"
  by simp

lemma in2_put2 [simp]: "in2 (put2 xss p v) q \<longleftrightarrow> in2 xss q"
proof (cases "fst q = fst p")
  case True
  then show ?thesis by (cases "fst p < length xss") (auto simp: in2_def put2_def)
next
  case False
  then show ?thesis by (auto simp: in2_def put2_def)
qed

lemma get2_put2: "in2 xss p \<Longrightarrow> get2 (put2 xss p v) q = (if q = p then v else get2 xss q)"
  by (cases p; cases q) (auto simp: in2_def put2_def get2_def nth_list_update)

lemma get2_put2_same [simp]: "in2 xss p \<Longrightarrow> get2 (put2 xss p v) p = v"
  by (simp add: get2_put2)

lemma get2_put2_other [simp]: "in2 xss p \<Longrightarrow> q \<noteq> p \<Longrightarrow> get2 (put2 xss p v) q = get2 xss q"
  by (simp add: get2_put2)

lemma length_put2 [simp]: "length (put2 xss p v) = length xss"
  by (simp add: put2_def)

lemma length_row_put2 [simp]:
  "m < length xss \<Longrightarrow> length (put2 xss p v ! m) = length (xss ! m)"
  by (cases "fst p = m") (simp_all add: put2_def)

lemma list2_eqI:
  assumes "length xss = length yss"
    and "\<And>m. m < length xss \<Longrightarrow> length (xss ! m) = length (yss ! m)"
    and "\<And>p. in2 xss p \<Longrightarrow> get2 xss p = get2 yss p"
  shows "xss = yss"
proof (rule nth_equalityI)
  fix m assume m: "m < length xss"
  show "xss ! m = yss ! m"
  proof (rule nth_equalityI)
    show "length (xss ! m) = length (yss ! m)" using assms(2) m by blast
    fix s assume "s < length (xss ! m)"
    with m assms(3) [of "(m, s)"] show "xss ! m ! s = yss ! m ! s"
      by (simp add: in2_def get2_def)
  qed
qed (rule assms(1))

subsection \<open>Machine integers\<close>

text \<open>\<open>std::numeric_limits<size_t>::max()\<close> on the 64-bit targets the program runs on.\<close>

definition size_max :: nat where
  "size_max = 18446744073709551615"

definition wrap64 :: "nat \<Rightarrow> nat" where
  "wrap64 n = n mod 18446744073709551616"

lemma wrap64_id [simp]: "n \<le> size_max \<Longrightarrow> wrap64 n = n"
  by (simp add: wrap64_def size_max_def)

lemma wrap64_le [simp]: "wrap64 n \<le> size_max"
proof -
  have "n mod 18446744073709551616 < 18446744073709551616" by (rule mod_less_divisor) simp
  then show ?thesis by (simp add: wrap64_def size_max_def)
qed

subsection \<open>Decimal text\<close>

definition digit_char :: "nat \<Rightarrow> char" where
  "digit_char d = ''0123456789'' ! d"

fun show_nat :: "nat \<Rightarrow> string" where
  "show_nat n =
     (if n < 10 then [digit_char n] else show_nat (n div 10) @ [digit_char (n mod 10)])"

declare show_nat.simps [simp del]

text \<open>Reading a digit of any base up to sixteen, as the stream extraction does.\<close>

definition digit_value :: "char \<Rightarrow> nat option" where
  "digit_value c = map_of (zip ''0123456789abcdefABCDEF''
     [0, 1, 2, 3, 4, 5, 6, 7, 8, 9, 10, 11, 12, 13, 14, 15, 10, 11, 12, 13, 14, 15]) c"

fun read_digits :: "nat \<Rightarrow> nat \<Rightarrow> string \<Rightarrow> nat \<times> string" where
  "read_digits b acc [] = (acc, [])"
| "read_digits b acc (c # cs) =
     (case digit_value c of
        Some d \<Rightarrow> if d < b then read_digits b (acc * b + d) cs else (acc, c # cs)
      | None \<Rightarrow> (acc, c # cs))"

lemma digit_cases:
  assumes "(d::nat) < 10"
  obtains "d = 0" | "d = 1" | "d = 2" | "d = 3" | "d = 4" | "d = 5" | "d = 6" | "d = 7"
    | "d = 8" | "d = 9"
  using assms by (auto simp: less_Suc_eq numeral_eq_Suc)

lemma digit_value_char [simp]: "d < 10 \<Longrightarrow> digit_value (digit_char d) = Some d"
  by (erule digit_cases) (simp_all add: digit_value_def digit_char_def)

lemma digit_char_neq: "d < 10 \<Longrightarrow> digit_char d \<noteq> CHR ''-'' \<and> digit_char d \<noteq> CHR ''+''
    \<and> digit_char d \<noteq> CHR '' '' \<and> digit_char d \<noteq> CHR ''x'' \<and> digit_char d \<noteq> CHR ''X''"
  by (erule digit_cases) (simp_all add: digit_char_def)

lemma digit_char_zero [simp]: "d < 10 \<Longrightarrow> digit_char d = CHR ''0'' \<longleftrightarrow> d = 0"
  by (erule digit_cases) (simp_all add: digit_char_def)

lemma show_nat_nonempty [simp]: "show_nat n \<noteq> []"
  by (subst show_nat.simps) simp

lemma read_digits_append:
  "\<forall>c \<in> set xs. \<exists>d < b. digit_value c = Some d \<Longrightarrow>
     read_digits b acc (xs @ ys) = (case read_digits b acc xs of (v, _) \<Rightarrow> read_digits b v ys)"
  by (induction xs arbitrary: acc) auto

lemma show_nat_digits: "\<forall>c \<in> set (show_nat n). \<exists>d < 10. digit_value c = Some d"
proof (induction n rule: show_nat.induct)
  case (1 n)
  show ?case
  proof (cases "n < 10")
    case True
    then show ?thesis by (subst show_nat.simps) simp
  next
    case False
    with 1 show ?thesis by (subst show_nat.simps) (auto simp: mod_less_divisor)
  qed
qed

lemma read_show_nat: "read_digits 10 0 (show_nat n) = (n, [])"
proof (induction n rule: show_nat.induct)
  case (1 n)
  show ?case
  proof (cases "n < 10")
    case True
    then show ?thesis by (subst show_nat.simps) simp
  next
    case False
    with 1 have IH: "read_digits 10 0 (show_nat (n div 10)) = (n div 10, [])" by simp
    have "read_digits 10 0 (show_nat (n div 10) @ [digit_char (n mod 10)]) = (n, [])"
      by (subst read_digits_append) (simp_all add: show_nat_digits IH)
    with False show ?thesis by (subst show_nat.simps) simp
  qed
qed

lemma show_nat_inject [simp]: "show_nat m = show_nat n \<longleftrightarrow> m = n"
  by (metis fst_conv read_show_nat)

lemma hd_show_nat: "\<exists>d < 10. hd (show_nat n) = digit_char d \<and> (d = 0 \<longrightarrow> n = 0)"
proof (induction n rule: show_nat.induct)
  case (1 n)
  show ?case
  proof (cases "n < 10")
    case True
    then show ?thesis by (subst show_nat.simps) auto
  next
    case False
    with 1 obtain d where d: "d < 10" "hd (show_nat (n div 10)) = digit_char d"
      "d = 0 \<longrightarrow> n div 10 = 0" by auto
    from False have "hd (show_nat n) = hd (show_nat (n div 10))"
      by (subst show_nat.simps) (simp add: hd_append)
    with d False show ?thesis by (intro exI [of _ d]) auto
  qed
qed

text \<open>
  \<open>std::stoul\<close>: leading white space, a sign, in base 0 a prefix that gives the base, then as
  many digits as there are; what follows is ignored. A minus sign negates modulo the width.
\<close>

definition is_space :: "char \<Rightarrow> bool" where
  "is_space c \<longleftrightarrow> c \<in> {CHR '' '', CHR 0x09, CHR 0x0A, CHR 0x0B, CHR 0x0C, CHR 0x0D}"

definition strip_sign :: "string \<Rightarrow> bool \<times> string" where
  "strip_sign s =
     (case s of
        c # cs \<Rightarrow> if c = CHR ''-'' then (True, cs) else if c = CHR ''+'' then (False, cs)
          else (False, s)
      | [] \<Rightarrow> (False, []))"

definition starts_digit :: "nat \<Rightarrow> string \<Rightarrow> bool" where
  "starts_digit b s =
     (case s of [] \<Rightarrow> False
      | c # cs \<Rightarrow> (case digit_value c of Some d \<Rightarrow> d < b | None \<Rightarrow> False))"

definition strip_base :: "nat \<Rightarrow> string \<Rightarrow> nat \<times> string" where
  "strip_base base s =
     (if base \<noteq> 0 then (base, s)
      else case s of
        z # x # ds \<Rightarrow>
          if z = CHR ''0'' \<and> (x = CHR ''x'' \<or> x = CHR ''X'') \<and> starts_digit 16 ds then (16, ds)
          else if z = CHR ''0'' then (8, s) else (10, s)
      | _ \<Rightarrow> (10, s))"

definition stoul :: "nat \<Rightarrow> string \<Rightarrow> nat result" where
  "stoul base str =
     (let (negative, s) = strip_sign (dropWhile is_space str);
          (b, ds) = strip_base base s
      in if \<not> starts_digit b ds then Inl (Exception ''stoul: no conversion'')
         else let v = fst (read_digits b 0 ds)
              in if v > size_max then Inl (Exception ''stoul: out of range'')
                 else Inr (if negative then wrap64 (18446744073709551616 - v) else v))"

lemma stoul_show_nat: "n \<le> size_max \<Longrightarrow> stoul 10 (show_nat n) = Inr n"
proof -
  assume n: "n \<le> size_max"
  obtain c cs where c: "show_nat n = c # cs" by (cases "show_nat n") auto
  from hd_show_nat [of n] c obtain d where d: "d < 10" "c = digit_char d" by auto
  then have "\<not> is_space c"
    by (elim digit_cases) (simp_all add: digit_char_def is_space_def)
  with d c digit_char_neq [of d] have "strip_sign (dropWhile is_space (show_nat n)) = (False, show_nat n)"
    by (simp add: strip_sign_def)
  with n d c read_show_nat [of n] show ?thesis
    by (simp add: stoul_def strip_base_def starts_digit_def)
qed

end
