(* ===== verification/Binary64.thy ===== *)
theory Binary64
  imports Complex_Main Prelude
begin

section \<open>IEEE-754 binary64 arithmetic\<close>

text \<open>
  The schedulers compute memory-bandwidth utilisations in C++ \<open>double\<close>. A double is
  modelled by the rational it denotes, by an infinity or by NaN; the sign of zero is not kept,
  because no operation the program uses (sum, difference, product, comparison) tells the
  two zeros apart. Each operation computes exactly and rounds once, to nearest with ties to
  even, to 53 bits of precision with gradual underflow and with overflow to infinity
  (\<open>round_double\<close>).
  The lemmas show that rounding is monotone and leaves representable numbers alone, so that
  sums of utilisations are monotone in every summand although they are not exact.
\<close>

subsection \<open>Rounding\<close>

datatype double = Fin rat | Pos_inf | Neg_inf | Not_a_number

fun bit_length :: "nat \<Rightarrow> nat" where
  "bit_length n = (if n = 0 then 0 else Suc (bit_length (n div 2)))"

declare bit_length.simps [simp del]

text \<open>The exponent \<open>e\<close> of a positive number: \<open>2 powi e \<le> x < 2 powi (e + 1)\<close>.\<close>

definition exponent :: "rat \<Rightarrow> int" where
  "exponent x =
     (if 1 \<le> x then int (bit_length (nat \<lfloor>x\<rfloor>)) - 1
      else - int (bit_length (nat (\<lceil>1 / x\<rceil> - 1))))"

text \<open>The exponent of the last place: 52 fraction bits, never below the smallest subnormal.\<close>

definition quantum :: "rat \<Rightarrow> int" where
  "quantum x = max (exponent \<bar>x\<bar> - 52) (- 1074)"

definition round_half_even :: "rat \<Rightarrow> int" where
  "round_half_even y =
     (let f = \<lfloor>y\<rfloor>; d = y - of_int f
      in if d < 1 / 2 then f else if 1 / 2 < d then f + 1 else if even f then f else f + 1)"

definition round_rat :: "rat \<Rightarrow> rat" where
  "round_rat x =
     (if x = 0 then 0
      else of_int (round_half_even (x / 2 powi quantum x)) * 2 powi quantum x)"

definition round_double :: "rat \<Rightarrow> double" where
  "round_double x =
     (let r = round_rat x
      in if 2 ^ 1024 \<le> r then Pos_inf else if r \<le> - (2 ^ 1024) then Neg_inf else Fin r)"

subsection \<open>Arithmetic and comparison\<close>

fun double_add :: "double \<Rightarrow> double \<Rightarrow> double" where
  "double_add (Fin a) (Fin b) = round_double (a + b)"
| "double_add Not_a_number _ = Not_a_number"
| "double_add _ Not_a_number = Not_a_number"
| "double_add Pos_inf Neg_inf = Not_a_number"
| "double_add Neg_inf Pos_inf = Not_a_number"
| "double_add Pos_inf _ = Pos_inf"
| "double_add _ Pos_inf = Pos_inf"
| "double_add Neg_inf _ = Neg_inf"
| "double_add _ Neg_inf = Neg_inf"

fun double_neg :: "double \<Rightarrow> double" where
  "double_neg (Fin a) = Fin (- a)"
| "double_neg Pos_inf = Neg_inf"
| "double_neg Neg_inf = Pos_inf"
| "double_neg Not_a_number = Not_a_number"

definition double_sub :: "double \<Rightarrow> double \<Rightarrow> double" where
  "double_sub x y = double_add x (double_neg y)"

fun double_inf :: "bool \<Rightarrow> double" where
  "double_inf negative = (if negative then Neg_inf else Pos_inf)"

fun double_mul :: "double \<Rightarrow> double \<Rightarrow> double" where
  "double_mul (Fin a) (Fin b) = round_double (a * b)"
| "double_mul Not_a_number _ = Not_a_number"
| "double_mul _ Not_a_number = Not_a_number"
| "double_mul (Fin a) Pos_inf = (if a = 0 then Not_a_number else double_inf (a < 0))"
| "double_mul (Fin a) Neg_inf = (if a = 0 then Not_a_number else double_inf (a > 0))"
| "double_mul Pos_inf (Fin a) = (if a = 0 then Not_a_number else double_inf (a < 0))"
| "double_mul Neg_inf (Fin a) = (if a = 0 then Not_a_number else double_inf (a > 0))"
| "double_mul Pos_inf Pos_inf = Pos_inf"
| "double_mul Neg_inf Neg_inf = Pos_inf"
| "double_mul Pos_inf Neg_inf = Neg_inf"
| "double_mul Neg_inf Pos_inf = Neg_inf"

text \<open>\<open><\<close>, false as soon as an operand is NaN.\<close>

fun double_less :: "double \<Rightarrow> double \<Rightarrow> bool" where
  "double_less (Fin a) (Fin b) = (a < b)"
| "double_less Not_a_number _ = False"
| "double_less _ Not_a_number = False"
| "double_less Neg_inf y = (y \<noteq> Neg_inf)"
| "double_less Pos_inf _ = False"
| "double_less (Fin a) y = (y = Pos_inf)"

definition double_le :: "double \<Rightarrow> double \<Rightarrow> bool" where
  "double_le x y = (double_less x y \<or> (x = y \<and> x \<noteq> Not_a_number))"

definition double_of_nat :: "nat \<Rightarrow> double" where
  "double_of_nat n = round_double (of_nat n)"

text \<open>The doubles that can occur: the finite ones are fixed by rounding.\<close>

fun is_double :: "double \<Rightarrow> bool" where
  "is_double (Fin a) = (round_double a = Fin a)"
| "is_double _ = True"

subsection \<open>The exponent is right\<close>

lemma bit_length_pos:
  "0 < n \<Longrightarrow> 2 ^ (bit_length n - 1) \<le> n \<and> n < 2 ^ bit_length n \<and> 0 < bit_length n"
proof (induction n rule: bit_length.induct)
  case (1 n)
  show ?case
  proof (cases "n = 1")
    case True
    then show ?thesis by (simp add: bit_length.simps [of "Suc 0"] bit_length.simps [of 0])
  next
    case False
    with 1 have "0 < n div 2" by auto
    with 1 have IH: "2 ^ (bit_length (n div 2) - 1) \<le> n div 2" "n div 2 < 2 ^ bit_length (n div 2)"
      "0 < bit_length (n div 2)" by auto
    from IH(3) obtain k where k: "bit_length (n div 2) = Suc k" by (cases "bit_length (n div 2)") auto
    have "bit_length n = Suc (bit_length (n div 2))"
      using "1.prems" by (simp add: bit_length.simps [of n])
    with IH k show ?thesis by simp linarith
  qed
qed

lemma bit_length_bound: "n < 2 ^ bit_length n"
  by (cases "n = 0") (simp_all add: bit_length_pos bit_length.simps [of 0])

lemma pow2_le_of_nat: "2 ^ k \<le> n \<Longrightarrow> (2::rat) ^ k \<le> of_nat n"
proof -
  assume "2 ^ k \<le> n"
  then have "of_nat (2 ^ k) \<le> (of_nat n :: rat)" by (simp only: of_nat_le_iff)
  then show ?thesis by simp
qed

lemma of_nat_Suc_le_pow2: "n + 1 \<le> 2 ^ k \<Longrightarrow> of_nat n + 1 \<le> (2::rat) ^ k"
proof -
  assume "n + 1 \<le> 2 ^ k"
  then have "of_nat (n + 1) \<le> (of_nat (2 ^ k) :: rat)" by (simp only: of_nat_le_iff)
  then show ?thesis by simp
qed

lemma exponent_bounds:
  assumes "0 < x"
  shows "2 powi exponent x \<le> x" and "x < 2 powi (exponent x + 1)"
proof -
  have "2 powi exponent x \<le> x \<and> x < 2 powi (exponent x + 1)"
  proof (cases "1 \<le> x")
    case True
    define n where "n = nat \<lfloor>x\<rfloor>"
    from True have n: "0 < n" "of_nat n \<le> x" "x < of_nat n + 1"
      unfolding n_def by (simp_all add: of_nat_nat) linarith+
    from bit_length_pos [OF n(1)] have b: "2 ^ (bit_length n - 1) \<le> n" "n + 1 \<le> 2 ^ bit_length n"
      "0 < bit_length n" by auto
    from b(1) have "(2::rat) ^ (bit_length n - 1) \<le> of_nat n" by (rule pow2_le_of_nat)
    with n(2) have "(2::rat) ^ (bit_length n - 1) \<le> x" by (rule order_trans [rotated])
    moreover from b(2) have "of_nat n + 1 \<le> (2::rat) ^ bit_length n" by (rule of_nat_Suc_le_pow2)
    moreover have "exponent x = int (bit_length n) - 1"
      using True by (simp add: exponent_def n_def)
    moreover have "nat (int (bit_length n) - 1) = bit_length n - 1" by simp
    ultimately show ?thesis using n b(3) by (auto simp: power_int_def)
  next
    case False
    define n where "n = nat (\<lceil>1 / x\<rceil> - 1)"
    define k where "k = bit_length n"
    from False assms have inv: "1 < 1 / x" by simp
    then have "1 < \<lceil>1 / x\<rceil>" by linarith
    then have n: "0 < n" "int n = \<lceil>1 / x\<rceil> - 1" unfolding n_def by linarith+
    have "(of_int \<lceil>1 / x\<rceil> :: rat) = of_nat n + 1" using n(2)
      by (metis diff_add_cancel of_int_1 of_int_add of_int_of_nat_eq)
    then have r: "of_nat n < 1 / x" "1 / x \<le> of_nat n + 1"
      using ceiling_correct [of "1 / x"] by auto
    from bit_length_pos [OF n(1)] have b: "2 ^ (k - 1) \<le> n" "n + 1 \<le> 2 ^ k" "0 < k"
      by (auto simp: k_def)
    from b(1) have "(2::rat) ^ (k - 1) \<le> of_nat n" by (rule pow2_le_of_nat)
    with r have lo: "(2::rat) ^ (k - 1) < 1 / x" by linarith
    from b(2) have "of_nat n + 1 \<le> (2::rat) ^ k" by (rule of_nat_Suc_le_pow2)
    with r have hi: "1 / x \<le> (2::rat) ^ k" by linarith
    have "exponent x = - int k" using False by (simp add: exponent_def k_def n_def)
    moreover have "2 powi (- int k) \<le> x"
    proof -
      from hi assms have "1 \<le> x * 2 ^ k" by (simp add: pos_divide_le_eq mult.commute)
      then show ?thesis by (simp add: power_int_minus divide_simps mult.commute)
    qed
    moreover have "x < 2 powi (- int k + 1)"
    proof -
      from lo assms have "x * 2 ^ (k - 1) < 1" by (simp add: pos_less_divide_eq mult.commute)
      then have lt: "x < 2 powi (- int (k - 1))" by (simp add: power_int_minus divide_simps)
      from b(3) have "- int k + 1 = - int (k - 1)" by simp
      with lt show ?thesis by (simp only:)
    qed
    ultimately show ?thesis by (simp only:)
  qed
  then show "2 powi exponent x \<le> x" and "x < 2 powi (exponent x + 1)" by auto
qed

lemma exponent_mono:
  assumes "0 < x" and "x \<le> y"
  shows "exponent x \<le> exponent y"
proof (rule ccontr)
  assume "\<not> exponent x \<le> exponent y"
  then have "(2::rat) powi (exponent y + 1) \<le> 2 powi exponent x"
    by (intro power_int_increasing) auto
  with exponent_bounds [of x] exponent_bounds [of y] assms show False by auto
qed

subsection \<open>Rounding is monotone\<close>

lemma round_half_even_bounds: "\<lfloor>y\<rfloor> \<le> round_half_even y \<and> round_half_even y \<le> \<lfloor>y\<rfloor> + 1"
  by (simp add: round_half_even_def Let_def)

lemma round_half_even_of_int [simp]: "round_half_even (of_int n) = n"
  by (simp add: round_half_even_def)

lemma round_half_even_mono:
  assumes "y \<le> z"
  shows "round_half_even y \<le> round_half_even z"
proof (cases "\<lfloor>y\<rfloor> = \<lfloor>z\<rfloor>")
  case True
  with assms show ?thesis by (auto simp: round_half_even_def Let_def)
next
  case False
  with assms have "\<lfloor>y\<rfloor> + 1 \<le> \<lfloor>z\<rfloor>" using floor_mono [of y z] by linarith
  with round_half_even_bounds [of y] round_half_even_bounds [of z] show ?thesis by linarith
qed

lemma round_half_even_minus: "round_half_even (- y) = - round_half_even y"
proof (cases "y = of_int \<lfloor>y\<rfloor>")
  case True
  then show ?thesis by (metis of_int_minus round_half_even_of_int)
next
  case False
  then have "of_int \<lfloor>y\<rfloor> < y" using of_int_floor_le [of y] by linarith
  moreover have "y < of_int \<lfloor>y\<rfloor> + 1" by linarith
  ultimately have "\<lfloor>- y\<rfloor> = - \<lfloor>y\<rfloor> - 1" by (intro floor_unique) auto
  then show ?thesis by (auto simp: round_half_even_def Let_def)
qed

lemma round_half_even_le: "y \<le> of_int n \<Longrightarrow> round_half_even y \<le> n"
  using round_half_even_mono [of y "of_int n"] by simp

lemma round_half_even_ge: "of_int n \<le> y \<Longrightarrow> n \<le> round_half_even y"
  using round_half_even_mono [of "of_int n" y] by simp

lemma round_rat_0 [simp]: "round_rat 0 = 0"
  by (simp add: round_rat_def)

lemma round_rat_minus: "round_rat (- x) = - round_rat x"
  by (simp add: round_rat_def quantum_def round_half_even_minus)

lemma quantum_pow_pos: "(0::rat) < 2 powi quantum x"
  by simp

lemma pow2_int: "0 \<le> k \<Longrightarrow> \<exists>n. (2::rat) powi k = of_int n"
  by (rule exI [of _ "2 ^ nat k"]) (simp add: power_int_def)

text \<open>A positive number never rounds above a power of two that bounds it ...\<close>

lemma round_rat_le_pow2:
  assumes "0 < x" and "x \<le> 2 powi k" and "quantum x \<le> k"
  shows "round_rat x \<le> 2 powi k"
proof -
  let ?u = "2 powi quantum x :: rat"
  obtain n where n: "(2::rat) powi (k - quantum x) = of_int n"
    using pow2_int [of "k - quantum x"] assms(3) by auto
  have k: "of_int n * ?u = 2 powi k"
    unfolding n [symmetric] by (simp add: power_int_diff)
  from assms(2) have "x / ?u \<le> of_int n"
    unfolding k [symmetric] by (simp add: pos_divide_le_eq)
  then have "of_int (round_half_even (x / ?u)) \<le> (of_int n :: rat)"
    by (simp add: round_half_even_le)
  then have "of_int (round_half_even (x / ?u)) * ?u \<le> of_int n * ?u"
    by (intro mult_right_mono) auto
  with assms(1) show ?thesis by (simp add: round_rat_def k)
qed

text \<open>... and never below one that it exceeds.\<close>

lemma round_rat_ge_pow2:
  assumes "2 powi k \<le> x" and "quantum x \<le> k"
  shows "2 powi k \<le> round_rat x"
proof -
  let ?u = "2 powi quantum x :: rat"
  have "(0::rat) < 2 powi k" by simp
  with assms(1) have "0 < x" by linarith
  obtain n where n: "(2::rat) powi (k - quantum x) = of_int n"
    using pow2_int [of "k - quantum x"] assms(2) by auto
  have k: "of_int n * ?u = 2 powi k"
    unfolding n [symmetric] by (simp add: power_int_diff)
  from assms(1) have "of_int n \<le> x / ?u"
    unfolding k [symmetric] by (simp add: pos_le_divide_eq)
  then have "(of_int n :: rat) \<le> of_int (round_half_even (x / ?u))"
    by (simp add: round_half_even_ge)
  then have "of_int n * ?u \<le> of_int (round_half_even (x / ?u)) * ?u"
    by (intro mult_right_mono) auto
  with \<open>0 < x\<close> show ?thesis by (simp add: round_rat_def k)
qed

lemma round_rat_nonneg: "0 \<le> x \<Longrightarrow> 0 \<le> round_rat x"
proof -
  assume "0 \<le> x"
  then have "0 \<le> round_half_even (x / 2 powi quantum x)"
    by (intro round_half_even_ge) simp
  then show ?thesis by (simp add: round_rat_def)
qed

lemma round_rat_mono_pos:
  assumes "0 < x" and "x \<le> y"
  shows "round_rat x \<le> round_rat y"
proof -
  from assms have y: "0 < y" by linarith
  from exponent_mono [OF assms] have le: "exponent x \<le> exponent y" .
  show ?thesis
  proof (cases "quantum x = quantum y")
    case True
    have "x / 2 powi quantum y \<le> y / 2 powi quantum y"
      using assms by (intro divide_right_mono) auto
    then have "of_int (round_half_even (x / 2 powi quantum y)) * 2 powi quantum y
        \<le> (of_int (round_half_even (y / 2 powi quantum y)) * 2 powi quantum y :: rat)"
      by (intro mult_right_mono) (auto simp: round_half_even_mono)
    with True assms y show ?thesis by (simp add: round_rat_def)
  next
    case False
    with le have q: "exponent x < exponent y" "quantum x \<le> exponent y" "quantum y \<le> exponent y"
      using assms y by (auto simp: quantum_def max_def split: if_splits)
    have "x \<le> 2 powi (exponent x + 1)" using exponent_bounds(2) [OF assms(1)] by simp
    also have "\<dots> \<le> 2 powi exponent y" using q(1) by (intro power_int_increasing) auto
    finally have "round_rat x \<le> 2 powi exponent y"
      using q(2) assms(1) by (intro round_rat_le_pow2) auto
    also have "\<dots> \<le> round_rat y"
      using exponent_bounds(1) [OF y] q(3) by (intro round_rat_ge_pow2) auto
    finally show ?thesis .
  qed
qed

lemma round_rat_mono:
  assumes "x \<le> y"
  shows "round_rat x \<le> round_rat y"
proof -
  consider "0 < x" | "x \<le> 0" "0 \<le> y" | "y < 0" using assms by linarith
  then show ?thesis
  proof cases
    case 1
    then show ?thesis using assms by (rule round_rat_mono_pos)
  next
    case 2
    then have "round_rat x \<le> 0" using round_rat_nonneg [of "- x"] by (simp add: round_rat_minus)
    also have "0 \<le> round_rat y" using 2 by (simp add: round_rat_nonneg)
    finally show ?thesis .
  next
    case 3
    then have "round_rat (- y) \<le> round_rat (- x)"
      using assms by (intro round_rat_mono_pos) auto
    then show ?thesis by (simp add: round_rat_minus)
  qed
qed

subsection \<open>Rounding keeps representable numbers\<close>

lemma round_rat_exact:
  assumes "x = of_int n * 2 powi q" and "quantum x \<le> q"
  shows "round_rat x = x"
proof -
  obtain m where m: "(2::rat) powi (q - quantum x) = of_int m"
    using pow2_int [of "q - quantum x"] assms(2) by auto
  have "x / 2 powi quantum x = of_int n * 2 powi (q - quantum x)"
    by (subst assms(1)) (simp add: power_int_diff)
  then have e: "x / 2 powi quantum x = of_int (n * m)" by (simp add: m)
  then have "x = of_int (n * m) * 2 powi quantum x" by (simp add: field_simps)
  then show ?thesis unfolding round_rat_def e round_half_even_of_int by simp
qed

lemma quantum_le:
  assumes "0 < x" and "x < 2 powi (q + 53)" and "- 1074 \<le> q"
  shows "quantum x \<le> q"
proof (rule ccontr)
  assume "\<not> quantum x \<le> q"
  with assms(1,3) have "q + 53 \<le> exponent x" by (auto simp: quantum_def max_def split: if_splits)
  then have "(2::rat) powi (q + 53) \<le> 2 powi exponent x" by (intro power_int_increasing) auto
  with assms(2) exponent_bounds(1) [OF assms(1)] show False by linarith
qed

lemma round_rat_idem_pos:
  assumes "0 < x"
  shows "round_rat (round_rat x) = round_rat x"
proof -
  define q where "q = quantum x"
  define n where "n = round_half_even (x / 2 powi q)"
  have r: "round_rat x = of_int n * 2 powi q"
    using assms by (simp add: round_rat_def n_def q_def)
  have q: "- 1074 \<le> q" "exponent x \<le> q + 52" using assms by (auto simp: q_def quantum_def)
  have "x < 2 powi (exponent x + 1)" by (rule exponent_bounds(2) [OF assms])
  also have "\<dots> \<le> 2 powi (q + 53)" using q(2) by (intro power_int_increasing) auto
  finally have x: "x \<le> 2 powi (q + 53)" by simp
  then have le: "round_rat x \<le> 2 powi (q + 53)"
    using assms by (intro round_rat_le_pow2) (auto simp: q_def)
  show ?thesis
  proof (cases "round_rat x = 2 powi (q + 53)")
    case True
    have "(2::rat) powi (q + 53) < 2 powi ((q + 1) + 53)" by (intro power_int_strict_increasing) auto
    then have "quantum (2 powi (q + 53)) \<le> q + 1" using q(1) by (intro quantum_le) auto
    moreover have "(2::rat) powi (q + 53) = of_int (2 ^ 52) * 2 powi (q + 1)"
    proof -
      have "(2::rat) powi (52 + (q + 1)) = 2 powi 52 * 2 powi (q + 1)"
        by (rule power_int_add) simp
      moreover have "52 + (q + 1) = q + 53" by simp
      moreover have "(2::rat) powi 52 = of_int (2 ^ 52)" by simp
      ultimately show ?thesis by (simp only:)
    qed
    ultimately show ?thesis unfolding True by (intro round_rat_exact) auto
  next
    case False
    with le have lt: "round_rat x < 2 powi (q + 53)" by simp
    show ?thesis
    proof (cases "round_rat x = 0")
      case True
      then show ?thesis by simp
    next
      case False
      with assms have "0 < round_rat x" using round_rat_nonneg [of x] by linarith
      with lt q(1) have "quantum (round_rat x) \<le> q" by (intro quantum_le) auto
      with r show ?thesis by (intro round_rat_exact) auto
    qed
  qed
qed

lemma round_rat_idem [simp]: "round_rat (round_rat x) = round_rat x"
proof -
  consider "0 < x" | "x = 0" | "0 < - x" by linarith
  then show ?thesis
  proof cases
    case 3
    from round_rat_idem_pos [OF this] show ?thesis by (simp add: round_rat_minus)
  qed (simp_all add: round_rat_idem_pos)
qed

subsection \<open>Doubles are ordered, and sums are monotone\<close>

lemma double_less_irrefl [simp]: "\<not> double_less x x"
  by (cases x) auto

lemma double_less_trans: "double_less x y \<Longrightarrow> double_less y z \<Longrightarrow> double_less x z"
  by (cases x; cases y; cases z) auto

lemma double_le_Fin [simp]: "double_le (Fin a) (Fin b) \<longleftrightarrow> a \<le> b"
  by (auto simp: double_le_def)

lemma double_le_simps [simp]:
  "double_le x Pos_inf \<longleftrightarrow> x \<noteq> Not_a_number"
  "double_le Neg_inf x \<longleftrightarrow> x \<noteq> Not_a_number"
  "\<not> double_le Not_a_number x" "\<not> double_le x Not_a_number"
  "\<not> double_le Pos_inf (Fin a)" "\<not> double_le (Fin a) Neg_inf"
  by (cases x; simp add: double_le_def)+

lemma double_le_refl [simp]: "double_le x x \<longleftrightarrow> x \<noteq> Not_a_number"
  by (simp add: double_le_def)

lemma double_le_trans: "double_le x y \<Longrightarrow> double_le y z \<Longrightarrow> double_le x z"
  by (auto simp: double_le_def intro: double_less_trans)

lemma not_double_less:
  "x \<noteq> Not_a_number \<Longrightarrow> y \<noteq> Not_a_number \<Longrightarrow> \<not> double_less x y \<longleftrightarrow> double_le y x"
  by (cases x; cases y) (auto simp: double_le_def)

lemma double_less_le_trans: "double_less x y \<Longrightarrow> double_le y z \<Longrightarrow> double_less x z"
  by (auto simp: double_le_def intro: double_less_trans)

lemma double_le_less_trans: "double_le x y \<Longrightarrow> double_less y z \<Longrightarrow> double_less x z"
  by (auto simp: double_le_def intro: double_less_trans)

lemma round_double_number [simp]: "round_double x \<noteq> Not_a_number"
  by (simp add: round_double_def Let_def)

lemma round_double_0 [simp]: "round_double 0 = Fin 0"
  by (simp add: round_double_def)

lemma round_double_mono: "x \<le> y \<Longrightarrow> double_le (round_double x) (round_double y)"
  using round_rat_mono [of x y] by (auto simp: round_double_def Let_def)

lemma is_double_round [simp]: "is_double (round_double x)"
  by (auto simp: round_double_def Let_def)

lemma is_double_add [simp]: "is_double x \<Longrightarrow> is_double y \<Longrightarrow> is_double (double_add x y)"
  by (cases x; cases y) auto

lemma round_double_minus: "round_double (- x) = double_neg (round_double x)"
  by (auto simp: round_double_def Let_def round_rat_minus)

lemma is_double_neg [simp]: "is_double x \<Longrightarrow> is_double (double_neg x)"
  by (cases x) (auto simp: round_double_minus)

lemma is_double_sub [simp]: "is_double x \<Longrightarrow> is_double y \<Longrightarrow> is_double (double_sub x y)"
  by (simp add: double_sub_def)

definition nonneg :: "double \<Rightarrow> bool" where
  "nonneg x \<longleftrightarrow> double_le (Fin 0) x"

lemma nonneg_cases:
  assumes "nonneg x"
  obtains a where "x = Fin a" "0 \<le> a" | "x = Pos_inf"
  using assms by (cases x) (auto simp: nonneg_def)

lemma nonneg_Fin [simp]: "nonneg (Fin a) \<longleftrightarrow> 0 \<le> a"
  by (simp add: nonneg_def)

lemma nonneg_Pos_inf [simp]: "nonneg Pos_inf"
  by (simp add: nonneg_def)

lemma nonneg_number: "nonneg x \<Longrightarrow> x \<noteq> Not_a_number"
  by (auto simp: nonneg_def)

lemma nonneg_round: "0 \<le> x \<Longrightarrow> nonneg (round_double x)"
  using round_double_mono [of 0 x] by (simp add: nonneg_def)

lemma nonneg_add [simp]: "nonneg x \<Longrightarrow> nonneg y \<Longrightarrow> nonneg (double_add x y)"
  by (elim nonneg_cases) (auto simp: nonneg_round)

text \<open>A floating-point sum of non-negative numbers grows with each summand ...\<close>

lemma double_add_mono:
  assumes "nonneg x" "nonneg y" "double_le x x'" "double_le y y'"
  shows "double_le (double_add x y) (double_add x' y')"
proof -
  from assms have "nonneg x'" "nonneg y'" by (auto simp: nonneg_def intro: double_le_trans)
  with assms show ?thesis
    by (elim nonneg_cases) (auto intro: round_double_mono add_mono)
qed

text \<open>... and is at least each of its summands, rounding included.\<close>

lemma double_add_ge:
  assumes "nonneg x" "nonneg y" "is_double x"
  shows "double_le x (double_add x y)"
  using assms
proof (elim nonneg_cases)
  fix a b assume ab: "x = Fin a" "0 \<le> a" "y = Fin b" "0 \<le> b"
  with assms(3) have "round_double a = Fin a" by simp
  moreover have "double_le (round_double a) (round_double (a + b))"
    using ab by (intro round_double_mono) simp
  ultimately show ?thesis using ab by simp
qed auto

lemma double_add_commute: "double_add x y = double_add y x"
  by (cases x; cases y) (auto simp: add.commute)

lemma double_add_0 [simp]: "is_double x \<Longrightarrow> double_add (Fin 0) x = x"
  by (cases x) auto

lemma double_add_0_right [simp]: "is_double x \<Longrightarrow> double_add x (Fin 0) = x"
  by (cases x) auto

subsection \<open>Evaluating concrete operations\<close>

lemma bit_length_numeral:
  "bit_length 0 = 0" "bit_length (Suc 0) = 1" "bit_length (numeral Num.One) = 1"
  "bit_length (numeral (Num.Bit0 n)) = Suc (bit_length (numeral n))"
  "bit_length (numeral (Num.Bit1 n)) = Suc (bit_length (numeral n))"
  by (simp_all add: bit_length.simps [of 0] bit_length.simps [of "Suc 0"]
      bit_length.simps [of "numeral (Num.Bit0 n)"] bit_length.simps [of "numeral (Num.Bit1 n)"])

lemma floor_fraction:
  "\<lfloor>numeral a / numeral b :: rat\<rfloor> = numeral a div numeral b"
  "\<lfloor>1 / numeral b :: rat\<rfloor> = 1 div numeral b"
  "\<lfloor>- (numeral a / numeral b) :: rat\<rfloor> = - numeral a div numeral b"
  "\<lfloor>- (1 / numeral b) :: rat\<rfloor> = - 1 div numeral b"
  using floor_divide_of_int_eq [of "numeral a" "numeral b", where ?'a = rat]
    floor_divide_of_int_eq [of 1 "numeral b", where ?'a = rat]
    floor_divide_of_int_eq [of "- numeral a" "numeral b", where ?'a = rat]
    floor_divide_of_int_eq [of "- 1" "numeral b", where ?'a = rat]
  by simp_all

lemma ceiling_fraction:
  "\<lceil>numeral a / numeral b :: rat\<rceil> = - (- numeral a div numeral b)"
  "\<lceil>1 / numeral b :: rat\<rceil> = - (- 1 div numeral b)"
  by (simp_all add: ceiling_def floor_fraction)

lemmas double_eval = floor_fraction ceiling_fraction
  round_double_def round_rat_def quantum_def exponent_def bit_length_numeral
  round_half_even_def Let_def double_sub_def double_of_nat_def

end
