(* ===== verification/Yaml_Node.thy ===== *)
theory Yaml_Node
  imports Prelude Binary64
begin

section \<open>YAML nodes and serialisation\<close>

text \<open>
  Every message and every configuration file of the program is a YAML document.
  A \<open>YAML::Node\<close> is a value of \<open>yaml\<close>; a map keeps its pairs in order, as yaml-cpp
  does. Turning a node into text and back (\<open>YAML::Dump\<close>, \<open>YAML::Load\<close>) is yaml-cpp's
  parser and emitter, a third-party library: they are the fields of \<open>yaml_lib\<close>, a parameter
  of everything that sends or receives. What the program does with nodes is modelled:
  \<^item> subscription (\<open>node_index\<close>), assignment (\<open>set_key\<close>) and \<open>merge_node\<close>;
  \<^item> the conversions \<open>as<T>\<close>: a conversion throws (\<open>Inl\<close>), refuses (\<open>Inr None\<close>) or
    returns;
  \<^item> \<open>fast::load\<close> with and without fallback, and the class \<open>fast::Optional\<close>.
\<close>

subsection \<open>Nodes\<close>

datatype yaml = Null | Scalar string | Seq "yaml list" | Map "(string \<times> yaml) list"

text \<open>
  \<open>operator[]\<close> on a constant node with a string key: an undefined node (\<open>None\<close>) where the key
  is missing, an exception on a scalar.
\<close>

fun node_index :: "yaml \<Rightarrow> string \<Rightarrow> yaml option result" where
  "node_index (Map kvs) k = Inr (map_of kvs k)"
| "node_index (Scalar _) k = Inl (Exception ''BadSubscript'')"
| "node_index Null k = Inr None"
| "node_index (Seq _) k = Inr None"

text \<open>Subscripting an undefined node throws.\<close>

fun node_index_opt :: "yaml option \<Rightarrow> string \<Rightarrow> yaml option result" where
  "node_index_opt None k = Inl (Exception ''InvalidNode'')"
| "node_index_opt (Some n) k = node_index n k"

fun node_pairs :: "yaml \<Rightarrow> (string \<times> yaml) list" where
  "node_pairs (Map kvs) = kvs"
| "node_pairs _ = []"

fun set_pair :: "string \<Rightarrow> yaml \<Rightarrow> (string \<times> yaml) list \<Rightarrow> (string \<times> yaml) list" where
  "set_pair k v [] = [(k, v)]"
| "set_pair k v ((k', v') # kvs) =
     (if k' = k then (k, v) # kvs else (k', v') # set_pair k v kvs)"

text \<open>\<open>node[k] = v\<close> on a node that is null or a map.\<close>

definition set_key :: "yaml \<Rightarrow> string \<Rightarrow> yaml \<Rightarrow> yaml" where
  "set_key n k v = Map (set_pair k v (node_pairs n))"

fun merge_pairs ::
  "(string \<times> yaml) list \<Rightarrow> (string \<times> yaml) list \<Rightarrow> (string \<times> yaml) list" where
  "merge_pairs l [] = l"
| "merge_pairs l ((k, v) # r) =
     merge_pairs (if map_of l k = None then l @ [(k, v)] else l) r"

definition merge_node :: "yaml \<Rightarrow> yaml \<Rightarrow> yaml" where
  "merge_node lhs rhs =
     (if node_pairs rhs = [] then lhs else Map (merge_pairs (node_pairs lhs) (node_pairs rhs)))"

subsection \<open>Conversions of scalars and sequences\<close>

type_synonym 'a decoder = "yaml \<Rightarrow> 'a option result"

definition as :: "'a decoder \<Rightarrow> yaml \<Rightarrow> 'a result" where
  "as dec n =
     rbind (dec n) (\<lambda>r. case r of None \<Rightarrow> Inl (Exception ''bad conversion'') | Some v \<Rightarrow> Inr v)"

definition as_or :: "'a decoder \<Rightarrow> 'a \<Rightarrow> yaml \<Rightarrow> 'a result" where
  "as_or dec fallback n = rbind (dec n) (\<lambda>r. case r of None \<Rightarrow> Inr fallback | Some v \<Rightarrow> Inr v)"

fun decode_string :: "string decoder" where
  "decode_string (Scalar s) = Inr (Some s)"
| "decode_string _ = Inr None"

fun decode_elements :: "'a decoder \<Rightarrow> yaml list \<Rightarrow> 'a list result" where
  "decode_elements dec [] = Inr []"
| "decode_elements dec (n # ns) =
     rbind (as dec n) (\<lambda>v. rbind (decode_elements dec ns) (\<lambda>vs. Inr (v # vs)))"

fun decode_seq :: "'a decoder \<Rightarrow> 'a list decoder" where
  "decode_seq dec (Seq ns) = rbind (decode_elements dec ns) (\<lambda>vs. Inr (Some vs))"
| "decode_seq dec _ = Inr None"

text \<open>
  A class derived from \<open>Serializable\<close>: \<open>load\<close> in a \<open>try\<close> block whose \<open>catch (...)\<close>
  turns an exception, and nothing else, into a refusal.
\<close>

definition decode_object :: "(yaml \<Rightarrow> 'a result) \<Rightarrow> 'a decoder" where
  "decode_object ld n =
     (case ld n of
        Inl (Exception _) \<Rightarrow> Inr None
      | Inl e \<Rightarrow> Inl e
      | Inr v \<Rightarrow> Inr (Some v))"

text \<open>
  Extraction of an unsigned integer from a stream whose base is not fixed: \<open>0x\<close> announces
  hexadecimal and \<open>0\<close> octal digits, a minus sign negates modulo the width, an overflow fails.
  Only white space may follow.
\<close>

definition parse_uint :: "nat \<Rightarrow> string \<Rightarrow> nat option" where
  "parse_uint bits s =
     (let (negative, s1) = strip_sign s;
          (base, zero, s2) =
            (case s1 of
               c # cs \<Rightarrow>
                 if c = CHR ''0'' then
                   (case cs of
                      x # ds \<Rightarrow> if x = CHR ''x'' \<or> x = CHR ''X'' then (16, False, ds) else (8, True, cs)
                    | [] \<Rightarrow> (8, True, cs))
                 else (10, False, s1)
             | [] \<Rightarrow> (10, False, s1));
          (v, rest) = read_digits base 0 s2
      in if (zero \<or> rest \<noteq> s2) \<and> v < 2 ^ bits \<and> list_all is_space rest
         then Some (if negative then (2 ^ bits - v) mod 2 ^ bits else v) else None)"

fun decode_uint :: "nat \<Rightarrow> nat decoder" where
  "decode_uint bits (Scalar s) = Inr (parse_uint bits s)"
| "decode_uint bits _ = Inr None"

abbreviation "decode_size_t \<equiv> decode_uint 64"
abbreviation "decode_unsigned \<equiv> decode_uint 32"

text \<open>Booleans: any of four pairs of words, in lower case, upper case or capitalised.\<close>

abbreviation "lower_letters \<equiv> ''abcdefghijklmnopqrstuvwxyz''"
abbreviation "upper_letters \<equiv> ''ABCDEFGHIJKLMNOPQRSTUVWXYZ''"

definition to_lower :: "char \<Rightarrow> char" where
  "to_lower c = (case map_of (zip upper_letters lower_letters) c of Some l \<Rightarrow> l | None \<Rightarrow> c)"

definition is_flexible_case :: "string \<Rightarrow> bool" where
  "is_flexible_case s \<longleftrightarrow>
     list_all (\<lambda>c. c \<in> set lower_letters) s \<or>
     (case s of [] \<Rightarrow> True
      | c # cs \<Rightarrow> c \<in> set upper_letters \<and>
          (list_all (\<lambda>c. c \<in> set lower_letters) cs \<or> list_all (\<lambda>c. c \<in> set upper_letters) cs))"

definition parse_bool :: "string \<Rightarrow> bool option" where
  "parse_bool s =
     (if \<not> is_flexible_case s then None
      else if map to_lower s \<in> {''y'', ''yes'', ''true'', ''on''} then Some True
      else if map to_lower s \<in> {''n'', ''no'', ''false'', ''off''} then Some False
      else None)"

fun decode_bool :: "bool decoder" where
  "decode_bool (Scalar s) = Inr (parse_bool s)"
| "decode_bool _ = Inr None"

text \<open>Doubles: a decimal number with optional fraction and exponent, or an infinity or NaN.\<close>

definition digits_value :: "string \<Rightarrow> nat" where
  "digits_value s = fst (read_digits 10 0 s)"

definition is_digit :: "char \<Rightarrow> bool" where
  "is_digit c \<longleftrightarrow> c \<in> set ''0123456789''"

definition parse_exponent :: "string \<Rightarrow> (int \<times> string) option" where
  "parse_exponent s =
     (case s of
        c # cs \<Rightarrow>
          if c = CHR ''e'' \<or> c = CHR ''E'' then
            (let (negative, ds) = strip_sign cs; d = takeWhile is_digit ds
             in if d = [] then None
                else Some (if negative then - int (digits_value d) else int (digits_value d),
                  dropWhile is_digit ds))
          else Some (0, s)
      | [] \<Rightarrow> Some (0, s))"

definition parse_decimal :: "string \<Rightarrow> (rat \<times> string) option" where
  "parse_decimal s =
     (let (negative, s1) = strip_sign s;
          whole = takeWhile is_digit s1; s2 = dropWhile is_digit s1;
          (frac, s3) =
            (case s2 of
               c # cs \<Rightarrow> if c = CHR ''.'' then (takeWhile is_digit cs, dropWhile is_digit cs) else ([], s2)
             | [] \<Rightarrow> ([], s2))
      in if whole = [] \<and> frac = [] then None
         else (case parse_exponent s3 of
                 None \<Rightarrow> None
               | Some (e, rest) \<Rightarrow>
                   let m = of_nat (digits_value (whole @ frac)) * 10 powi (e - int (length frac))
                   in Some (if negative then - m else m, rest)))"

definition parse_double :: "string \<Rightarrow> double option" where
  "parse_double s =
     (case parse_decimal s of
        Some (r, rest) \<Rightarrow>
          (case round_double r of
             Fin x \<Rightarrow> if list_all is_space rest then Some (Fin x) else None
           | _ \<Rightarrow> None)
      | None \<Rightarrow>
          if s \<in> {''.inf'', ''.Inf'', ''.INF'', ''+.inf'', ''+.Inf'', ''+.INF''} then Some Pos_inf
          else if s \<in> {''-.inf'', ''-.Inf'', ''-.INF''} then Some Neg_inf
          else if s \<in> {''.nan'', ''.NaN'', ''.NAN''} then Some Not_a_number
          else None)"

fun decode_double :: "double decoder" where
  "decode_double (Scalar s) = Inr (parse_double s)"
| "decode_double _ = Inr None"

subsection \<open>Encodings\<close>

definition encode_nat :: "nat \<Rightarrow> yaml" where
  "encode_nat n = Scalar (show_nat n)"

definition encode_bool :: "bool \<Rightarrow> yaml" where
  "encode_bool b = Scalar (if b then ''true'' else ''false'')"

definition encode_seq :: "('a \<Rightarrow> yaml) \<Rightarrow> 'a list \<Rightarrow> yaml" where
  "encode_seq enc xs = Seq (map enc xs)"

subsection \<open>fast::load and fast::Optional\<close>

definition load :: "'a decoder \<Rightarrow> yaml option \<Rightarrow> 'a result" where
  "load dec node =
     (case node of
        Some n \<Rightarrow> as dec n
      | None \<Rightarrow> Inl (Exception ''Error loading YAML-node: Node is not valid.''))"

definition load_or :: "'a decoder \<Rightarrow> 'a \<Rightarrow> yaml option \<Rightarrow> 'a result" where
  "load_or dec fallback node =
     (case node of Some n \<Rightarrow> as_or dec fallback n | None \<Rightarrow> Inr fallback)"

text \<open>\<open>fast::load(var, node[key])\<close>, and the same with a fallback.\<close>

definition load_key :: "'a decoder \<Rightarrow> yaml \<Rightarrow> string \<Rightarrow> 'a result" where
  "load_key dec node k = rbind (node_index node k) (load dec)"

definition load_key_or :: "'a decoder \<Rightarrow> 'a \<Rightarrow> yaml \<Rightarrow> string \<Rightarrow> 'a result" where
  "load_key_or dec fallback node k = rbind (node_index node k) (load_or dec fallback)"

record 'a optional =
  tag :: string
  ptr :: "'a option"

definition no_value :: "string \<Rightarrow> 'a optional" where
  "no_value t = \<lparr>tag = t, ptr = None\<rparr>"

definition with_value :: "string \<Rightarrow> 'a \<Rightarrow> 'a optional" where
  "with_value t v = \<lparr>tag = t, ptr = Some v\<rparr>"

definition set_value :: "'a optional \<Rightarrow> 'a \<Rightarrow> 'a optional" where
  "set_value opt v = opt\<lparr>ptr := Some v\<rparr>"

definition is_valid :: "'a optional \<Rightarrow> bool" where
  "is_valid opt \<longleftrightarrow> ptr opt \<noteq> None"

definition get_value :: "'a optional \<Rightarrow> 'a result" where
  "get_value opt =
     (case ptr opt of Some v \<Rightarrow> Inr v | None \<Rightarrow> Inl (Exception ''Optional value not valid.''))"

definition optional_emit :: "('a \<Rightarrow> yaml) \<Rightarrow> 'a optional \<Rightarrow> yaml" where
  "optional_emit enc opt =
     (case ptr opt of Some v \<Rightarrow> set_key Null (tag opt) (enc v) | None \<Rightarrow> Null)"

definition optional_load :: "'a decoder \<Rightarrow> 'a optional \<Rightarrow> yaml \<Rightarrow> 'a optional result" where
  "optional_load dec opt node =
     (if tag opt = '''' then Inr opt
      else rbind (node_index node (tag opt)) (\<lambda>r.
        case r of
          None \<Rightarrow> Inr opt
        | Some n \<Rightarrow> rbind (as dec n) (\<lambda>v. Inr (opt\<lparr>ptr := Some v\<rparr>))))"

subsection \<open>Text\<close>

text \<open>The third-party emitter and parser.\<close>

record yaml_lib =
  dump :: "yaml \<Rightarrow> string"
  parse :: "string \<Rightarrow> yaml result"

definition newline :: string where
  "newline = [CHR 0x0A]"

text \<open>\<open>Serializable::to_string\<close> and \<open>Serializable::from_string\<close>.\<close>

definition to_string :: "yaml_lib \<Rightarrow> yaml \<Rightarrow> string" where
  "to_string Y n = ''---'' @ newline @ dump Y n @ newline @ ''---''"

definition from_string :: "yaml_lib \<Rightarrow> (yaml \<Rightarrow> 'a result) \<Rightarrow> string \<Rightarrow> 'a result" where
  "from_string Y ld s = rbind (parse Y s) ld"

subsection \<open>What a node holds under a key\<close>

named_theorems yaml_simps \<open>look-ups in nodes that were assigned and merged\<close>

definition node_get :: "yaml \<Rightarrow> string \<Rightarrow> yaml option" where
  "node_get n k = map_of (node_pairs n) k"

definition is_mapping :: "yaml \<Rightarrow> bool" where
  "is_mapping n \<longleftrightarrow> (case n of Null \<Rightarrow> True | Map _ \<Rightarrow> True | _ \<Rightarrow> False)"

lemma node_index_mapping [yaml_simps]: "is_mapping n \<Longrightarrow> node_index n k = Inr (node_get n k)"
  by (cases n) (auto simp: is_mapping_def node_get_def)

lemma node_get_Null [yaml_simps]: "node_get Null k = None"
  by (simp add: node_get_def)

lemma map_of_set_pair: "map_of (set_pair k v kvs) = (map_of kvs)(k \<mapsto> v)"
  by (induction kvs) auto

lemma node_get_set_key [yaml_simps]:
  "node_get (set_key n k v) j = (if j = k then Some v else node_get n j)"
  by (simp add: node_get_def set_key_def map_of_set_pair)

lemma map_of_merge_pairs:
  "map_of (merge_pairs l r) k = (case map_of l k of Some v \<Rightarrow> Some v | None \<Rightarrow> map_of r k)"
  by (induction l r rule: merge_pairs.induct) (auto split: option.splits)

lemma node_get_merge [yaml_simps]:
  "node_get (merge_node l r) k = (case node_get l k of Some v \<Rightarrow> Some v | None \<Rightarrow> node_get r k)"
  by (auto simp: node_get_def merge_node_def map_of_merge_pairs split: option.splits)

lemma node_get_optional_emit [yaml_simps]:
  "node_get (optional_emit enc opt) k = (if k = tag opt then map_option enc (ptr opt) else None)"
  by (auto simp: optional_emit_def yaml_simps split: option.splits)

text \<open>Whole nodes, key by key, when what is merged does not occur yet.\<close>

named_theorems keys_simps \<open>nodes built from fields with different keys\<close>

lemma keys_merge_fresh [keys_simps]:
  "node_get n (tag opt) = None \<Longrightarrow>
     node_get (merge_node n (optional_emit enc opt)) =
       (node_get n)(tag opt := map_option enc (ptr opt))"
  by (auto simp: fun_eq_iff yaml_simps split: option.splits)

lemma keys_set_key [keys_simps]: "node_get (set_key n k v) = (node_get n)(k := Some v)"
  by (auto simp: fun_eq_iff yaml_simps)

lemma keys_Null [keys_simps]: "node_get Null = (\<lambda>_. None)"
  by (simp add: fun_eq_iff yaml_simps)

lemma is_mapping_Null [yaml_simps]: "is_mapping Null"
  by (simp add: is_mapping_def)

lemma is_mapping_set_key [yaml_simps]: "is_mapping (set_key n k v)"
  by (simp add: is_mapping_def set_key_def)

lemma is_mapping_merge [yaml_simps]: "is_mapping l \<Longrightarrow> is_mapping (merge_node l r)"
  by (simp add: is_mapping_def merge_node_def)

lemma is_mapping_optional_emit [yaml_simps]: "is_mapping (optional_emit enc opt)"
  by (auto simp: optional_emit_def yaml_simps split: option.splits)

subsection \<open>Encoded values are read back\<close>

named_theorems decode_simps \<open>decoding what an encoder wrote\<close>

lemma as_string [decode_simps]: "as decode_string (Scalar s) = Inr s"
  by (simp add: as_def)

lemma as_object [decode_simps]: "ld n = Inr v \<Longrightarrow> as (decode_object ld) n = Inr v"
  by (simp add: as_def decode_object_def)

lemma as_bool [decode_simps]: "as decode_bool (encode_bool b) = Inr b"
  by (cases b)
    (simp_all add: as_def encode_bool_def parse_bool_def is_flexible_case_def to_lower_def)

lemma decode_elements_map:
  "\<forall>x \<in> set xs. as dec (enc x) = Inr x \<Longrightarrow> decode_elements dec (map enc xs) = Inr xs"
  by (induction xs) auto

lemma as_seq [decode_simps]:
  "\<forall>x \<in> set xs. as dec (enc x) = Inr x \<Longrightarrow> as (decode_seq dec) (encode_seq enc xs) = Inr xs"
  by (simp add: as_def encode_seq_def decode_elements_map)

lemma show_nat_0 [simp]: "show_nat 0 = ''0''"
  by (simp add: show_nat.simps [of 0] digit_char_def)

lemma parse_show_nat: "n < 2 ^ bits \<Longrightarrow> parse_uint bits (show_nat n) = Some n"
proof -
  assume n: "n < 2 ^ bits"
  obtain c cs where c: "show_nat n = c # cs" by (cases "show_nat n") auto
  from hd_show_nat [of n] c obtain d where d: "d < 10" "c = digit_char d" "d = 0 \<longrightarrow> n = 0"
    by auto
  show ?thesis
  proof (cases "n = 0")
    case True
    then show ?thesis by (simp add: parse_uint_def strip_sign_def)
  next
    case False
    with d have "c \<noteq> CHR ''-''" "c \<noteq> CHR ''+''" "c \<noteq> CHR ''0''"
      using digit_char_neq [of d] digit_char_zero [of d] by auto
    with n c read_show_nat [of n] show ?thesis
      by (simp add: parse_uint_def strip_sign_def)
  qed
qed

lemma as_uint [decode_simps]: "n < 2 ^ bits \<Longrightarrow> as (decode_uint bits) (encode_nat n) = Inr n"
  by (simp add: as_def encode_nat_def parse_show_nat)

text \<open>An optional field that was written is read into a fresh one with the same tag.\<close>

lemma optional_load_written:
  assumes "is_mapping n" and "tag opt \<noteq> ''''"
    and "node_get n (tag opt) = map_option enc (ptr opt)"
    and "\<And>v. ptr opt = Some v \<Longrightarrow> as dec (enc v) = Inr v"
  shows "optional_load dec (no_value (tag opt)) n = Inr opt"
proof (cases "ptr opt")
  case None
  with assms show ?thesis
    by (cases opt) (simp add: optional_load_def no_value_def yaml_simps)
next
  case (Some v)
  with assms show ?thesis
    by (cases opt) (simp add: optional_load_def no_value_def yaml_simps)
qed

lemma load_key_written:
  "is_mapping n \<Longrightarrow> node_get n k = Some x \<Longrightarrow> as dec x = Inr v \<Longrightarrow> load_key dec n k = Inr v"
  by (simp add: load_key_def load_def yaml_simps)

end
