(* ===== verification/Job_Model.thy ===== *)
theory Job_Model
  imports Yaml_Node
begin

section \<open>Jobs, job queues and the slot configuration\<close>

text \<open>
  The data the user supplies: \<open>jobT\<close> and \<open>job_queueT\<close> (\<open>src/job.cpp\<close>,
  \<open>include/poncos/job.hpp\<close>) and the division of a machine into slots, \<open>slotT\<close> and
  \<open>system_configT\<close> (\<open>src/system_config.cpp\<close>), with their YAML form. The lemmas show that
  what \<open>emit\<close> writes, \<open>load\<close> reads back, and how the product of \<open>req_cpus\<close> wraps.
\<close>

subsection \<open>Data\<close>

record jobT =
  nprocs :: nat
  threads_per_proc :: nat
  command :: string
  uses_sr_protocol :: bool

record job_queueT =
  queue_title :: string
  jobs :: "jobT list"
  queue_id :: string

record slotT =
  cpus :: "nat list"
  mems :: "nat list"

record system_configT =
  slots :: "slotT list"

definition req_cpus :: "jobT \<Rightarrow> nat" where
  "req_cpus job = wrap64 (nprocs job * threads_per_proc job)"

text \<open>\<open>slots[0].cpus.size()\<close>, and \<open>operator[]\<close>.\<close>

definition slot_size :: "system_configT \<Rightarrow> nat result" where
  "slot_size sc = rbind (vec_at (slots sc) 0) (\<lambda>slot. Inr (length (cpus slot)))"

definition slot_conf :: "system_configT \<Rightarrow> nat \<Rightarrow> slotT result" where
  "slot_conf sc idx = vec_at (slots sc) idx"

subsection \<open>YAML form\<close>

definition emit_job :: "jobT \<Rightarrow> yaml" where
  "emit_job job =
     set_key (set_key (set_key (set_key Null
       ''nprocs'' (encode_nat (nprocs job)))
       ''threads-per-proc'' (encode_nat (threads_per_proc job)))
       ''cmd'' (Scalar (command job)))
       ''uses-sr-protocol'' (encode_bool (uses_sr_protocol job))"

definition load_job :: "yaml \<Rightarrow> jobT result" where
  "load_job node =
     rbind (load_key decode_size_t node ''nprocs'') (\<lambda>n.
     rbind (load_key decode_size_t node ''threads-per-proc'') (\<lambda>t.
     rbind (load_key decode_string node ''cmd'') (\<lambda>c.
     rbind (load_key decode_bool node ''uses-sr-protocol'') (\<lambda>u.
     Inr \<lparr>nprocs = n, threads_per_proc = t, command = c, uses_sr_protocol = u\<rparr>))))"

definition emit_job_queue :: "job_queueT \<Rightarrow> yaml" where
  "emit_job_queue q = set_key Null ''job-list'' (encode_seq emit_job (jobs q))"

text \<open>Only the jobs are read; the title and the id keep the values they had.\<close>

definition load_job_queue :: "job_queueT \<Rightarrow> yaml \<Rightarrow> job_queueT result" where
  "load_job_queue q node =
     rbind (load_key (decode_seq (decode_object load_job)) node ''job-list'') (\<lambda>js.
     Inr (q\<lparr>jobs := js\<rparr>))"

definition empty_job_queue :: job_queueT where
  "empty_job_queue = \<lparr>queue_title = '''', jobs = [], queue_id = ''''\<rparr>"

definition job_queue_of_jobs :: "jobT list \<Rightarrow> job_queueT" where
  "job_queue_of_jobs js = empty_job_queue\<lparr>jobs := js\<rparr>"

text \<open>The constructor from a file name, given the text of the file.\<close>

definition job_queue_of_text :: "yaml_lib \<Rightarrow> string \<Rightarrow> job_queueT result" where
  "job_queue_of_text Y txt = from_string Y (load_job_queue empty_job_queue) txt"

definition emit_slot :: "slotT \<Rightarrow> yaml" where
  "emit_slot slot =
     set_key (set_key Null
       ''cpus'' (encode_seq encode_nat (cpus slot)))
       ''mems'' (encode_seq encode_nat (mems slot))"

definition load_slot :: "yaml \<Rightarrow> slotT result" where
  "load_slot node =
     rbind (load_key (decode_seq decode_unsigned) node ''cpus'') (\<lambda>cs.
     rbind (load_key (decode_seq decode_unsigned) node ''mems'') (\<lambda>ms.
     Inr \<lparr>cpus = cs, mems = ms\<rparr>))"

definition emit_system_config :: "system_configT \<Rightarrow> yaml" where
  "emit_system_config sc = set_key Null ''slot-list'' (encode_seq emit_slot (slots sc))"

definition load_system_config :: "yaml \<Rightarrow> system_configT result" where
  "load_system_config node =
     rbind (load_key (decode_seq (decode_object load_slot)) node ''slot-list'') (\<lambda>ss.
     Inr \<lparr>slots = ss\<rparr>)"

definition system_config_of_text :: "yaml_lib \<Rightarrow> string \<Rightarrow> system_configT result" where
  "system_config_of_text Y txt = from_string Y load_system_config txt"

subsection \<open>Printing\<close>

text \<open>
  \<open>operator<<\<close> of a vector collects every element followed by a comma and drops the last
  character when there is one.
\<close>

definition print_vector :: "('a \<Rightarrow> string) \<Rightarrow> 'a list \<Rightarrow> string" where
  "print_vector pr xs =
     (let str = concat (map (\<lambda>x. pr x @ '','') xs)
      in ''['' @ (if str \<noteq> [] then butlast str else str) @ '']'')"

definition print_pair :: "('a \<Rightarrow> string) \<Rightarrow> ('b \<Rightarrow> string) \<Rightarrow> 'a \<times> 'b \<Rightarrow> string" where
  "print_pair pr1 pr2 p = ''('' @ pr1 (fst p) @ '','' @ pr2 (snd p) @ '') ''"

definition print_job :: "jobT \<Rightarrow> string" where
  "print_job job =
     ''nprocs: '' @ show_nat (nprocs job) @ ''; '' @
     ''threads-per-proc: '' @ show_nat (threads_per_proc job) @ ''; '' @
     ''cmd: '' @ command job @ ''; '' @
     ''uses-sr-protocol: '' @ (if uses_sr_protocol job then ''1'' else ''0'')"

definition print_slot :: "slotT \<Rightarrow> string" where
  "print_slot slot =
     ''cpus: '' @ print_vector show_nat (cpus slot) @ ''; '' @
     ''mems: '' @ print_vector show_nat (mems slot) @ ''; ''"

subsection \<open>Round trips\<close>

definition job_ok :: "jobT \<Rightarrow> bool" where
  "job_ok job \<longleftrightarrow> nprocs job \<le> size_max \<and> threads_per_proc job \<le> size_max"

definition slot_ok :: "slotT \<Rightarrow> bool" where
  "slot_ok slot \<longleftrightarrow> (\<forall>c \<in> set (cpus slot). c < 2 ^ 32) \<and> (\<forall>m \<in> set (mems slot). m < 2 ^ 32)"

lemma load_emit_job:
  assumes "job_ok job"
  shows "load_job (emit_job job) = Inr job"
proof -
  from assms have "nprocs job < 2 ^ 64" "threads_per_proc job < 2 ^ 64"
    by (auto simp: job_ok_def size_max_def)
  then show ?thesis
    by (simp add: load_job_def emit_job_def load_key_def load_def yaml_simps decode_simps)
qed

lemma load_emit_slot:
  assumes "slot_ok slot"
  shows "load_slot (emit_slot slot) = Inr slot"
proof -
  from assms have "\<forall>x \<in> set (cpus slot). as decode_unsigned (encode_nat x) = Inr x"
    "\<forall>x \<in> set (mems slot). as decode_unsigned (encode_nat x) = Inr x"
    by (auto simp: slot_ok_def as_uint)
  then show ?thesis
    by (simp add: load_slot_def emit_slot_def load_key_def load_def yaml_simps as_seq)
qed

lemma load_written_queue:
  assumes "\<forall>job \<in> set (jobs q). job_ok job"
  shows "load_job_queue r (emit_job_queue q) = Inr (r\<lparr>jobs := jobs q\<rparr>)"
proof -
  from assms have "\<forall>job \<in> set (jobs q). as (decode_object load_job) (emit_job job) = Inr job"
    by (auto intro: as_object load_emit_job)
  then show ?thesis
    by (simp add: load_job_queue_def emit_job_queue_def load_key_def load_def yaml_simps as_seq)
qed

text \<open>
  C36: a job queue that was written to YAML is read back with the same jobs; the title and the
  id of the queue do not travel.
\<close>

theorem job_queue_roundtrip:
  assumes "\<forall>job \<in> set (jobs q). job_ok job"
  shows "load_job_queue r (emit_job_queue q) = Inr (r\<lparr>jobs := jobs q\<rparr>)"
  using assms by (rule load_written_queue)

theorem job_queue_roundtrip_witness:
  "load_job_queue empty_job_queue (emit_job_queue (job_queue_of_jobs
     [\<lparr>nprocs = 16, threads_per_proc = 2, command = ''./lu.A'', uses_sr_protocol = True\<rparr>])) =
   Inr (job_queue_of_jobs
     [\<lparr>nprocs = 16, threads_per_proc = 2, command = ''./lu.A'', uses_sr_protocol = True\<rparr>])"
  using job_queue_roundtrip [of "job_queue_of_jobs
     [\<lparr>nprocs = 16, threads_per_proc = 2, command = ''./lu.A'', uses_sr_protocol = True\<rparr>]"
     empty_job_queue]
  by (simp add: job_queue_of_jobs_def empty_job_queue_def job_ok_def size_max_def)

lemma load_written_config:
  assumes "\<forall>slot \<in> set (slots sc). slot_ok slot"
  shows "load_system_config (emit_system_config sc) = Inr sc"
proof -
  from assms have "\<forall>s \<in> set (slots sc). as (decode_object load_slot) (emit_slot s) = Inr s"
    by (auto intro: as_object load_emit_slot)
  then show ?thesis
    by (simp add: load_system_config_def emit_system_config_def load_key_def load_def yaml_simps
        as_seq)
qed

text \<open>
  C37: a slot configuration that was written to YAML is read back, as long as every processor
  and memory number fits an unsigned integer.
\<close>

theorem system_config_roundtrip:
  assumes "\<forall>slot \<in> set (slots sc). slot_ok slot"
  shows "load_system_config (emit_system_config sc) = Inr sc"
  using assms by (rule load_written_config)

theorem system_config_roundtrip_witness:
  "load_system_config (emit_system_config \<lparr>slots =
     [\<lparr>cpus = [0, 1], mems = [0]\<rparr>, \<lparr>cpus = [2, 3], mems = [1]\<rparr>]\<rparr>) =
   Inr \<lparr>slots = [\<lparr>cpus = [0, 1], mems = [0]\<rparr>, \<lparr>cpus = [2, 3], mems = [1]\<rparr>]\<rparr>"
  using system_config_roundtrip [of "\<lparr>slots =
     [\<lparr>cpus = [0, 1], mems = [0]\<rparr>, \<lparr>cpus = [2, 3], mems = [1]\<rparr>]\<rparr>"]
  by (simp add: slot_ok_def)

text \<open>
  The number of processors a job asks for is the product of its two numbers unless the
  product overflows; then it is the product modulo the range of \<open>size_t\<close>.
\<close>

lemma req_cpus_exact:
  "nprocs job * threads_per_proc job \<le> size_max \<Longrightarrow> req_cpus job = nprocs job * threads_per_proc job"
  by (simp add: req_cpus_def)

end
