(* ===== verification/Text_Files.thy ===== *)
theory Text_Files
  imports Yaml_Node
begin

section \<open>Reading line-oriented files\<close>

text \<open>
  \<open>src/helper.cpp\<close>: \<open>trim\<close> and \<open>read_file\<close>, which reads the machine file. A file is
  its text; the file stream is the rest of the text and the end-of-file flag that
  \<open>std::getline\<close> sets when it runs out of characters before a line break.
\<close>

subsection \<open>The model\<close>

text \<open>\<open>erase(begin, find_if(begin, end, not isspace))\<close>, and the same from the other end.\<close>

definition ltrim :: "string \<Rightarrow> string" where
  "ltrim s = dropWhile is_space s"

definition rtrim :: "string \<Rightarrow> string" where
  "rtrim s = rev (dropWhile is_space (rev s))"

definition trim :: "string \<Rightarrow> string" where
  "trim s = ltrim (rtrim s)"

text \<open>
  \<open>std::getline\<close>: fails when nothing is left; otherwise the characters up to the next line
  break, which is consumed, or up to the end, which sets the end-of-file flag.
\<close>

definition getline :: "string \<Rightarrow> (string \<times> string \<times> bool) option" where
  "getline s =
     (if s = [] then None
      else let line = takeWhile (\<lambda>c. c \<noteq> CHR 0x0A) s;
               rest = dropWhile (\<lambda>c. c \<noteq> CHR 0x0A) s
           in Some (line, tl rest, rest = []))"

lemma getline_shorter: "getline s = Some (line, rest, eof) \<Longrightarrow> length rest < length s"
proof -
  assume a: "getline s = Some (line, rest, eof)"
  then have s: "s \<noteq> []" "rest = tl (dropWhile (\<lambda>c. c \<noteq> CHR 0x0A) s)"
    by (auto simp: getline_def Let_def split: if_splits)
  have "length (dropWhile (\<lambda>c. c \<noteq> CHR 0x0A) s) \<le> length s" by (rule length_dropWhile_le)
  with s show ?thesis by (cases s) auto
qed

text \<open>
  The body of the loop: the stream must still be good, the line is trimmed, and it is kept
  unless its first character is a hash mark. \<open>operator[]\<close> of an empty string yields the
  terminating null character, so an empty line is kept.
\<close>

definition first_char :: "string \<Rightarrow> char" where
  "first_char s = (case s of [] \<Rightarrow> CHR 0x00 | c # _ \<Rightarrow> c)"

function read_lines :: "string \<Rightarrow> string list \<Rightarrow> string list result" where
  "read_lines s queue =
     (case getline s of
        None \<Rightarrow> Inr queue
      | Some (line, rest, eof) \<Rightarrow>
          if eof then Inl (Assertion ''file.good()'')
          else let command = trim line
               in read_lines rest (if first_char command \<noteq> CHR ''#'' then queue @ [command] else queue))"
  by pat_completeness auto
termination
  by (relation "measure (\<lambda>(s, queue). length s)") (auto dest: getline_shorter)

declare read_lines.simps [simp del]

text \<open>\<open>read_file\<close>: the file must exist; \<open>None\<close> stands for a file that cannot be opened.\<close>

definition read_file :: "string option \<Rightarrow> string list \<Rightarrow> string list result" where
  "read_file file queue =
     (case file of None \<Rightarrow> Inl (Assertion ''file.good()'') | Some s \<Rightarrow> read_lines s queue)"

text \<open>\<open>read_file_to_string\<close>: a file that cannot be opened reads as the empty string.\<close>

definition read_file_to_string :: "string option \<Rightarrow> string" where
  "read_file_to_string file = (case file of None \<Rightarrow> [] | Some s \<Rightarrow> s)"

subsection \<open>Trimming\<close>

lemma trim_no_space_ends:
  "trim s = [] \<or> (\<not> is_space (hd (trim s)) \<and> \<not> is_space (last (trim s)))"
proof -
  let ?r = "rtrim s"
  have last: "?r = [] \<or> \<not> is_space (last ?r)"
    by (metis hd_dropWhile last_rev rev_is_Nil_conv rtrim_def)
  show ?thesis
  proof (cases "trim s = []")
    case False
    then have "\<not> is_space (hd (trim s))" by (simp add: trim_def ltrim_def hd_dropWhile)
    moreover from False have "last (trim s) = last ?r"
      unfolding trim_def ltrim_def
      by (metis append_is_Nil_conv last_append takeWhile_dropWhile_id)
    ultimately show ?thesis using last False by (auto simp: trim_def ltrim_def)
  qed simp
qed

lemma trim_infix:
  "\<exists>pre post. s = pre @ trim s @ post \<and> list_all is_space pre \<and> list_all is_space post"
proof -
  let ?r = "rtrim s"
  let ?pre = "takeWhile is_space ?r" and ?post = "rev (takeWhile is_space (rev s))"
  have "s = ?r @ ?post"
    unfolding rtrim_def by (metis rev_append rev_rev_ident takeWhile_dropWhile_id)
  moreover have "?r = ?pre @ trim s" by (simp add: trim_def ltrim_def)
  ultimately have "s = ?pre @ trim s @ ?post" by (metis append.assoc)
  moreover have "list_all is_space ?pre" "list_all is_space ?post"
    by (auto simp: list_all_iff dest: set_takeWhileD)
  ultimately show ?thesis by blast
qed

subsection \<open>The lines of a file\<close>

text \<open>The text of a file whose every line ends in a line break.\<close>

definition unlines :: "string list \<Rightarrow> string" where
  "unlines ls = concat (map (\<lambda>l. l @ [CHR 0x0A]) ls)"

definition no_break :: "string \<Rightarrow> bool" where
  "no_break l \<longleftrightarrow> CHR 0x0A \<notin> set l"

definition kept_lines :: "string list \<Rightarrow> string list" where
  "kept_lines ls = filter (\<lambda>l. first_char l \<noteq> CHR ''#'') (map trim ls)"

lemma getline_line:
  assumes "no_break l"
  shows "getline (l @ CHR 0x0A # rest) = Some (l, rest, False)"
proof -
  from assms have "\<forall>c \<in> set l. c \<noteq> CHR 0x0A" by (auto simp: no_break_def)
  then show ?thesis by (simp add: getline_def takeWhile_append2 dropWhile_append2)
qed

lemma read_lines_unlines:
  "\<forall>l \<in> set ls. no_break l \<Longrightarrow>
     read_lines (unlines ls @ rest) queue = read_lines rest (queue @ kept_lines ls)"
proof (induction ls arbitrary: queue)
  case Nil
  then show ?case by (simp add: unlines_def kept_lines_def)
next
  case (Cons l ls)
  have "read_lines (l @ CHR 0x0A # (unlines ls @ rest)) queue =
      read_lines (unlines ls @ rest) (queue @ kept_lines [l])"
    using Cons.prems
    by (subst read_lines.simps) (simp add: getline_line kept_lines_def Let_def)
  with Cons show ?case by (simp add: unlines_def kept_lines_def)
qed

text \<open>
  C40: a machine file whose every line is terminated yields exactly its lines, trimmed, without
  those that start with a hash mark, appended to what was there; a file whose last line is
  not terminated stops the program at the assertion inside the loop, whatever it contains.
\<close>

theorem read_file_lines:
  assumes "\<forall>l \<in> set ls. no_break l" and "no_break final"
  shows "read_file (Some (unlines ls @ final)) queue =
    (if final = [] then Inr (queue @ kept_lines ls) else Inl (Assertion ''file.good()''))"
proof -
  have "getline final = (if final = [] then None else Some (final, [], True))"
  proof -
    from assms(2) have "\<forall>c \<in> set final. c \<noteq> CHR 0x0A" by (auto simp: no_break_def)
    then have t: "takeWhile (\<lambda>c. c \<noteq> CHR 0x0A) final = final"
      and d: "dropWhile (\<lambda>c. c \<noteq> CHR 0x0A) final = []"
      by (simp_all add: takeWhile_eq_all_conv)
    show ?thesis unfolding getline_def t d by simp
  qed
  then show ?thesis
    unfolding read_file_def using read_lines_unlines [OF assms(1), of final queue]
    by (simp add: read_lines.simps [of final])
qed

theorem read_file_lines_witness:
  "read_file (Some (unlines ['' node01 '', ''# spare'', ''node02''] @ [])) [] =
     Inr [''node01'', ''node02'']"
  by (subst read_file_lines)
    (simp_all add: no_break_def kept_lines_def trim_def ltrim_def rtrim_def is_space_def
      first_char_def)

end
