(* ===== verification/Time_Measurement.thy ===== *)
theory Time_Measurement
  imports Yaml_Node "HOL-Library.AList"
begin

section \<open>Named timers\<close>

text \<open>
  \<open>fast::msg::migfra::Timer\<close> and \<open>Time_measurement\<close>
  (\<open>vendor/fast-lib/src/message/migfra/time_measurement.cpp\<close>). The controllers stamp the start
  and the end of jobs, freezes and migrations with \<open>tick\<close> and \<open>tock\<close>, both of which
  throw when the name is used the wrong way. The clock is read from outside: every operation
  takes the current time, in nanoseconds. Seconds are doubles, and \<open>std::to_string\<close> writes them
  with six digits after the point.
\<close>

record timer =
  start_point :: int
  stop_point :: int
  stopped :: bool
  timer_base_point :: int

definition timer_start :: "int \<Rightarrow> timer \<Rightarrow> timer" where
  "timer_start now t = t\<lparr>start_point := now, stopped := False\<rparr>"

definition new_timer :: "int \<Rightarrow> int \<Rightarrow> timer" where
  "new_timer now base =
     timer_start now \<lparr>start_point = 0, stop_point = 0, stopped = False, timer_base_point = base\<rparr>"

definition timer_elapsed :: "int \<Rightarrow> timer \<Rightarrow> int" where
  "timer_elapsed now t = (if stopped t then stop_point t - start_point t else now - start_point t)"

definition timer_stop :: "int \<Rightarrow> timer \<Rightarrow> timer" where
  "timer_stop now t = (if stopped t then t else t\<lparr>stop_point := now, stopped := True\<rparr>)"

definition timer_resume :: "int \<Rightarrow> timer \<Rightarrow> timer" where
  "timer_resume now t = t\<lparr>start_point := now - timer_elapsed now t, stopped := False\<rparr>"

text \<open>The count of nanoseconds as a double, divided by the nanoseconds in a second.\<close>

definition seconds :: "int \<Rightarrow> double" where
  "seconds d = (case round_double (of_int d) of
     Fin r \<Rightarrow> round_double (r / 1000000000)
   | x \<Rightarrow> x)"

definition wall_sec :: "int \<Rightarrow> timer \<Rightarrow> double" where
  "wall_sec now t = seconds (timer_elapsed now t)"

definition start_sec :: "timer \<Rightarrow> double" where
  "start_sec t = seconds (start_point t - timer_base_point t)"

definition stop_sec :: "timer \<Rightarrow> double" where
  "stop_sec t = seconds (stop_point t - timer_base_point t)"

fun show_double :: "double \<Rightarrow> string" where
  "show_double (Fin r) =
     (let n = nat (round_half_even (\<bar>r\<bar> * 1000000));
          frac = show_nat (n mod 1000000)
      in (if r < 0 then ''-'' else []) @ show_nat (n div 1000000) @ ''.'' @
         replicate (6 - length frac) (CHR ''0'') @ frac)"
| "show_double Pos_inf = ''inf''"
| "show_double Neg_inf = ''-inf''"
| "show_double Not_a_number = ''nan''"

definition timer_format :: "int \<Rightarrow> string \<Rightarrow> timer \<Rightarrow> string" where
  "timer_format now fmt t =
     (if fmt = ''timestamps''
      then ''wall: '' @ show_double (wall_sec now t) @ '' started: '' @ show_double (start_sec t) @
           '' stopped: '' @ show_double (stop_sec t)
      else show_double (wall_sec now t))"

record time_measurement =
  enabled :: bool
  timers :: "(string \<times> timer) list"
  format :: string
  base_point :: int

definition new_time_measurement :: "bool \<Rightarrow> string \<Rightarrow> int \<Rightarrow> time_measurement" where
  "new_time_measurement en fmt now = \<lparr>enabled = en, timers = [], format = fmt, base_point = now\<rparr>"

definition tick :: "int \<Rightarrow> string \<Rightarrow> time_measurement \<Rightarrow> time_measurement result" where
  "tick now timer_name tm =
     (if enabled tm then
        (if map_of (timers tm) timer_name \<noteq> None
         then Inl (Exception (''Timer with name '' @ timer_name @ '' already exists.''))
         else Inr (tm\<lparr>timers := AList.update timer_name (new_timer now (base_point tm)) (timers tm)\<rparr>))
      else Inr tm)"

definition tock :: "int \<Rightarrow> string \<Rightarrow> time_measurement \<Rightarrow> time_measurement result" where
  "tock now timer_name tm =
     (if enabled tm then
        (case map_of (timers tm) timer_name of
           None \<Rightarrow> Inl (Exception (''Timer with name '' @ timer_name @ '' not found.''))
         | Some t \<Rightarrow> Inr (tm\<lparr>timers := AList.update timer_name (timer_stop now t) (timers tm)\<rparr>))
      else Inr tm)"

definition time_measurement_empty :: "time_measurement \<Rightarrow> bool" where
  "time_measurement_empty tm \<longleftrightarrow> timers tm = []"

text \<open>The order of an unordered map is that of the timers' creation here.\<close>

definition emit_time_measurement :: "int \<Rightarrow> time_measurement \<Rightarrow> yaml" where
  "emit_time_measurement now tm =
     fold (\<lambda>(name, t) node. set_key node name (Scalar (timer_format now (format tm) t)))
       (timers tm) Null"

definition load_time_measurement :: "yaml \<Rightarrow> time_measurement result" where
  "load_time_measurement node =
     Inl (Exception ''Class Time_measurement does not support loading from YAML.'')"

text \<open>The timers the destructor complains about.\<close>

definition running_timers :: "time_measurement \<Rightarrow> string list" where
  "running_timers tm = map fst (filter (\<lambda>(_, t). \<not> stopped t) (timers tm))"

subsection \<open>Which names exist\<close>

definition timer_names :: "time_measurement \<Rightarrow> string set" where
  "timer_names tm = dom (map_of (timers tm))"

lemma timer_names_lookup: "map_of (timers tm) n \<noteq> None \<longleftrightarrow> n \<in> timer_names tm"
  by (auto simp: timer_names_def)

lemma tick_total:
  assumes "n \<notin> timer_names tm"
  shows "\<exists>tm'. tick now n tm = Inr tm' \<and> enabled tm' = enabled tm \<and>
    timer_names tm' = (if enabled tm then insert n (timer_names tm) else timer_names tm)"
  using assms timer_names_lookup [of tm n]
  by (auto simp: tick_def timer_names_def update_conv')

lemma tock_total:
  assumes "n \<in> timer_names tm"
  shows "\<exists>tm'. tock now n tm = Inr tm' \<and> enabled tm' = enabled tm \<and>
    timer_names tm' = timer_names tm"
proof -
  from assms timer_names_lookup [of tm n] obtain t where t: "map_of (timers tm) n = Some t" by auto
  with assms show ?thesis
    by (auto simp: tock_def timer_names_def update_conv')
qed

lemma tick_names:
  "tick now n tm = Inr tm' \<Longrightarrow> timer_names tm' \<subseteq> insert n (timer_names tm)"
  by (auto simp: tick_def timer_names_def update_conv' split: if_splits)

lemma tock_names: "tock now n tm = Inr tm' \<Longrightarrow> timer_names tm' = timer_names tm"
  by (auto simp: tock_def timer_names_def update_conv' split: if_splits option.splits)

lemma tick_enabled: "tick now n tm = Inr tm' \<Longrightarrow> enabled tm' = enabled tm"
  by (auto simp: tick_def split: if_splits)

lemma tock_enabled: "tock now n tm = Inr tm' \<Longrightarrow> enabled tm' = enabled tm"
  by (auto simp: tock_def split: if_splits option.splits)

lemma timer_stop_twice [simp]: "timer_stop t (timer_stop u x) = timer_stop u x"
  by (simp add: timer_stop_def)

text \<open>
  C39: an enabled measurement accepts a tick exactly for a name it has not seen and a tock
  exactly for one it has, and a ticked and then tocked timer shows the time that passed
  between the two, whatever happens to other names in between or how often it is tocked again.
\<close>

theorem tick_tock_elapsed:
  assumes "enabled tm" and "tick t0 n tm = Inr tm1" and "tick t1 m tm1 = Inr tm2"
    and "tock t2 n tm2 = Inr tm3" and "tock t3 n tm3 = Inr tm4"
  shows "map_option (timer_elapsed t4) (map_of (timers tm4) n) = Some (t2 - t0) \<and>
    (k \<in> timer_names tm4 \<longleftrightarrow> (\<exists>e. tick t4 k tm4 = Inl (Exception e))) \<and>
    (k \<notin> timer_names tm4 \<longleftrightarrow> (\<exists>e. tock t4 k tm4 = Inl (Exception e)))"
proof -
  let ?t0 = "new_timer t0 (base_point tm)"
  from assms(1,2) have 1: "tm1 = tm\<lparr>timers := AList.update n ?t0 (timers tm)\<rparr>"
    by (auto simp: tick_def split: if_splits)
  with assms(1,3) have 2: "tm2 = tm1\<lparr>timers := AList.update m (new_timer t1 (base_point tm)) (timers tm1)\<rparr>"
    and "m \<noteq> n"
    by (auto simp: tick_def update_conv' split: if_splits)
  then have n2: "map_of (timers tm2) n = Some ?t0" using 1 by (simp add: update_conv')
  with assms(1,4) 1 2 have 3: "tm3 = tm2\<lparr>timers := AList.update n (timer_stop t2 ?t0) (timers tm2)\<rparr>"
    by (simp add: tock_def)
  then have n3: "map_of (timers tm3) n = Some (timer_stop t2 ?t0)" by (simp add: update_conv')
  have "enabled tm3" using assms(1) 1 2 3 by simp
  with assms(5) n3 have 4: "tm4 = tm3\<lparr>timers := AList.update n (timer_stop t3 (timer_stop t2 ?t0)) (timers tm3)\<rparr>"
    by (auto simp: tock_def)
  then have n4: "map_of (timers tm4) n = Some (timer_stop t2 ?t0)"
    by (simp add: update_conv')
  have "enabled tm4" using assms(1) 1 2 3 4 by simp
  with n4 timer_names_lookup [of tm4 k] show ?thesis
    by (auto simp: timer_elapsed_def timer_stop_def new_timer_def timer_start_def tick_def tock_def
        split: option.splits)
qed

theorem tick_tock_elapsed_witness:
  "map_option (timer_elapsed 9) (map_of (timers (\<lparr>enabled = True,
     timers = [(''a'', timer_stop 5 (new_timer 2 0)), (''b'', new_timer 3 0)],
     format = [], base_point = 0\<rparr>)) ''a'') = Some 3"
  using tick_tock_elapsed [of "new_time_measurement True [] 0" 2 "''a''"
      "\<lparr>enabled = True, timers = [(''a'', new_timer 2 0)], format = [], base_point = 0\<rparr>" 3 "''b''"
      "\<lparr>enabled = True, timers = [(''a'', new_timer 2 0), (''b'', new_timer 3 0)],
         format = [], base_point = 0\<rparr>" 5
      "\<lparr>enabled = True, timers = [(''a'', timer_stop 5 (new_timer 2 0)), (''b'', new_timer 3 0)],
         format = [], base_point = 0\<rparr>" 7
      "\<lparr>enabled = True, timers = [(''a'', timer_stop 5 (new_timer 2 0)), (''b'', new_timer 3 0)],
         format = [], base_point = 0\<rparr>" 9]
  by (simp add: new_time_measurement_def tick_def tock_def)

end
