(* ===== verification/Mqtt_Communicator.thy ===== *)
theory Mqtt_Communicator
  imports Prelude "HOL-Library.AList"
begin

section \<open>The MQTT communicator\<close>

text \<open>
  \<open>fast::MQTT_communicator\<close> (\<open>vendor/fast-lib/src/mqtt_communicator.cpp\<close>): a map from
  topics to subscriptions, each a queue of messages or a callback; sending; and a blocking
  receive. The broker and the mosquitto library are the environment: \<open>incoming\<close> lists the
  events that will be delivered (connects, disconnects, messages, and the moment a timed wait
  gives up), \<open>mosq_rcs\<close> the return codes of the next library calls (success once the list is
  used up), \<open>published\<close> what was handed to the library for sending. A receive that waits takes
  events from \<open>incoming\<close> until its queue is not empty; if there are none left it never returns,
  which is the error \<open>Blocked\<close>.
  A subscription's topic is turned into a regular expression; \<open>pattern_of_topic\<close> covers the
  wildcards \<open>+\<close> and \<open>#\<close>, the dot (which matches any character, since the code does not quote
  it) and ordinary characters. A topic with another operator of the expression language is
  outside the model.
  The locale \<open>mailbox\<close> states what the rest of the program relies on, with \<open>pending\<close>, the
  messages a topic will still yield, as its abstraction; the communicator is its interpretation.
\<close>

subsection \<open>Topics as regular expressions\<close>

datatype pattern = Literal char | Any_char | No_slash | Rest

definition regex_operators :: string where
  "regex_operators = ''^$*?()[]{}|'' @ [CHR 0x5C]"

definition pattern_of_char :: "char \<Rightarrow> pattern option" where
  "pattern_of_char c =
     (if c = CHR ''+'' then Some No_slash
      else if c = CHR ''#'' then Some Rest
      else if c = CHR ''.'' then Some Any_char
      else if c \<in> set regex_operators then None
      else Some (Literal c))"

definition topic_to_regex :: "string \<Rightarrow> pattern list result" where
  "topic_to_regex topic =
     (if \<exists>c \<in> set topic. pattern_of_char c = None
      then Inl (Undefined_behaviour ''regular expression outside the model'')
      else Inr (map (the \<circ> pattern_of_char) topic))"

function regex_match :: "pattern list \<Rightarrow> string \<Rightarrow> bool" where
  "regex_match [] s = (s = [])"
| "regex_match (Literal c # ps) s = (case s of [] \<Rightarrow> False | d # r \<Rightarrow> d = c \<and> regex_match ps r)"
| "regex_match (Any_char # ps) s =
     (case s of [] \<Rightarrow> False | d # r \<Rightarrow> d \<noteq> CHR 0x0A \<and> d \<noteq> CHR 0x0D \<and> regex_match ps r)"
| "regex_match (No_slash # ps) s =
     (regex_match ps s \<or>
      (case s of [] \<Rightarrow> False | d # r \<Rightarrow> d \<noteq> CHR ''/'' \<and> regex_match (No_slash # ps) r))"
| "regex_match (Rest # ps) s = regex_match ps []"
  by pat_completeness auto
termination
  by (relation "measures [\<lambda>(ps, s). length ps, \<lambda>(ps, s). length s]") auto

subsection \<open>State\<close>

text \<open>
  A message is its topic and its payload. A callback subscription holds the callback, of which
  only whether it returns normally matters, and the payloads it was called with.
\<close>

datatype subscription =
    Sub_get nat "(string \<times> string) list"
  | Sub_callback nat "string \<Rightarrow> bool" "string list"

datatype mqtt_event =
    Ev_connect int
  | Ev_disconnect int
  | Ev_message string string
  | Ev_timeout

record mqtt =
  default_subscribe_topic :: string
  default_publish_topic :: string
  connected :: bool
  subscriptions :: "(string \<times> subscription) list"
  published :: "(string \<times> string) list"
  incoming :: "mqtt_event list"
  mosq_rcs :: "int list"

definition new_communicator :: "string \<Rightarrow> mqtt_event list \<Rightarrow> int list \<Rightarrow> mqtt" where
  "new_communicator publish_topic evs rcs =
     \<lparr>default_subscribe_topic = '''', default_publish_topic = publish_topic, connected = False,
      subscriptions = [], published = [], incoming = evs, mosq_rcs = rcs\<rparr>"

text \<open>The return code of the next call into the mosquitto library.\<close>

definition next_rc :: "mqtt \<Rightarrow> int \<times> mqtt" where
  "next_rc m = (case mosq_rcs m of [] \<Rightarrow> (0, m) | r # rs \<Rightarrow> (r, m\<lparr>mosq_rcs := rs\<rparr>))"

definition mosq_call :: "string \<Rightarrow> mqtt \<Rightarrow> mqtt result" where
  "mosq_call what m =
     (case next_rc m of (rc, m') \<Rightarrow> if rc \<noteq> 0 then Inl (Exception what) else Inr m')"

fun sub_qos :: "subscription \<Rightarrow> nat" where
  "sub_qos (Sub_get q ms) = q"
| "sub_qos (Sub_callback q f log) = q"

subsection \<open>Callbacks from the mosquitto loop\<close>

text \<open>\<open>add_message\<close>: the new subscription and whether the call returned normally.\<close>

fun sub_add_message :: "string \<times> string \<Rightarrow> subscription \<Rightarrow> subscription \<times> bool" where
  "sub_add_message msg (Sub_get q ms) = (Sub_get q (ms @ [msg]), True)"
| "sub_add_message msg (Sub_callback q f log) = (Sub_callback q f (log @ [snd msg]), f (snd msg))"

text \<open>The loop over the matched subscriptions ends early when a callback throws.\<close>

fun add_to_matched ::
  "string list \<Rightarrow> string \<times> string \<Rightarrow> (string \<times> subscription) list \<Rightarrow> (string \<times> subscription) list"
where
  "add_to_matched [] msg subs = subs"
| "add_to_matched (k # ks) msg subs =
     (case map_of subs k of
        None \<Rightarrow> add_to_matched ks msg subs
      | Some sub \<Rightarrow>
          (case sub_add_message msg sub of (sub', returned) \<Rightarrow>
             if returned then add_to_matched ks msg (AList.update k sub' subs)
             else AList.update k sub' subs))"

fun matched_subscriptions :: "string list \<Rightarrow> string \<Rightarrow> string list result" where
  "matched_subscriptions [] topic = Inr []"
| "matched_subscriptions (k # ks) topic =
     rbind (topic_to_regex k) (\<lambda>re.
     rbind (matched_subscriptions ks topic) (\<lambda>rest.
     Inr (if regex_match re topic then k # rest else rest)))"

text \<open>
  \<open>on_message\<close>; that no subscription matches is an exception, but every exception is caught
  inside, so the message is dropped.
\<close>

definition on_message :: "string \<Rightarrow> string \<Rightarrow> mqtt \<Rightarrow> mqtt result" where
  "on_message topic payload m =
     rbind (matched_subscriptions (map fst (subscriptions m)) topic) (\<lambda>ks.
     Inr (m\<lparr>subscriptions := add_to_matched ks (topic, payload) (subscriptions m)\<rparr>))"

definition on_connect :: "int \<Rightarrow> mqtt \<Rightarrow> mqtt" where
  "on_connect rc m = (if rc = 0 then m\<lparr>connected := True\<rparr> else m)"

definition on_disconnect :: "int \<Rightarrow> mqtt \<Rightarrow> mqtt" where
  "on_disconnect rc m = m\<lparr>connected := False\<rparr>"

fun deliver :: "mqtt_event \<Rightarrow> mqtt \<Rightarrow> mqtt result" where
  "deliver (Ev_connect rc) m = Inr (on_connect rc m)"
| "deliver (Ev_disconnect rc) m = Inr (on_disconnect rc m)"
| "deliver (Ev_message topic payload) m = on_message topic payload m"
| "deliver Ev_timeout m = Inr m"

subsection \<open>Subscribing, sending, receiving\<close>

text \<open>\<open>emplace\<close> keeps the subscription a topic already has.\<close>

definition emplace :: "'k \<Rightarrow> 'v \<Rightarrow> ('k \<times> 'v) list \<Rightarrow> ('k \<times> 'v) list" where
  "emplace k v al = (if map_of al k = None then al @ [(k, v)] else al)"

definition add_subscription_of :: "subscription \<Rightarrow> string \<Rightarrow> mqtt \<Rightarrow> mqtt result" where
  "add_subscription_of sub topic m =
     (let m' = m\<lparr>subscriptions := emplace topic sub (subscriptions m)\<rparr>
      in if connected m' then mosq_call ''Error subscribing to topic'' m' else Inr m')"

definition add_subscription :: "string \<Rightarrow> nat \<Rightarrow> mqtt \<Rightarrow> mqtt result" where
  "add_subscription topic qos m = add_subscription_of (Sub_get qos []) topic m"

definition add_callback_subscription ::
  "string \<Rightarrow> (string \<Rightarrow> bool) \<Rightarrow> nat \<Rightarrow> mqtt \<Rightarrow> mqtt result" where
  "add_callback_subscription topic callback qos m =
     add_subscription_of (Sub_callback qos callback []) topic m"

definition remove_subscription :: "string \<Rightarrow> mqtt \<Rightarrow> mqtt result" where
  "remove_subscription topic m =
     (let m' = m\<lparr>subscriptions := AList.delete topic (subscriptions m)\<rparr>
      in if connected m' then mosq_call ''Error subscribing to topic'' m' else Inr m')"

definition send_message :: "string \<Rightarrow> string \<Rightarrow> mqtt \<Rightarrow> mqtt result" where
  "send_message message topic m =
     (if \<not> connected m then Inl (Exception ''No connection established.'')
      else let real_topic = (if topic = '''' then default_publish_topic m else topic)
           in rbind (mosq_call ''Error sending message'' m) (\<lambda>m'.
              Inr (m'\<lparr>published := published m' @ [(real_topic, message)]\<rparr>)))"

text \<open>Waiting on the queue of a subscription; \<open>timed\<close> tells whether a timeout was given.\<close>

fun await_message ::
  "string \<Rightarrow> bool \<Rightarrow> mqtt_event list \<Rightarrow> mqtt \<Rightarrow> ((string \<times> string) \<times> mqtt) result" where
  "await_message topic timed evs m =
     (case map_of (subscriptions m) topic of
        Some (Sub_get q (msg # ms)) \<Rightarrow>
          Inr (msg, m\<lparr>subscriptions := AList.update topic (Sub_get q ms) (subscriptions m),
                      incoming := evs\<rparr>)
      | _ \<Rightarrow>
          (case evs of
             [] \<Rightarrow> Inl (Blocked topic)
           | e # es \<Rightarrow>
               if timed \<and> e = Ev_timeout
               then Inl (Exception ''Timeout while waiting for message.'')
               else rbind (deliver e m) (await_message topic timed es)))"

declare await_message.simps [simp del]

definition get_message_timed :: "string \<Rightarrow> bool \<Rightarrow> mqtt \<Rightarrow> ((string \<times> string) \<times> mqtt) result"
where
  "get_message_timed topic timed m =
     (if \<not> connected m then Inl (Exception ''No connection established.'')
      else (case map_of (subscriptions m) topic of
              None \<Rightarrow> Inl (Exception ''Topic not found in subscriptions.'')
            | Some (Sub_callback q f log) \<Rightarrow>
                Inl (Exception ''Error in get_message: This topic is subscribed with callback.'')
            | Some (Sub_get q ms) \<Rightarrow> await_message topic timed (incoming m) m))"

text \<open>The overload the program uses: no timeout, the payload only.\<close>

definition get_message :: "string \<Rightarrow> mqtt \<Rightarrow> (string \<times> mqtt) result" where
  "get_message topic m =
     rbind (get_message_timed topic False m) (\<lambda>(msg, m'). Inr (snd msg, m'))"

subsection \<open>Connecting\<close>

text \<open>\<open>resubscribe\<close>: one library call for every subscription.\<close>

definition resubscribe :: "mqtt \<Rightarrow> mqtt result" where
  "resubscribe m =
     (if \<not> connected m then Inl (Exception ''No connection established.'')
      else for_each (\<lambda>_. mosq_call ''Error subscribing to topic'') (subscriptions m) m)"

text \<open>
  The retry loop of \<open>connect_to_broker\<close>: \<open>late k\<close> tells whether the deadline has passed after
  the failed attempt number \<open>k\<close>. Attempts use up return codes until one is success.
\<close>

fun connect_loop :: "(nat \<Rightarrow> bool) \<Rightarrow> nat \<Rightarrow> int list \<Rightarrow> int list result" where
  "connect_loop late k [] = Inr []"
| "connect_loop late k (rc # rcs) =
     (if rc = 0 then Inr rcs
      else if late k then Inl (Exception ''Timeout while trying to connect to MQTT broker.'')
      else connect_loop late (Suc k) rcs)"

fun await_connected :: "bool \<Rightarrow> mqtt_event list \<Rightarrow> mqtt \<Rightarrow> mqtt result" where
  "await_connected timed evs m =
     (if connected m then Inr (m\<lparr>incoming := evs\<rparr>)
      else (case evs of
              [] \<Rightarrow> Inl (Blocked ''connected'')
            | e # es \<Rightarrow>
                if timed \<and> e = Ev_timeout
                then Inl (Exception ''Timeout while trying to connect to MQTT broker.'')
                else rbind (deliver e m) (await_connected timed es)))"

declare await_connected.simps [simp del]

definition connect_to_broker :: "bool \<Rightarrow> (nat \<Rightarrow> bool) \<Rightarrow> mqtt \<Rightarrow> mqtt result" where
  "connect_to_broker timed late m =
     (if connected m then Inl (Exception ''Already connected.'')
      else rbind (connect_loop (\<lambda>k. timed \<and> late k) 0 (mosq_rcs m)) (\<lambda>rcs.
           rbind (await_connected timed (incoming m) (m\<lparr>mosq_rcs := rcs\<rparr>)) resubscribe))"

text \<open>The constructor that connects and subscribes to a default topic.\<close>

definition open_communicator ::
  "string \<Rightarrow> string \<Rightarrow> mqtt_event list \<Rightarrow> int list \<Rightarrow> mqtt result" where
  "open_communicator subscribe_topic publish_topic evs rcs =
     rbind (mosq_call ''Error starting mosquitto loop'' (new_communicator publish_topic evs rcs)) (\<lambda>m.
     rbind (connect_to_broker False (\<lambda>_. False) m) (\<lambda>m.
     add_subscription subscribe_topic 2 (m\<lparr>default_subscribe_topic := subscribe_topic\<rparr>)))"

subsection \<open>Plain topics match themselves only\<close>

definition plain_topic :: "string \<Rightarrow> bool" where
  "plain_topic t \<longleftrightarrow> (\<forall>c \<in> set t. pattern_of_char c = Some (Literal c))"

lemma topic_to_regex_plain: "plain_topic t \<Longrightarrow> topic_to_regex t = Inr (map Literal t)"
  by (auto simp: plain_topic_def topic_to_regex_def)

lemma regex_match_literals: "regex_match (map Literal t) s \<longleftrightarrow> s = t"
  by (induction t arbitrary: s) (auto split: list.splits)

lemma matched_plain:
  "\<forall>k \<in> set ks. plain_topic k \<Longrightarrow>
     matched_subscriptions ks topic = Inr (filter (\<lambda>k. k = topic) ks)"
  by (induction ks) (auto simp: topic_to_regex_plain regex_match_literals)

subsection \<open>What a topic will still yield\<close>

definition subscribed :: "mqtt \<Rightarrow> string set" where
  "subscribed m = {t. \<exists>q ms. map_of (subscriptions m) t = Some (Sub_get q ms)}"

definition queue_of :: "mqtt \<Rightarrow> string \<Rightarrow> string list" where
  "queue_of m t =
     (case map_of (subscriptions m) t of Some (Sub_get q ms) \<Rightarrow> map snd ms | _ \<Rightarrow> [])"

fun arriving :: "string \<Rightarrow> mqtt_event list \<Rightarrow> string list" where
  "arriving t [] = []"
| "arriving t (Ev_message u p # es) = (if u = t then p # arriving t es else arriving t es)"
| "arriving t (_ # es) = arriving t es"

definition pending :: "mqtt \<Rightarrow> string \<Rightarrow> string list" where
  "pending m t =
     (if t \<in> subscribed m then queue_of m t @ arriving t (incoming m) else [])"

text \<open>A communicator in service: connected, the library answers, every topic is plain.\<close>

definition in_service :: "mqtt \<Rightarrow> bool" where
  "in_service m \<longleftrightarrow> connected m \<and> mosq_rcs m = [] \<and> distinct (map fst (subscriptions m)) \<and>
     (\<forall>k \<in> set (map fst (subscriptions m)). plain_topic k)"

definition no_disconnect :: "mqtt_event list \<Rightarrow> bool" where
  "no_disconnect evs \<longleftrightarrow> (\<forall>rc. Ev_disconnect rc \<notin> set evs)"

definition ready :: "mqtt \<Rightarrow> bool" where
  "ready m \<longleftrightarrow> in_service m \<and> no_disconnect (incoming m)"

lemma filter_eq_distinct: "distinct ks \<Longrightarrow> filter (\<lambda>k. k = t) ks = (if t \<in> set ks then [t] else [])"
  by (induction ks) auto

lemma map_fst_update [simp]:
  "map_of al k = Some v \<Longrightarrow> map fst (AList.update k w al) = map fst al"
  by (induction al) (auto split: if_splits)

lemma in_service_update [simp]:
  assumes "map_of (subscriptions m) k = Some v"
  shows "in_service (m\<lparr>subscriptions := AList.update k w (subscriptions m)\<rparr>) \<longleftrightarrow> in_service m"
  using map_fst_update [OF assms, of w] by (simp add: in_service_def del: set_map)

lemma in_service_incoming [simp]: "in_service (m\<lparr>incoming := evs\<rparr>) \<longleftrightarrow> in_service m"
  by (simp add: in_service_def)

lemma on_message_cases:
  assumes "in_service m"
  shows "on_message t p m = Inr (case map_of (subscriptions m) t of
     None \<Rightarrow> m
   | Some sub \<Rightarrow>
       m\<lparr>subscriptions := AList.update t (fst (sub_add_message (t, p) sub)) (subscriptions m)\<rparr>)"
proof -
  have "matched_subscriptions (map fst (subscriptions m)) t =
      Inr (if t \<in> set (map fst (subscriptions m)) then [t] else [])"
    using assms by (subst matched_plain) (auto simp: in_service_def filter_eq_distinct)
  moreover have "t \<in> set (map fst (subscriptions m)) \<longleftrightarrow> map_of (subscriptions m) t \<noteq> None"
    by (auto simp: map_of_eq_None_iff)
  ultimately show ?thesis
    by (auto simp: on_message_def split: option.splits prod.splits)
qed

lemma deliver_in_service:
  assumes "in_service m" and "no_disconnect [e]"
  shows "\<exists>m'. deliver e m = Inr m' \<and> in_service m' \<and> subscribed m' = subscribed m \<and>
    published m' = published m \<and>
    (\<forall>t \<in> subscribed m. queue_of m' t = queue_of m t @ arriving t [e])"
proof (cases e)
  case (Ev_message t p)
  show ?thesis
  proof (cases "map_of (subscriptions m) t")
    case None
    with assms Ev_message show ?thesis
      by (auto simp: on_message_cases subscribed_def)
  next
    case (Some sub)
    with assms Ev_message show ?thesis
      by (cases sub)
        (auto simp: on_message_cases subscribed_def queue_of_def update_conv' split: if_splits)
  qed
qed (use assms in \<open>auto simp: on_connect_def in_service_def no_disconnect_def subscribed_def
    queue_of_def\<close>)

lemma arriving_append: "arriving t (xs @ ys) = arriving t xs @ arriving t ys"
proof (induction xs)
  case (Cons x xs)
  then show ?case by (cases x) auto
qed simp

lemma no_disconnect_Cons: "no_disconnect (e # es) \<longleftrightarrow> no_disconnect [e] \<and> no_disconnect es"
  by (auto simp: no_disconnect_def)

lemma pop_in_service:
  fixes evs :: "mqtt_event list"
  assumes "in_service m" and "map_of (subscriptions m) t = Some (Sub_get q (msg # ms))"
  defines "m' \<equiv> m\<lparr>subscriptions := AList.update t (Sub_get q ms) (subscriptions m), incoming := evs\<rparr>"
  shows "in_service m'" "subscribed m' = subscribed m" "published m' = published m"
    "queue_of m' t = map snd ms" "u \<noteq> t \<Longrightarrow> queue_of m' u = queue_of m u" "incoming m' = evs"
  using assms by (auto simp: subscribed_def queue_of_def update_conv')

lemma await_message_ok:
  assumes "in_service m" and "no_disconnect evs" and "t \<in> subscribed m"
    and "queue_of m t @ arriving t evs = p # ps"
  shows "\<exists>u m'. await_message t False evs m = Inr ((u, p), m') \<and> ready m' \<and>
    subscribed m' = subscribed m \<and> published m' = published m \<and>
    (\<forall>w \<in> subscribed m. queue_of m' w @ arriving w (incoming m') =
      (if w = t then ps else queue_of m w @ arriving w evs))"
  using assms
proof (induction evs arbitrary: m)
  case Nil
  then obtain q msg ms where s: "map_of (subscriptions m) t = Some (Sub_get q (msg # ms))"
    "snd msg = p" "map snd ms = ps"
    by (auto simp: subscribed_def queue_of_def)
  with Nil.prems(1) pop_in_service [OF _ s(1), where evs = "[]"] show ?case
    by (subst await_message.simps) (cases msg; auto simp: ready_def no_disconnect_def)
next
  case (Cons e es)
  from Cons.prems(3) obtain q xs where sub: "map_of (subscriptions m) t = Some (Sub_get q xs)"
    by (auto simp: subscribed_def)
  show ?case
  proof (cases xs)
    case (Cons msg ms)
    with sub have s: "map_of (subscriptions m) t = Some (Sub_get q (msg # ms))" by simp
    with Cons.prems(4) have "snd msg = p" "map snd ms @ arriving t (e # es) = ps"
      by (auto simp: queue_of_def)
    with s Cons.prems(1,2) pop_in_service [OF _ s, where evs = "e # es"] show ?thesis
      by (subst await_message.simps) (cases msg; auto simp: ready_def)
  next
    case Nil
    from Cons.prems(2) have nd: "no_disconnect [e]" "no_disconnect es"
      by (auto simp: no_disconnect_Cons [of e es])
    from deliver_in_service [OF Cons.prems(1) nd(1)] obtain m1 where
      d: "deliver e m = Inr m1" "in_service m1" "subscribed m1 = subscribed m"
        "published m1 = published m"
        "\<And>w. w \<in> subscribed m \<Longrightarrow> queue_of m1 w = queue_of m w @ arriving w [e]"
      by auto
    have split: "\<And>w. arriving w (e # es) = arriving w [e] @ arriving w es"
      using arriving_append [of _ "[e]" es] by simp
    from Cons.prems(3,4) d(5) have "queue_of m1 t @ arriving t es = p # ps"
      by (simp only: split) simp
    from Cons.IH [OF d(2) nd(2) _ this] Cons.prems(3) d(3) obtain u m' where
      r: "await_message t False es m1 = Inr ((u, p), m')" "ready m'"
        "subscribed m' = subscribed m1" "published m' = published m1"
        "\<forall>w \<in> subscribed m1. queue_of m' w @ arriving w (incoming m') =
          (if w = t then ps else queue_of m1 w @ arriving w es)"
      by auto
    have "await_message t False (e # es) m = Inr ((u, p), m')"
      using sub Nil d(1) r(1) by (subst await_message.simps) simp
    moreover have "\<forall>w \<in> subscribed m. queue_of m' w @ arriving w (incoming m') =
          (if w = t then ps else queue_of m w @ arriving w (e # es))"
      using r(5) d(3,5) by (auto simp only: split append_assoc)
    ultimately show ?thesis using r d by auto
  qed
qed

lemma await_message_blocked:
  assumes "in_service m" and "no_disconnect evs" and "t \<in> subscribed m"
    and "queue_of m t @ arriving t evs = []"
  shows "await_message t False evs m = Inl (Blocked t)"
  using assms
proof (induction evs arbitrary: m)
  case Nil
  then obtain q where "map_of (subscriptions m) t = Some (Sub_get q [])"
    by (auto simp: subscribed_def queue_of_def)
  then show ?case by (subst await_message.simps) simp
next
  case (Cons e es)
  from Cons.prems(3,4) obtain q where s: "map_of (subscriptions m) t = Some (Sub_get q [])"
    by (auto simp: subscribed_def queue_of_def)
  from Cons.prems(2) have nd: "no_disconnect [e]" "no_disconnect es"
    by (auto simp: no_disconnect_Cons [of e es])
  from Cons.prems(4) have empty: "arriving t [e] = []" "arriving t es = []" "queue_of m t = []"
    using arriving_append [of t "[e]" es] by auto
  with deliver_in_service [OF Cons.prems(1) nd(1)] Cons.prems(3) obtain m1 where
    d: "deliver e m = Inr m1" "in_service m1" "subscribed m1 = subscribed m" "queue_of m1 t = []"
    by auto
  with Cons.IH [OF d(2) nd(2)] Cons.prems(3) empty
  have "await_message t False es m1 = Inl (Blocked t)" by simp
  with s d(1) show ?case by (subst await_message.simps) simp
qed

subsection \<open>The interface the controllers use\<close>

text \<open>
  What a client of the communicator relies on. \<open>pending\<close> is the abstract state: for each
  topic the messages a receive will still return, oldest first.
\<close>

locale mailbox =
  fixes send :: "string \<Rightarrow> string \<Rightarrow> 'm \<Rightarrow> 'm result"
    and recv :: "string \<Rightarrow> 'm \<Rightarrow> (string \<times> 'm) result"
    and waiting :: "'m \<Rightarrow> string \<Rightarrow> string list"
    and sent :: "'m \<Rightarrow> (string \<times> string) list"
    and usable :: "'m \<Rightarrow> bool"
    and topics :: "'m \<Rightarrow> string set"
  assumes send_ok: "usable m \<Longrightarrow> t \<noteq> '''' \<Longrightarrow>
      \<exists>m'. send p t m = Inr m' \<and> usable m' \<and> topics m' = topics m \<and>
        sent m' = sent m @ [(t, p)] \<and> waiting m' = waiting m"
    and recv_ok: "usable m \<Longrightarrow> t \<in> topics m \<Longrightarrow> waiting m t = p # ps \<Longrightarrow>
      \<exists>m'. recv t m = Inr (p, m') \<and> usable m' \<and> topics m' = topics m \<and>
        sent m' = sent m \<and> waiting m' = (waiting m)(t := ps)"
begin

text \<open>A loop that sends one message for every element.\<close>

lemma send_each:
  assumes "usable m" and "\<And>x. x \<in> set xs \<Longrightarrow> topic x \<noteq> ''''"
  shows "\<exists>m'. for_each (\<lambda>x. send (msg x) (topic x)) xs m = Inr m' \<and> usable m' \<and>
    topics m' = topics m \<and> sent m' = sent m @ map (\<lambda>x. (topic x, msg x)) xs \<and>
    waiting m' = waiting m"
  using assms
proof (induction xs arbitrary: m)
  case Nil
  then show ?case by simp
next
  case (Cons x xs)
  from send_ok [OF Cons.prems(1), of "topic x" "msg x"] Cons.prems(2) obtain m1 where
    m1: "send (msg x) (topic x) m = Inr m1" "usable m1" "topics m1 = topics m"
      "sent m1 = sent m @ [(topic x, msg x)]" "waiting m1 = waiting m" by auto
  from Cons.IH [OF m1(2)] Cons.prems(2) obtain m2 where
    "for_each (\<lambda>x. send (msg x) (topic x)) xs m1 = Inr m2" "usable m2" "topics m2 = topics m1"
      "sent m2 = sent m1 @ map (\<lambda>x. (topic x, msg x)) xs" "waiting m2 = waiting m1" by auto
  with m1 show ?case by auto
qed

text \<open>
  A loop that receives one message for every element and does something with it. The replies
  may arrive on the topics in any order, as long as those on one topic come in the order of
  the loop.
\<close>

lemma recv_each:
  assumes "usable m" and "length ps = length xs"
    and "\<And>x. x \<in> set xs \<Longrightarrow> topic x \<in> topics m"
    and "\<And>t. t \<in> topics m \<Longrightarrow>
      waiting m t = map snd (filter (\<lambda>(x, p). topic x = t) (zip xs ps)) @ later t"
    and "\<And>x p r. (x, p) \<in> set (zip xs ps) \<Longrightarrow> use x p r = Inr (f x p r)"
  shows "\<exists>m'. for_each (\<lambda>x (r, m). rbind (recv (topic x) m) (\<lambda>(p, m').
      rbind (use x p r) (\<lambda>r'. Inr (r', m')))) xs (r, m) =
      Inr (fold (\<lambda>(x, p). f x p) (zip xs ps) r, m') \<and> usable m' \<and>
    topics m' = topics m \<and> sent m' = sent m \<and> (\<forall>t \<in> topics m. waiting m' t = later t)"
  using assms
proof (induction xs arbitrary: m ps r)
  case Nil
  then show ?case by simp
next
  case (Cons x xs)
  from Cons.prems(2) obtain p qs where ps: "ps = p # qs" by (cases ps) auto
  from Cons.prems(3,4) ps have w: "waiting m (topic x) =
      p # map snd (filter (\<lambda>(y, p). topic y = topic x) (zip xs qs)) @ later (topic x)" by simp
  from recv_ok [OF Cons.prems(1) _ w] Cons.prems(3) obtain m1 where
    m1: "recv (topic x) m = Inr (p, m1)" "usable m1" "topics m1 = topics m" "sent m1 = sent m"
      "waiting m1 = (waiting m)(topic x :=
        map snd (filter (\<lambda>(y, p). topic y = topic x) (zip xs qs)) @ later (topic x))" by auto
  have "waiting m1 t = map snd (filter (\<lambda>(x, p). topic x = t) (zip xs qs)) @ later t"
    if "t \<in> topics m1" for t
    using m1(3,5) Cons.prems(4) [of t] that ps by auto
  from Cons.IH [OF m1(2) _ _ this, of "f x p r"] Cons.prems(2,3,5) m1(3) ps obtain m2 where
    "for_each (\<lambda>x (r, m). rbind (recv (topic x) m) (\<lambda>(p, m').
        rbind (use x p r) (\<lambda>r'. Inr (r', m')))) xs (f x p r, m1) =
        Inr (fold (\<lambda>(x, p). f x p) (zip xs qs) (f x p r), m2)" "usable m2"
      "topics m2 = topics m1" "sent m2 = sent m1" "\<forall>t \<in> topics m1. waiting m2 t = later t"
    by auto
  moreover from Cons.prems(5) ps have "use x p r = Inr (f x p r)" by simp
  ultimately show ?case using m1 ps by auto
qed

end

lemma get_message_pops:
  assumes "ready m" and "t \<in> subscribed m" and "pending m t = p # ps"
  shows "\<exists>m'. get_message t m = Inr (p, m') \<and> ready m' \<and> subscribed m' = subscribed m \<and>
    published m' = published m \<and> pending m' = (pending m)(t := ps)"
proof -
  from assms await_message_ok [of m "incoming m" t p ps] obtain u m' where
    a: "await_message t False (incoming m) m = Inr ((u, p), m')" "ready m'"
      "subscribed m' = subscribed m" "published m' = published m"
      "\<forall>w \<in> subscribed m. queue_of m' w @ arriving w (incoming m') =
        (if w = t then ps else queue_of m w @ arriving w (incoming m))"
    by (auto simp: ready_def pending_def)
  from assms obtain q xs where "connected m" "map_of (subscriptions m) t = Some (Sub_get q xs)"
    by (auto simp: ready_def in_service_def subscribed_def)
  with a(1) have "get_message t m = Inr (p, m')"
    by (simp add: get_message_def get_message_timed_def)
  moreover have "pending m' = (pending m)(t := ps)"
    using a(3,5) assms(2) by (auto simp: pending_def fun_eq_iff)
  ultimately show ?thesis using a by blast
qed

lemma get_message_blocks:
  assumes "ready m" and "t \<in> subscribed m" and "pending m t = []"
  shows "get_message t m = Inl (Blocked t)"
proof -
  from assms await_message_blocked [of m "incoming m" t]
  have "await_message t False (incoming m) m = Inl (Blocked t)"
    by (auto simp: ready_def pending_def)
  moreover from assms obtain q xs where
    "connected m" "map_of (subscriptions m) t = Some (Sub_get q xs)"
    by (auto simp: ready_def in_service_def subscribed_def)
  ultimately show ?thesis by (simp add: get_message_def get_message_timed_def)
qed

lemma send_message_ok:
  assumes "ready m" and "t \<noteq> ''''"
  shows "send_message p t m = Inr (m\<lparr>published := published m @ [(t, p)]\<rparr>)"
  using assms by (simp add: send_message_def ready_def in_service_def mosq_call_def next_rc_def)

interpretation mb: mailbox send_message get_message pending published ready subscribed
proof unfold_locales
  fix m :: mqtt and t p :: string
  assume "ready m" and "t \<noteq> ''''"
  then show "\<exists>m'. send_message p t m = Inr m' \<and> ready m' \<and> subscribed m' = subscribed m \<and>
      published m' = published m @ [(t, p)] \<and> pending m' = pending m"
    by (auto simp: send_message_ok ready_def in_service_def subscribed_def pending_def
        queue_of_def fun_eq_iff)
next
  fix m :: mqtt and t p :: string and ps :: "string list"
  assume "ready m" and "t \<in> subscribed m" and "pending m t = p # ps"
  then show "\<exists>m'. get_message t m = Inr (p, m') \<and> ready m' \<and> subscribed m' = subscribed m \<and>
      published m' = published m \<and> pending m' = (pending m)(t := ps)"
    by (rule get_message_pops)
qed

subsection \<open>Properties\<close>

text \<open>
  C34: a receive on a subscribed topic of a communicator in service returns the oldest message
  that is queued or will arrive, leaves the rest of that topic and all other topics as they
  were and sends nothing; if no message will ever arrive, it does not return.
\<close>

theorem get_message_fifo:
  assumes "ready m" and "t \<in> subscribed m"
  shows "case pending m t of
      [] \<Rightarrow> get_message t m = Inl (Blocked t)
    | p # ps \<Rightarrow> \<exists>m'. get_message t m = Inr (p, m') \<and> ready m' \<and>
        subscribed m' = subscribed m \<and> published m' = published m \<and>
        pending m' = (pending m)(t := ps)"
  using get_message_pops [OF assms] get_message_blocks [OF assms]
  by (cases "pending m t") auto

definition example_communicator :: mqtt where
  "example_communicator =
     \<lparr>default_subscribe_topic = '''', default_publish_topic = '''', connected = True,
      subscriptions = [(''a'', Sub_get 0 []), (''b'', Sub_get 0 [(''b'', ''1'')])],
      published = [], incoming = [Ev_message ''b'' ''2'', Ev_message ''a'' ''3''], mosq_rcs = []\<rparr>"

lemma example_communicator_ready:
  "ready example_communicator \<and> ''a'' \<in> subscribed example_communicator \<and>
   pending example_communicator ''a'' = [''3'']"
  by (simp add: example_communicator_def ready_def in_service_def plain_topic_def
      pattern_of_char_def regex_operators_def no_disconnect_def subscribed_def pending_def
      queue_of_def)

theorem get_message_fifo_witness:
  "\<exists>m'. get_message ''a'' example_communicator = Inr (''3'', m') \<and>
     pending m' = (pending example_communicator)(''a'' := [])"
  using get_message_fifo [of example_communicator "''a''"] example_communicator_ready
  by auto

text \<open>
  C35: since the dot of a topic is not quoted, a subscription to the tasks of the host
  \<open>n1.a\<close> also takes those of the host \<open>n1-a\<close>; a topic of ordinary characters takes
  exactly its own messages, and \<open>+\<close> any text without a slash.
\<close>

theorem topic_matching:
  "rbind (topic_to_regex ''fast/migfra/n1.a/task'')
     (\<lambda>re. Inr (regex_match re ''fast/migfra/n1-a/task'')) = Inr True \<and>
   (plain_topic t \<longrightarrow> rbind (topic_to_regex t) (\<lambda>re. Inr (regex_match re s)) = Inr (s = t)) \<and>
   (plain_topic a \<longrightarrow> rbind (topic_to_regex (a @ ''+'')) (\<lambda>re. Inr (regex_match re s)) =
      Inr (\<exists>h. s = a @ h \<and> CHR ''/'' \<notin> set h))"
proof -
  have plus: "regex_match [No_slash] s \<longleftrightarrow> CHR ''/'' \<notin> set s" for s
    by (induction s) auto
  have prefix: "regex_match (map Literal a @ ps) s \<longleftrightarrow> (\<exists>h. s = a @ h \<and> regex_match ps h)"
    for a ps s
    by (induction a arbitrary: s) (auto split: list.splits)
  have "topic_to_regex (a @ ''+'') = Inr (map Literal a @ [No_slash])" if "plain_topic a"
    using that by (auto simp: plain_topic_def topic_to_regex_def pattern_of_char_def)
  with plus prefix have "plain_topic a \<longrightarrow>
      rbind (topic_to_regex (a @ ''+'')) (\<lambda>re. Inr (regex_match re s)) =
      Inr (\<exists>h. s = a @ h \<and> CHR ''/'' \<notin> set h)" by simp
  then show ?thesis
    by (simp add: topic_to_regex_plain regex_match_literals)
      (simp add: topic_to_regex_def pattern_of_char_def regex_operators_def)
qed

theorem topic_matching_witness:
  "rbind (topic_to_regex (''fast/agent/'' @ ''+'')) (\<lambda>re. Inr (regex_match re ''fast/agent/n1''))
     = Inr True \<and> plain_topic ''fast/agent/''"
proof -
  have p: "plain_topic ''fast/agent/''"
    by (simp add: plain_topic_def pattern_of_char_def regex_operators_def)
  have "\<exists>h. ''fast/agent/n1'' = ''fast/agent/'' @ h \<and> CHR ''/'' \<notin> set h"
    by (intro exI [of _ "''n1''"]) simp
  with p topic_matching [of "''''" "''fast/agent/n1''" "''fast/agent/''"] show ?thesis by simp
qed

end
