(* ===== verification/Migfra_Task.thy ===== *)
theory Migfra_Task
  imports Yaml_Node Time_Measurement
begin

section \<open>Tasks for the migration framework\<close>

text \<open>
  The messages the controllers send to the hosts: \<open>fast::msg::migfra::Task\<close> and its
  subclasses, \<open>Task_container\<close>, \<open>PCI_id\<close> and \<open>Device_ivshmem\<close>
  (\<open>vendor/fast-lib/src/message/migfra/\<close>), with their YAML form. A subclass is a record that
  extends \<open>Task\<close>; a \<open>shared_ptr<Task>\<close> is a value of \<open>any_task\<close>, whose constructor the
  dynamic casts look at. \<open>load\<close> works on an object that exists already, so every \<open>load_\<close>
  function takes the object it fills in.
  The lemmas show that a container that was written is read back, and where it is not: tasks of
  a single kind, and the \<open>concurrent-execution\<close> flag that a migrate, repin or quit container
  shares with its only task.
\<close>

subsection \<open>PCI identifiers\<close>

record PCI_id =
  vendor :: nat
  device :: nat

definition hex_char :: "nat \<Rightarrow> char" where
  "hex_char d = ''0123456789abcdef'' ! d"

fun show_hex :: "nat \<Rightarrow> string" where
  "show_hex n = (if n < 16 then [hex_char n] else show_hex (n div 16) @ [hex_char (n mod 16)])"

declare show_hex.simps [simp del]

definition to_hex_string :: "nat \<Rightarrow> nat \<Rightarrow> bool \<Rightarrow> string" where
  "to_hex_string n digits show_base =
     (if show_base then ''0x'' else '''') @
     (let s = show_hex n in replicate (digits - length s) (CHR ''0'') @ s)"

definition vendor_hex :: "PCI_id \<Rightarrow> string" where
  "vendor_hex p = to_hex_string (vendor p) 4 True"

definition device_hex :: "PCI_id \<Rightarrow> string" where
  "device_hex p = to_hex_string (device p) 4 True"

definition pci_str :: "PCI_id \<Rightarrow> string" where
  "pci_str p = to_hex_string (vendor p) 4 False @ '':'' @ to_hex_string (device p) 4 False"

definition emit_pci_id :: "PCI_id \<Rightarrow> yaml" where
  "emit_pci_id p =
     set_key (set_key Null ''vendor'' (Scalar (vendor_hex p))) ''device'' (Scalar (device_hex p))"

text \<open>The conversion to \<open>unsigned short\<close> keeps the low sixteen bits.\<close>

definition load_pci_id :: "PCI_id \<Rightarrow> yaml \<Rightarrow> PCI_id result" where
  "load_pci_id p node =
     rbind (load_key decode_string node ''vendor'') (\<lambda>v.
     rbind (stoul 0 v) (\<lambda>v.
     rbind (load_key decode_string node ''device'') (\<lambda>d.
     rbind (stoul 0 d) (\<lambda>d.
     Inr (p\<lparr>vendor := v mod 65536, device := d mod 65536\<rparr>)))))"

definition new_pci_id :: PCI_id where
  "new_pci_id = \<lparr>vendor = 0, device = 0\<rparr>"

subsection \<open>Optional fields of a message\<close>

text \<open>\<open>x.load(node)\<close> for an \<open>Optional\<close> member, given its selector and its update.\<close>

definition load_field ::
  "'a decoder \<Rightarrow> ('r \<Rightarrow> 'a optional) \<Rightarrow> (('a optional \<Rightarrow> 'a optional) \<Rightarrow> 'r \<Rightarrow> 'r) \<Rightarrow> yaml \<Rightarrow>
     'r \<Rightarrow> 'r result" where
  "load_field dec get upd node r =
     rbind (optional_load dec (get r) node) (\<lambda>opt. Inr (upd (\<lambda>_. opt) r))"

abbreviation "encode_string \<equiv> Scalar"
abbreviation "encode_cpu_map \<equiv> encode_seq (encode_seq encode_nat)"
abbreviation "decode_cpu_map \<equiv> decode_seq (decode_seq decode_unsigned)"

definition cpu_map_ok :: "nat list list \<Rightarrow> bool" where
  "cpu_map_ok m \<longleftrightarrow> (\<forall>cs \<in> set m. \<forall>c \<in> set cs. c < 2 ^ 32)"

lemma as_cpu_map [decode_simps]: "cpu_map_ok m \<Longrightarrow> as decode_cpu_map (encode_cpu_map m) = Inr m"
  by (intro as_seq ballI as_uint) (auto simp: cpu_map_ok_def)

text \<open>What it means that an optional field can be read back.\<close>

definition field_ok :: "string \<Rightarrow> ('a \<Rightarrow> bool) \<Rightarrow> 'a optional \<Rightarrow> bool" where
  "field_ok t ok opt \<longleftrightarrow> tag opt = t \<and> (\<forall>v. ptr opt = Some v \<longrightarrow> ok v)"

lemma load_field_written:
  assumes "get r = no_value t" and "t \<noteq> ''''" and "field_ok t ok opt"
    and "is_mapping n" and "node_get n t = map_option enc (ptr opt)"
    and "\<And>v. ok v \<Longrightarrow> as dec (enc v) = Inr v"
  shows "load_field dec get upd n r = Inr (upd (\<lambda>_. opt) r)"
proof -
  from assms(2-6) have "optional_load dec (no_value (tag opt)) n = Inr opt"
    by (intro optional_load_written [where enc = enc]) (auto simp: field_ok_def)
  with assms(1,3) show ?thesis by (simp add: load_field_def field_ok_def)
qed

subsection \<open>The base class\<close>

record Task =
  task_concurrent_execution :: "bool optional"
  task_time_measurement :: "bool optional"
  task_driver :: "string optional"

definition emit_task :: "'z Task_scheme \<Rightarrow> yaml" where
  "emit_task t =
     merge_node (merge_node (merge_node Null
       (optional_emit encode_bool (task_concurrent_execution t)))
       (optional_emit encode_bool (task_time_measurement t)))
       (optional_emit encode_string (task_driver t))"

definition load_task :: "'z Task_scheme \<Rightarrow> yaml \<Rightarrow> 'z Task_scheme result" where
  "load_task t node =
     rbind (load_field decode_bool task_concurrent_execution task_concurrent_execution_update node t) (\<lambda>t.
     rbind (load_field decode_bool task_time_measurement task_time_measurement_update node t)
       (load_field decode_string task_driver task_driver_update node))"

definition task_ok :: "'z Task_scheme \<Rightarrow> bool" where
  "task_ok t \<longleftrightarrow>
     field_ok ''concurrent-execution'' (\<lambda>_. True) (task_concurrent_execution t) \<and>
     field_ok ''time-measurement'' (\<lambda>_. True) (task_time_measurement t) \<and>
     field_ok ''driver'' (\<lambda>_. True) (task_driver t)"

text \<open>The two constructors; the second one gives the flags.\<close>

definition new_task :: Task where
  "new_task =
     \<lparr>task_concurrent_execution = no_value ''concurrent-execution'',
      task_time_measurement = no_value ''time-measurement'',
      task_driver = no_value ''driver''\<rparr>"

definition task_with :: "bool \<Rightarrow> bool \<Rightarrow> Task" where
  "task_with conc meas =
     \<lparr>task_concurrent_execution = with_value ''concurrent-execution'' conc,
      task_time_measurement = with_value ''time-measurement'' meas,
      task_driver = no_value ''driver''\<rparr>"

text \<open>The keys the base class writes.\<close>

definition task_keys :: "'z Task_scheme \<Rightarrow> string \<Rightarrow> yaml option" where
  "task_keys t = (\<lambda>_. None)
     (''concurrent-execution'' := map_option encode_bool (ptr (task_concurrent_execution t)),
      ''time-measurement'' := map_option encode_bool (ptr (task_time_measurement t)),
      ''driver'' := map_option encode_string (ptr (task_driver t)))"

lemma is_mapping_emit_task [yaml_simps]: "is_mapping (emit_task t)"
  by (simp add: emit_task_def yaml_simps)

lemma node_get_emit_task [keys_simps]:
  assumes "task_ok t"
  shows "node_get (emit_task t) = task_keys t"
proof -
  from assms have "tag (task_concurrent_execution t) = ''concurrent-execution''"
    "tag (task_time_measurement t) = ''time-measurement''" "tag (task_driver t) = ''driver''"
    by (auto simp: task_ok_def field_ok_def)
  then show ?thesis by (simp add: emit_task_def task_keys_def keys_simps)
qed

lemma load_task_written:
  assumes "task_ok t" and "is_mapping n"
    and "node_get n ''concurrent-execution'' = task_keys t ''concurrent-execution''"
    and "node_get n ''time-measurement'' = task_keys t ''time-measurement''"
    and "node_get n ''driver'' = task_keys t ''driver''"
    and "task_concurrent_execution r = no_value ''concurrent-execution''"
    and "task_time_measurement r = no_value ''time-measurement''"
    and "task_driver r = no_value ''driver''"
  shows "load_task r n = Inr (r\<lparr>task_concurrent_execution := task_concurrent_execution t,
    task_time_measurement := task_time_measurement t, task_driver := task_driver t\<rparr>)"
proof -
  have "load_field decode_bool task_concurrent_execution task_concurrent_execution_update n r =
      Inr (r\<lparr>task_concurrent_execution := task_concurrent_execution t\<rparr>)"
    using assms by (intro load_field_written [where enc = encode_bool])
      (auto simp: task_ok_def task_keys_def decode_simps)
  moreover have "load_field decode_bool task_time_measurement task_time_measurement_update n
      (r\<lparr>task_concurrent_execution := task_concurrent_execution t\<rparr>) =
      Inr (r\<lparr>task_concurrent_execution := task_concurrent_execution t,
        task_time_measurement := task_time_measurement t\<rparr>)"
    using assms by (intro load_field_written [where enc = encode_bool])
      (auto simp: task_ok_def task_keys_def decode_simps)
  moreover have "load_field decode_string task_driver task_driver_update n
      (r\<lparr>task_concurrent_execution := task_concurrent_execution t,
        task_time_measurement := task_time_measurement t\<rparr>) =
      Inr (r\<lparr>task_concurrent_execution := task_concurrent_execution t,
        task_time_measurement := task_time_measurement t, task_driver := task_driver t\<rparr>)"
    using assms by (intro load_field_written [where enc = encode_string])
      (auto simp: task_ok_def task_keys_def decode_simps)
  ultimately show ?thesis by (simp add: load_task_def)
qed

subsection \<open>PCI identifiers are read back\<close>

lemma hex_cases:
  assumes "(d::nat) < 16"
  obtains "d < 10" | "d = 10" | "d = 11" | "d = 12" | "d = 13" | "d = 14" | "d = 15"
  using assms by linarith

lemma hex_char_digit: "d < 10 \<Longrightarrow> hex_char d = digit_char d"
  by (erule digit_cases) (simp_all add: hex_char_def digit_char_def)

lemma digit_value_hex [simp]: "d < 16 \<Longrightarrow> digit_value (hex_char d) = Some d"
  by (erule hex_cases) (simp_all add: hex_char_digit, simp_all add: digit_value_def hex_char_def)

lemma show_hex_digits: "\<forall>c \<in> set (show_hex n). \<exists>d < 16. digit_value c = Some d"
proof (induction n rule: show_hex.induct)
  case (1 n)
  then show ?case by (subst show_hex.simps) auto
qed

lemma read_show_hex: "read_digits 16 0 (show_hex n) = (n, [])"
proof (induction n rule: show_hex.induct)
  case (1 n)
  show ?case
  proof (cases "n < 16")
    case True
    then show ?thesis by (subst show_hex.simps) simp
  next
    case False
    with 1 have IH: "read_digits 16 0 (show_hex (n div 16)) = (n div 16, [])" by simp
    have "read_digits 16 0 (show_hex (n div 16) @ [hex_char (n mod 16)]) = (n, [])"
      by (subst read_digits_append) (simp_all add: show_hex_digits IH)
    with False show ?thesis by (subst show_hex.simps) simp
  qed
qed

lemma read_zeros: "read_digits 16 0 (replicate k (CHR ''0'') @ s) = read_digits 16 0 s"
  by (induction k) (simp_all add: digit_value_def)

lemma starts_digit_show_hex: "starts_digit 16 (replicate k (CHR ''0'') @ show_hex n)"
proof (cases k)
  case 0
  have "show_hex n \<noteq> []" by (subst show_hex.simps) simp
  then obtain c cs where "show_hex n = c # cs" by (cases "show_hex n") auto
  with 0 show_hex_digits [of n] show ?thesis by (auto simp: starts_digit_def)
qed (simp add: starts_digit_def digit_value_def)

lemma stoul_hex: "n \<le> size_max \<Longrightarrow> stoul 0 (to_hex_string n k True) = Inr n"
  by (simp add: stoul_def to_hex_string_def is_space_def strip_sign_def strip_base_def
      starts_digit_show_hex Let_def read_zeros read_show_hex)

definition pci_id_ok :: "PCI_id \<Rightarrow> bool" where
  "pci_id_ok p \<longleftrightarrow> vendor p < 65536 \<and> device p < 65536"

lemma load_emit_pci_id:
  assumes "pci_id_ok p"
  shows "load_pci_id r (emit_pci_id p) = Inr (p :: PCI_id)"
proof -
  from assms have "stoul 0 (vendor_hex p) = Inr (vendor p)" "stoul 0 (device_hex p) = Inr (device p)"
    by (simp_all add: vendor_hex_def device_hex_def stoul_hex pci_id_ok_def size_max_def)
  with assms show ?thesis
    by (simp add: load_pci_id_def emit_pci_id_def load_key_def load_def yaml_simps decode_simps
        pci_id_ok_def)
qed

subsection \<open>Shared memory devices\<close>

record Device_ivshmem =
  ivshmem_id :: string
  ivshmem_size :: string
  ivshmem_path :: "string optional"

definition new_ivshmem :: Device_ivshmem where
  "new_ivshmem = \<lparr>ivshmem_id = '''', ivshmem_size = ''0'', ivshmem_path = no_value ''path''\<rparr>"

definition emit_ivshmem :: "Device_ivshmem \<Rightarrow> yaml" where
  "emit_ivshmem d =
     merge_node (set_key (set_key Null
       ''id'' (Scalar (ivshmem_id d)))
       ''size'' (Scalar (ivshmem_size d)))
       (optional_emit encode_string (ivshmem_path d))"

definition load_ivshmem :: "Device_ivshmem \<Rightarrow> yaml \<Rightarrow> Device_ivshmem result" where
  "load_ivshmem d node =
     rbind (load_key decode_string node ''id'') (\<lambda>i.
     rbind (load_key decode_string node ''size'') (\<lambda>s.
     load_field decode_string ivshmem_path ivshmem_path_update node
       (d\<lparr>ivshmem_id := i, ivshmem_size := s\<rparr>)))"

definition ivshmem_ok :: "Device_ivshmem \<Rightarrow> bool" where
  "ivshmem_ok d \<longleftrightarrow> field_ok ''path'' (\<lambda>_. True) (ivshmem_path d)"

lemma load_emit_ivshmem:
  assumes "ivshmem_ok d"
  shows "load_ivshmem new_ivshmem (emit_ivshmem d) = Inr d"
proof -
  have "load_field decode_string ivshmem_path ivshmem_path_update (emit_ivshmem d)
      (new_ivshmem\<lparr>ivshmem_id := ivshmem_id d, ivshmem_size := ivshmem_size d\<rparr>) = Inr d"
    using assms
    by (subst load_field_written [where enc = encode_string and t = "''path''" and opt = "ivshmem_path d"])
      (auto simp: ivshmem_ok_def field_ok_def new_ivshmem_def emit_ivshmem_def yaml_simps decode_simps)
  moreover have "load_key decode_string (emit_ivshmem d) ''id'' = Inr (ivshmem_id d)"
    "load_key decode_string (emit_ivshmem d) ''size'' = Inr (ivshmem_size d)"
    by (auto simp: emit_ivshmem_def load_key_def load_def yaml_simps decode_simps)
  ultimately show ?thesis by (simp add: load_ivshmem_def)
qed

subsection \<open>Start\<close>

record Start = Task +
  start_vm_name :: "string optional"
  start_vcpus :: "nat optional"
  start_memory :: "nat optional"
  start_memnode_map :: "nat list list optional"
  start_pci_ids :: "PCI_id list"
  start_xml :: "string optional"
  start_ivshmem :: "Device_ivshmem optional"
  start_transient :: "bool optional"
  start_vcpu_map :: "nat list list optional"

text \<open>The part of a start task that its constructors leave without a value.\<close>

definition extend_start :: "Task \<Rightarrow> Start" where
  "extend_start t = Task.extend t
     \<lparr>start_vm_name = no_value ''vm-name'', start_vcpus = no_value ''vcpus'',
      start_memory = no_value ''memory'', start_memnode_map = no_value ''memnode-map'',
      start_pci_ids = [], start_xml = no_value ''xml'', start_ivshmem = no_value ''ivshmem'',
      start_transient = no_value ''transient'', start_vcpu_map = no_value ''vcpu-map''\<rparr>"

definition new_start :: Start where
  "new_start = extend_start new_task"

definition start_vm :: "string \<Rightarrow> nat \<Rightarrow> nat \<Rightarrow> PCI_id list \<Rightarrow> bool \<Rightarrow> Start" where
  "start_vm name vcpus mem pcis conc =
     (extend_start (task_with conc False))
       \<lparr>start_vm_name := with_value ''vm-name'' name, start_vcpus := with_value ''vcpus'' vcpus,
        start_memory := with_value ''memory'' mem, start_pci_ids := pcis\<rparr>"

definition start_from_xml :: "string \<Rightarrow> PCI_id list \<Rightarrow> bool \<Rightarrow> Start" where
  "start_from_xml xml pcis conc =
     (extend_start (task_with conc False))
       \<lparr>start_xml := with_value ''xml'' xml, start_pci_ids := pcis\<rparr>"

definition emit_start :: "Start \<Rightarrow> yaml" where
  "emit_start s =
     (let node = emit_task s;
          node = merge_node node (optional_emit encode_string (start_vm_name s));
          node = merge_node node (optional_emit encode_nat (start_vcpus s));
          node = merge_node node (optional_emit encode_nat (start_memory s));
          node = merge_node node (optional_emit encode_cpu_map (start_memnode_map s));
          node = merge_node node (optional_emit encode_string (start_xml s));
          node = merge_node node (optional_emit emit_ivshmem (start_ivshmem s));
          node = merge_node node (optional_emit encode_bool (start_transient s));
          node = (if start_pci_ids s \<noteq> []
                  then set_key node ''pci-ids'' (encode_seq emit_pci_id (start_pci_ids s)) else node)
      in merge_node node (optional_emit encode_cpu_map (start_vcpu_map s)))"

definition load_start :: "Start \<Rightarrow> yaml \<Rightarrow> Start result" where
  "load_start s node =
     rbind (load_task s node) (\<lambda>s.
     rbind (load_field decode_string start_vm_name start_vm_name_update node s) (\<lambda>s.
     rbind (load_field decode_unsigned start_vcpus start_vcpus_update node s) (\<lambda>s.
     rbind (load_field decode_size_t start_memory start_memory_update node s) (\<lambda>s.
     rbind (load_field decode_cpu_map start_memnode_map start_memnode_map_update node s) (\<lambda>s.
     rbind (load_key_or (decode_seq (decode_object (load_pci_id new_pci_id))) [] node ''pci-ids'') (\<lambda>pcis.
     rbind (load_field decode_string start_xml start_xml_update node (s\<lparr>start_pci_ids := pcis\<rparr>)) (\<lambda>s.
     rbind (load_field (decode_object (load_ivshmem new_ivshmem)) start_ivshmem start_ivshmem_update
              node s) (\<lambda>s.
     rbind (load_field decode_bool start_transient start_transient_update node s) (\<lambda>s.
     load_field decode_cpu_map start_vcpu_map start_vcpu_map_update node s)))))))))"

definition start_ok :: "Start \<Rightarrow> bool" where
  "start_ok s \<longleftrightarrow> task_ok s \<and>
     field_ok ''vm-name'' (\<lambda>_. True) (start_vm_name s) \<and>
     field_ok ''vcpus'' (\<lambda>n. n < 2 ^ 32) (start_vcpus s) \<and>
     field_ok ''memory'' (\<lambda>n. n < 2 ^ 64) (start_memory s) \<and>
     field_ok ''memnode-map'' cpu_map_ok (start_memnode_map s) \<and>
     (\<forall>p \<in> set (start_pci_ids s). pci_id_ok p) \<and>
     field_ok ''xml'' (\<lambda>_. True) (start_xml s) \<and>
     field_ok ''ivshmem'' ivshmem_ok (start_ivshmem s) \<and>
     field_ok ''transient'' (\<lambda>_. True) (start_transient s) \<and>
     field_ok ''vcpu-map'' cpu_map_ok (start_vcpu_map s)"

definition start_keys :: "Start \<Rightarrow> string \<Rightarrow> yaml option" where
  "start_keys s = (task_keys s)
     (''vm-name'' := map_option encode_string (ptr (start_vm_name s)),
      ''vcpus'' := map_option encode_nat (ptr (start_vcpus s)),
      ''memory'' := map_option encode_nat (ptr (start_memory s)),
      ''memnode-map'' := map_option encode_cpu_map (ptr (start_memnode_map s)),
      ''xml'' := map_option encode_string (ptr (start_xml s)),
      ''ivshmem'' := map_option emit_ivshmem (ptr (start_ivshmem s)),
      ''transient'' := map_option encode_bool (ptr (start_transient s)),
      ''pci-ids'' :=
        (if start_pci_ids s = [] then None else Some (encode_seq emit_pci_id (start_pci_ids s))),
      ''vcpu-map'' := map_option encode_cpu_map (ptr (start_vcpu_map s)))"

lemma new_start_fields [simp]:
  "task_concurrent_execution new_start = no_value ''concurrent-execution''"
  "task_time_measurement new_start = no_value ''time-measurement''"
  "task_driver new_start = no_value ''driver''"
  "start_vm_name new_start = no_value ''vm-name''" "start_vcpus new_start = no_value ''vcpus''"
  "start_memory new_start = no_value ''memory''"
  "start_memnode_map new_start = no_value ''memnode-map''" "start_pci_ids new_start = []"
  "start_xml new_start = no_value ''xml''" "start_ivshmem new_start = no_value ''ivshmem''"
  "start_transient new_start = no_value ''transient''"
  "start_vcpu_map new_start = no_value ''vcpu-map''"
  by (simp_all add: new_start_def extend_start_def new_task_def Task.defs)

lemma is_mapping_emit_start [yaml_simps]: "is_mapping (emit_start s)"
  by (simp add: emit_start_def Let_def yaml_simps)

lemma node_get_emit_start [keys_simps]:
  assumes "start_ok s"
  shows "node_get (emit_start s) = start_keys s"
proof -
  from assms have ok: "task_ok s" and tags: "tag (start_vm_name s) = ''vm-name''"
    "tag (start_vcpus s) = ''vcpus''" "tag (start_memory s) = ''memory''"
    "tag (start_memnode_map s) = ''memnode-map''" "tag (start_xml s) = ''xml''"
    "tag (start_ivshmem s) = ''ivshmem''" "tag (start_transient s) = ''transient''"
    "tag (start_vcpu_map s) = ''vcpu-map''"
    by (auto simp: start_ok_def field_ok_def)
  let ?n = "merge_node (merge_node (merge_node (merge_node (emit_task s)
      (optional_emit encode_string (start_vm_name s)))
      (optional_emit encode_nat (start_vcpus s)))
      (optional_emit encode_nat (start_memory s)))
      (optional_emit encode_cpu_map (start_memnode_map s))"
  have half: "node_get ?n = (task_keys s)
     (''vm-name'' := map_option encode_string (ptr (start_vm_name s)),
      ''vcpus'' := map_option encode_nat (ptr (start_vcpus s)),
      ''memory'' := map_option encode_nat (ptr (start_memory s)),
      ''memnode-map'' := map_option encode_cpu_map (ptr (start_memnode_map s)))"
    by (simp add: keys_simps ok tags task_keys_def)
  let ?m = "merge_node (merge_node (merge_node ?n
      (optional_emit encode_string (start_xml s)))
      (optional_emit emit_ivshmem (start_ivshmem s)))
      (optional_emit encode_bool (start_transient s))"
  have most: "node_get ?m = (node_get ?n)
     (''xml'' := map_option encode_string (ptr (start_xml s)),
      ''ivshmem'' := map_option emit_ivshmem (ptr (start_ivshmem s)),
      ''transient'' := map_option encode_bool (ptr (start_transient s)))"
    by (simp add: keys_merge_fresh half tags task_keys_def)
  have "node_get ?m ''pci-ids'' = None" by (simp only: most half) (simp add: task_keys_def)
  then have pcis: "node_get (if start_pci_ids s \<noteq> []
        then set_key ?m ''pci-ids'' (encode_seq emit_pci_id (start_pci_ids s)) else ?m) =
      (node_get ?m)(''pci-ids'' :=
        (if start_pci_ids s = [] then None else Some (encode_seq emit_pci_id (start_pci_ids s))))"
    (is "node_get ?p = _")
    by (cases "start_pci_ids s = []") (simp_all add: keys_set_key fun_upd_idem)
  have "node_get ?p (tag (start_vcpu_map s)) = None"
    by (simp only: pcis most half tags) (simp add: task_keys_def)
  from keys_merge_fresh [OF this, of encode_cpu_map] show ?thesis
    by (simp only: emit_start_def Let_def pcis most half tags start_keys_def)
qed

lemma load_emit_start:
  assumes "start_ok s"
  shows "load_start new_start (emit_start s) = Inr s"
proof -
  let ?n = "emit_start s"
  note ok = assms [unfolded start_ok_def]
  have pcis: "load_key_or (decode_seq (decode_object (load_pci_id new_pci_id))) [] ?n ''pci-ids'' =
      Inr (start_pci_ids s)"
  proof (cases "start_pci_ids s = []")
    case True
    with assms show ?thesis
      by (simp add: load_key_or_def load_or_def node_index_mapping is_mapping_emit_start
          node_get_emit_start start_keys_def)
  next
    case False
    have "as (decode_seq (decode_object (load_pci_id new_pci_id)))
        (encode_seq emit_pci_id (start_pci_ids s)) = Inr (start_pci_ids s)"
      using ok by (intro as_seq ballI as_object load_emit_pci_id) auto
    with assms False show ?thesis
      by (auto simp: load_key_or_def load_or_def node_index_mapping is_mapping_emit_start
          node_get_emit_start start_keys_def as_or_def as_def
          split: option.splits)
  qed
  have base: "load_task new_start ?n = Inr (new_start\<lparr>
      task_concurrent_execution := task_concurrent_execution s,
      task_time_measurement := task_time_measurement s, task_driver := task_driver s\<rparr>)"
    using assms ok by (intro load_task_written)
      (auto simp: is_mapping_emit_start node_get_emit_start start_keys_def new_start_def extend_start_def new_task_def Task.defs)
  note keys = node_get_emit_start [OF assms]
  have uint: "\<And>v. v < 2 ^ 32 \<Longrightarrow> as decode_unsigned (encode_nat v) = Inr v"
    "\<And>v. v < 2 ^ 64 \<Longrightarrow> as decode_size_t (encode_nat v) = Inr v"
    by (simp_all only: as_uint)
  have shm: "\<And>d. ivshmem_ok d \<Longrightarrow>
      as (decode_object (load_ivshmem new_ivshmem)) (emit_ivshmem d) = Inr d"
    by (intro as_object load_emit_ivshmem)
  from ok have oks:
    "field_ok ''vm-name'' (\<lambda>_. True) (start_vm_name s)"
    "field_ok ''vcpus'' (\<lambda>n. n < 2 ^ 32) (start_vcpus s)"
    "field_ok ''memory'' (\<lambda>n. n < 2 ^ 64) (start_memory s)"
    "field_ok ''memnode-map'' (cpu_map_ok) (start_memnode_map s)"
    "field_ok ''xml'' (\<lambda>_. True) (start_xml s)"
    "field_ok ''ivshmem'' (ivshmem_ok) (start_ivshmem s)"
    "field_ok ''transient'' (\<lambda>_. True) (start_transient s)"
    "field_ok ''vcpu-map'' (cpu_map_ok) (start_vcpu_map s)"
    by simp_all
  have fields:
    "start_vm_name r = no_value ''vm-name'' \<Longrightarrow>
      load_field decode_string start_vm_name start_vm_name_update ?n r =
        Inr (r\<lparr>start_vm_name := start_vm_name s\<rparr>)"
    "start_vcpus r = no_value ''vcpus'' \<Longrightarrow>
      load_field decode_unsigned start_vcpus start_vcpus_update ?n r =
        Inr (r\<lparr>start_vcpus := start_vcpus s\<rparr>)"
    "start_memory r = no_value ''memory'' \<Longrightarrow>
      load_field decode_size_t start_memory start_memory_update ?n r =
        Inr (r\<lparr>start_memory := start_memory s\<rparr>)"
    "start_memnode_map r = no_value ''memnode-map'' \<Longrightarrow>
      load_field decode_cpu_map start_memnode_map start_memnode_map_update ?n r =
        Inr (r\<lparr>start_memnode_map := start_memnode_map s\<rparr>)"
    "start_xml r = no_value ''xml'' \<Longrightarrow>
      load_field decode_string start_xml start_xml_update ?n r =
        Inr (r\<lparr>start_xml := start_xml s\<rparr>)"
    "start_ivshmem r = no_value ''ivshmem'' \<Longrightarrow>
      load_field (decode_object (load_ivshmem new_ivshmem)) start_ivshmem start_ivshmem_update ?n r =
        Inr (r\<lparr>start_ivshmem := start_ivshmem s\<rparr>)"
    "start_transient r = no_value ''transient'' \<Longrightarrow>
      load_field decode_bool start_transient start_transient_update ?n r =
        Inr (r\<lparr>start_transient := start_transient s\<rparr>)"
    "start_vcpu_map r = no_value ''vcpu-map'' \<Longrightarrow>
      load_field decode_cpu_map start_vcpu_map start_vcpu_map_update ?n r =
        Inr (r\<lparr>start_vcpu_map := start_vcpu_map s\<rparr>)"
    for r :: Start
    subgoal by (rule load_field_written [OF _ _ oks(1) _ _ as_string])
      (simp_all add: keys yaml_simps start_keys_def task_keys_def)
    subgoal by (rule load_field_written [OF _ _ oks(2) _ _ uint(1)])
      (simp_all add: keys yaml_simps start_keys_def task_keys_def)
    subgoal by (rule load_field_written [OF _ _ oks(3) _ _ uint(2)])
      (simp_all add: keys yaml_simps start_keys_def task_keys_def)
    subgoal by (rule load_field_written [OF _ _ oks(4) _ _ as_cpu_map])
      (simp_all add: keys yaml_simps start_keys_def task_keys_def)
    subgoal by (rule load_field_written [OF _ _ oks(5) _ _ as_string])
      (simp_all add: keys yaml_simps start_keys_def task_keys_def)
    subgoal by (rule load_field_written [OF _ _ oks(6) _ _ shm])
      (simp_all add: keys yaml_simps start_keys_def task_keys_def)
    subgoal by (rule load_field_written [OF _ _ oks(7) _ _ as_bool])
      (simp_all add: keys yaml_simps start_keys_def task_keys_def)
    subgoal by (rule load_field_written [OF _ _ oks(8) _ _ as_cpu_map])
      (simp_all add: keys yaml_simps start_keys_def task_keys_def)
    done
  have "load_start new_start ?n = Inr (new_start\<lparr>
      task_concurrent_execution := task_concurrent_execution s,
      task_time_measurement := task_time_measurement s, task_driver := task_driver s,
      start_vm_name := start_vm_name s, start_vcpus := start_vcpus s,
      start_memory := start_memory s, start_memnode_map := start_memnode_map s,
      start_pci_ids := start_pci_ids s, start_xml := start_xml s,
      start_ivshmem := start_ivshmem s, start_transient := start_transient s,
      start_vcpu_map := start_vcpu_map s\<rparr>)"
    by (simp add: load_start_def base pcis fields)
  then show ?thesis by (cases s) (simp add: new_start_def extend_start_def new_task_def Task.defs)
qed



subsection \<open>Stop\<close>

record Stop = Task +
  stop_vm_name :: "string optional"
  stop_regex :: "string optional"
  stop_force :: "bool optional"
  stop_undefine :: "bool optional"

definition extend_stop :: "Task \<Rightarrow> Stop" where
  "extend_stop t = Task.extend t
     \<lparr>stop_vm_name = no_value ''vm-name'', stop_regex = no_value ''regex'',
      stop_force = no_value ''force'', stop_undefine = no_value ''undefine''\<rparr>"

definition new_stop :: Stop where
  "new_stop = extend_stop new_task"

definition stop_vm :: "string \<Rightarrow> bool \<Rightarrow> bool \<Rightarrow> bool \<Rightarrow> Stop" where
  "stop_vm name force undef conc =
     (extend_stop (task_with conc False))
       \<lparr>stop_vm_name := with_value ''vm-name'' name, stop_force := with_value ''force'' force,
        stop_undefine := with_value ''undefine'' undef\<rparr>"

definition emit_stop :: "Stop \<Rightarrow> yaml" where
  "emit_stop s =
     (let node = emit_task s;
          node = merge_node node (optional_emit encode_string (stop_vm_name s));
          node = merge_node node (optional_emit encode_string (stop_regex s));
          node = merge_node node (optional_emit encode_bool (stop_force s))
      in merge_node node (optional_emit encode_bool (stop_undefine s)))"

definition load_stop :: "Stop \<Rightarrow> yaml \<Rightarrow> Stop result" where
  "load_stop s node =
     rbind (load_task s node) (\<lambda>s.
     rbind (load_field decode_string stop_vm_name stop_vm_name_update node s) (\<lambda>s.
     rbind (load_field decode_string stop_regex stop_regex_update node s) (\<lambda>s.
     rbind (load_field decode_bool stop_force stop_force_update node s) (\<lambda>s.
     load_field decode_bool stop_undefine stop_undefine_update node s))))"

definition stop_ok :: "Stop \<Rightarrow> bool" where
  "stop_ok s \<longleftrightarrow> task_ok s \<and>
     field_ok ''vm-name'' (\<lambda>_. True) (stop_vm_name s) \<and>
     field_ok ''regex'' (\<lambda>_. True) (stop_regex s) \<and>
     field_ok ''force'' (\<lambda>_. True) (stop_force s) \<and>
     field_ok ''undefine'' (\<lambda>_. True) (stop_undefine s)"

definition stop_keys :: "Stop \<Rightarrow> string \<Rightarrow> yaml option" where
  "stop_keys s = (task_keys s)
     (''vm-name'' := map_option encode_string (ptr (stop_vm_name s)),
      ''regex'' := map_option encode_string (ptr (stop_regex s)),
      ''force'' := map_option encode_bool (ptr (stop_force s)),
      ''undefine'' := map_option encode_bool (ptr (stop_undefine s)))"

lemma new_stop_fields [simp]:
  "task_concurrent_execution new_stop = no_value ''concurrent-execution''"
  "task_time_measurement new_stop = no_value ''time-measurement''"
  "task_driver new_stop = no_value ''driver''"
  "stop_vm_name new_stop = no_value ''vm-name''" "stop_regex new_stop = no_value ''regex''"
  "stop_force new_stop = no_value ''force''" "stop_undefine new_stop = no_value ''undefine''"
  by (simp_all add: new_stop_def extend_stop_def new_task_def Task.defs)

lemma is_mapping_emit_stop [yaml_simps]: "is_mapping (emit_stop s)"
  by (simp add: emit_stop_def Let_def yaml_simps)

lemma node_get_emit_stop [keys_simps]:
  assumes "stop_ok s"
  shows "node_get (emit_stop s) = stop_keys s"
proof -
  from assms have "task_ok s" "tag (stop_vm_name s) = ''vm-name''"
    "tag (stop_regex s) = ''regex''" "tag (stop_force s) = ''force''"
    "tag (stop_undefine s) = ''undefine''"
    by (auto simp: stop_ok_def field_ok_def)
  then show ?thesis
    by (simp add: emit_stop_def Let_def stop_keys_def task_keys_def keys_simps)
qed

lemma load_emit_stop:
  assumes "stop_ok s"
  shows "load_stop new_stop (emit_stop s) = Inr s"
proof -
  let ?n = "emit_stop s"
  note keys = node_get_emit_stop [OF assms]
  from assms have oks: "field_ok ''vm-name'' (\<lambda>_. True) (stop_vm_name s)"
    "field_ok ''regex'' (\<lambda>_. True) (stop_regex s)"
    "field_ok ''force'' (\<lambda>_. True) (stop_force s)"
    "field_ok ''undefine'' (\<lambda>_. True) (stop_undefine s)"
    by (simp_all add: stop_ok_def)
  have base: "load_task new_stop ?n = Inr (new_stop\<lparr>
      task_concurrent_execution := task_concurrent_execution s,
      task_time_measurement := task_time_measurement s, task_driver := task_driver s\<rparr>)"
    using assms by (intro load_task_written)
      (auto simp: yaml_simps keys stop_keys_def stop_ok_def)
  have fields:
    "stop_vm_name r = no_value ''vm-name'' \<Longrightarrow>
      load_field decode_string stop_vm_name stop_vm_name_update ?n r =
        Inr (r\<lparr>stop_vm_name := stop_vm_name s\<rparr>)"
    "stop_regex r = no_value ''regex'' \<Longrightarrow>
      load_field decode_string stop_regex stop_regex_update ?n r =
        Inr (r\<lparr>stop_regex := stop_regex s\<rparr>)"
    "stop_force r = no_value ''force'' \<Longrightarrow>
      load_field decode_bool stop_force stop_force_update ?n r =
        Inr (r\<lparr>stop_force := stop_force s\<rparr>)"
    "stop_undefine r = no_value ''undefine'' \<Longrightarrow>
      load_field decode_bool stop_undefine stop_undefine_update ?n r =
        Inr (r\<lparr>stop_undefine := stop_undefine s\<rparr>)"
    for r :: Stop
    subgoal by (rule load_field_written [OF _ _ oks(1) _ _ as_string])
      (simp_all add: keys yaml_simps stop_keys_def task_keys_def)
    subgoal by (rule load_field_written [OF _ _ oks(2) _ _ as_string])
      (simp_all add: keys yaml_simps stop_keys_def task_keys_def)
    subgoal by (rule load_field_written [OF _ _ oks(3) _ _ as_bool])
      (simp_all add: keys yaml_simps stop_keys_def task_keys_def)
    subgoal by (rule load_field_written [OF _ _ oks(4) _ _ as_bool])
      (simp_all add: keys yaml_simps stop_keys_def task_keys_def)
    done
  show ?thesis
    by (simp add: load_stop_def base fields)
qed

subsection \<open>Migrate\<close>

record Swap_with =
  swap_vm_name :: string
  swap_pscom_hook_procs :: "string optional"
  swap_vcpu_map :: "nat list list optional"

definition new_swap_with :: Swap_with where
  "new_swap_with =
     \<lparr>swap_vm_name = '''', swap_pscom_hook_procs = no_value ''pscom-hook-procs'',
      swap_vcpu_map = no_value ''vcpu-map''\<rparr>"

definition emit_swap_with :: "Swap_with \<Rightarrow> yaml" where
  "emit_swap_with s =
     merge_node (merge_node (set_key Null ''vm-name'' (Scalar (swap_vm_name s)))
       (optional_emit encode_string (swap_pscom_hook_procs s)))
       (optional_emit encode_cpu_map (swap_vcpu_map s))"

definition load_swap_with :: "Swap_with \<Rightarrow> yaml \<Rightarrow> Swap_with result" where
  "load_swap_with s node =
     rbind (load_key decode_string node ''vm-name'') (\<lambda>name.
     rbind (load_field decode_string swap_pscom_hook_procs swap_pscom_hook_procs_update node
              (s\<lparr>swap_vm_name := name\<rparr>))
       (load_field decode_cpu_map swap_vcpu_map swap_vcpu_map_update node))"

definition swap_ok :: "Swap_with \<Rightarrow> bool" where
  "swap_ok s \<longleftrightarrow>
     field_ok ''pscom-hook-procs'' (\<lambda>_. True) (swap_pscom_hook_procs s) \<and>
     field_ok ''vcpu-map'' cpu_map_ok (swap_vcpu_map s)"

lemma load_emit_swap_with:
  assumes "swap_ok s"
  shows "load_swap_with new_swap_with (emit_swap_with s) = Inr s"
proof -
  let ?n = "emit_swap_with s"
  from assms have oks: "field_ok ''pscom-hook-procs'' (\<lambda>_. True) (swap_pscom_hook_procs s)"
    "field_ok ''vcpu-map'' cpu_map_ok (swap_vcpu_map s)"
    by (simp_all add: swap_ok_def)
  then have keys: "node_get ?n = (\<lambda>_. None)(''vm-name'' := Some (Scalar (swap_vm_name s)),
      ''pscom-hook-procs'' := map_option encode_string (ptr (swap_pscom_hook_procs s)),
      ''vcpu-map'' := map_option encode_cpu_map (ptr (swap_vcpu_map s)))"
    by (simp add: emit_swap_with_def keys_simps field_ok_def)
  have mapping: "is_mapping ?n" by (simp add: emit_swap_with_def yaml_simps)
  then have name: "load_key decode_string ?n ''vm-name'' = Inr (swap_vm_name s)"
    by (simp add: load_key_def load_def node_index_mapping keys decode_simps)
  have fields:
    "swap_pscom_hook_procs r = no_value ''pscom-hook-procs'' \<Longrightarrow>
      load_field decode_string swap_pscom_hook_procs swap_pscom_hook_procs_update ?n r =
        Inr (r\<lparr>swap_pscom_hook_procs := swap_pscom_hook_procs s\<rparr>)"
    "swap_vcpu_map r = no_value ''vcpu-map'' \<Longrightarrow>
      load_field decode_cpu_map swap_vcpu_map swap_vcpu_map_update ?n r =
        Inr (r\<lparr>swap_vcpu_map := swap_vcpu_map s\<rparr>)"
    for r :: Swap_with
    subgoal by (rule load_field_written [OF _ _ oks(1) _ _ as_string])
      (simp_all add: keys mapping)
    subgoal by (rule load_field_written [OF _ _ oks(2) _ _ as_cpu_map])
      (simp_all add: keys mapping)
    done
  show ?thesis
    by (simp add: load_swap_with_def name fields new_swap_with_def)
qed

record Migrate = Task +
  migrate_vm_name :: string
  migrate_dest_hostname :: string
  migrate_migration_type :: "string optional"
  migrate_rdma_migration :: "bool optional"
  migrate_pscom_hook_procs :: "string optional"
  migrate_transport :: "string optional"
  migrate_swap_with :: "Swap_with optional"
  migrate_vcpu_map :: "nat list list optional"

definition extend_migrate :: "Task \<Rightarrow> Migrate" where
  "extend_migrate t = Task.extend t
     \<lparr>migrate_vm_name = '''', migrate_dest_hostname = '''',
      migrate_migration_type = no_value ''migration-type'',
      migrate_rdma_migration = no_value ''rdma-migration'',
      migrate_pscom_hook_procs = no_value ''pscom-hook-procs'',
      migrate_transport = no_value ''transport'', migrate_swap_with = no_value ''swap-with'',
      migrate_vcpu_map = no_value ''vcpu-map''\<rparr>"

definition new_migrate :: Migrate where
  "new_migrate = extend_migrate new_task"

text \<open>The two constructors: the hook count as text, or as a number.\<close>

definition migrate_vm ::
  "string \<Rightarrow> string \<Rightarrow> string \<Rightarrow> bool \<Rightarrow> bool \<Rightarrow> string \<Rightarrow> bool \<Rightarrow> Migrate" where
  "migrate_vm name dest mtype rdma conc procs meas =
     (extend_migrate (task_with conc meas))
       \<lparr>migrate_vm_name := name, migrate_dest_hostname := dest,
        migrate_migration_type := with_value ''migration-type'' mtype,
        migrate_rdma_migration := with_value ''rdma-migration'' rdma,
        migrate_pscom_hook_procs := with_value ''pscom-hook-procs'' procs\<rparr>"

definition migrate_vm_procs ::
  "string \<Rightarrow> string \<Rightarrow> string \<Rightarrow> bool \<Rightarrow> bool \<Rightarrow> nat \<Rightarrow> bool \<Rightarrow> Migrate" where
  "migrate_vm_procs name dest mtype rdma conc procs meas =
     migrate_vm name dest mtype rdma conc (show_nat procs) meas"

definition emit_migrate_params :: "Migrate \<Rightarrow> yaml" where
  "emit_migrate_params s =
     (let params = merge_node Null (optional_emit encode_string (migrate_migration_type s));
          params = merge_node params (optional_emit encode_bool (migrate_rdma_migration s));
          params = merge_node params (optional_emit encode_string (migrate_pscom_hook_procs s));
          params = merge_node params (optional_emit encode_string (migrate_transport s));
          params = merge_node params (optional_emit emit_swap_with (migrate_swap_with s))
      in merge_node params (optional_emit encode_cpu_map (migrate_vcpu_map s)))"

text \<open>The node under \<open>parameter\<close> comes into being with its first entry.\<close>

definition emit_migrate :: "Migrate \<Rightarrow> yaml" where
  "emit_migrate s =
     (let node = set_key (emit_task s) ''vm-name'' (Scalar (migrate_vm_name s));
          node = set_key node ''destination'' (Scalar (migrate_dest_hostname s));
          params = emit_migrate_params s
      in if params = Null then node else set_key node ''parameter'' params)"

definition load_migrate_params :: "Migrate \<Rightarrow> yaml \<Rightarrow> Migrate result" where
  "load_migrate_params s node =
     rbind (load_field decode_string migrate_migration_type migrate_migration_type_update node s) (\<lambda>s.
     rbind (load_field decode_bool migrate_rdma_migration migrate_rdma_migration_update node s) (\<lambda>s.
     rbind (load_field decode_string migrate_pscom_hook_procs migrate_pscom_hook_procs_update node s) (\<lambda>s.
     rbind (load_field decode_string migrate_transport migrate_transport_update node s) (\<lambda>s.
     rbind (load_field (decode_object (load_swap_with new_swap_with)) migrate_swap_with
              migrate_swap_with_update node s) (\<lambda>s.
     load_field decode_cpu_map migrate_vcpu_map migrate_vcpu_map_update node s)))))"

definition load_migrate :: "Migrate \<Rightarrow> yaml \<Rightarrow> Migrate result" where
  "load_migrate s node =
     rbind (load_task s node) (\<lambda>s.
     rbind (load_key decode_string node ''vm-name'') (\<lambda>name.
     rbind (load_key decode_string node ''destination'') (\<lambda>dest.
     rbind (node_index node ''parameter'') (\<lambda>r.
     let s = s\<lparr>migrate_vm_name := name, migrate_dest_hostname := dest\<rparr>
     in case r of None \<Rightarrow> Inr s | Some params \<Rightarrow> load_migrate_params s params))))"

definition migrate_params_ok :: "Migrate \<Rightarrow> bool" where
  "migrate_params_ok s \<longleftrightarrow>
     field_ok ''migration-type'' (\<lambda>_. True) (migrate_migration_type s) \<and>
     field_ok ''rdma-migration'' (\<lambda>_. True) (migrate_rdma_migration s) \<and>
     field_ok ''pscom-hook-procs'' (\<lambda>_. True) (migrate_pscom_hook_procs s) \<and>
     field_ok ''transport'' (\<lambda>_. True) (migrate_transport s) \<and>
     field_ok ''swap-with'' swap_ok (migrate_swap_with s) \<and>
     field_ok ''vcpu-map'' cpu_map_ok (migrate_vcpu_map s)"

definition migrate_ok :: "Migrate \<Rightarrow> bool" where
  "migrate_ok s \<longleftrightarrow> task_ok s \<and> migrate_params_ok s"

definition migrate_params_keys :: "Migrate \<Rightarrow> string \<Rightarrow> yaml option" where
  "migrate_params_keys s = (\<lambda>_. None)
     (''migration-type'' := map_option encode_string (ptr (migrate_migration_type s)),
      ''rdma-migration'' := map_option encode_bool (ptr (migrate_rdma_migration s)),
      ''pscom-hook-procs'' := map_option encode_string (ptr (migrate_pscom_hook_procs s)),
      ''transport'' := map_option encode_string (ptr (migrate_transport s)),
      ''swap-with'' := map_option emit_swap_with (ptr (migrate_swap_with s)),
      ''vcpu-map'' := map_option encode_cpu_map (ptr (migrate_vcpu_map s)))"

definition migrate_keys :: "Migrate \<Rightarrow> string \<Rightarrow> yaml option" where
  "migrate_keys s = (task_keys s)
     (''vm-name'' := Some (Scalar (migrate_vm_name s)),
      ''destination'' := Some (Scalar (migrate_dest_hostname s)),
      ''parameter'' :=
        (if emit_migrate_params s = Null then None else Some (emit_migrate_params s)))"

lemma new_migrate_fields [simp]:
  "task_concurrent_execution new_migrate = no_value ''concurrent-execution''"
  "task_time_measurement new_migrate = no_value ''time-measurement''"
  "task_driver new_migrate = no_value ''driver''"
  "migrate_migration_type new_migrate = no_value ''migration-type''"
  "migrate_rdma_migration new_migrate = no_value ''rdma-migration''"
  "migrate_pscom_hook_procs new_migrate = no_value ''pscom-hook-procs''"
  "migrate_transport new_migrate = no_value ''transport''"
  "migrate_swap_with new_migrate = no_value ''swap-with''"
  "migrate_vcpu_map new_migrate = no_value ''vcpu-map''"
  by (simp_all add: new_migrate_def extend_migrate_def new_task_def Task.defs)

lemma is_mapping_migrate_params: "is_mapping (emit_migrate_params s)"
  by (simp add: emit_migrate_params_def Let_def yaml_simps)

lemma is_mapping_emit_migrate [yaml_simps]: "is_mapping (emit_migrate s)"
  by (simp add: emit_migrate_def Let_def yaml_simps)

lemma node_get_migrate_params:
  assumes "migrate_params_ok s"
  shows "node_get (emit_migrate_params s) = migrate_params_keys s"
proof -
  from assms have "tag (migrate_migration_type s) = ''migration-type''"
    "tag (migrate_rdma_migration s) = ''rdma-migration''"
    "tag (migrate_pscom_hook_procs s) = ''pscom-hook-procs''"
    "tag (migrate_transport s) = ''transport''" "tag (migrate_swap_with s) = ''swap-with''"
    "tag (migrate_vcpu_map s) = ''vcpu-map''"
    by (auto simp: migrate_params_ok_def field_ok_def)
  then show ?thesis
    by (simp add: emit_migrate_params_def Let_def migrate_params_keys_def keys_simps)
qed

lemma node_get_emit_migrate [keys_simps]:
  assumes "migrate_ok s"
  shows "node_get (emit_migrate s) = migrate_keys s"
  using assms
  by (auto simp: emit_migrate_def Let_def migrate_keys_def task_keys_def migrate_ok_def keys_simps
      fun_upd_idem)

lemma load_migrate_params_written:
  assumes "migrate_params_ok s"
    and "migrate_migration_type r = no_value ''migration-type''"
    and "migrate_rdma_migration r = no_value ''rdma-migration''"
    and "migrate_pscom_hook_procs r = no_value ''pscom-hook-procs''"
    and "migrate_transport r = no_value ''transport''"
    and "migrate_swap_with r = no_value ''swap-with''"
    and "migrate_vcpu_map r = no_value ''vcpu-map''"
  shows "load_migrate_params r (emit_migrate_params s) =
    Inr (r\<lparr>migrate_migration_type := migrate_migration_type s,
      migrate_rdma_migration := migrate_rdma_migration s,
      migrate_pscom_hook_procs := migrate_pscom_hook_procs s,
      migrate_transport := migrate_transport s, migrate_swap_with := migrate_swap_with s,
      migrate_vcpu_map := migrate_vcpu_map s\<rparr>)"
proof -
  let ?n = "emit_migrate_params s"
  note keys = node_get_migrate_params [OF assms(1)]
  have swap: "\<And>w. swap_ok w \<Longrightarrow>
      as (decode_object (load_swap_with new_swap_with)) (emit_swap_with w) = Inr w"
    by (intro as_object load_emit_swap_with)
  from assms(1) have oks: "field_ok ''migration-type'' (\<lambda>_. True) (migrate_migration_type s)"
    "field_ok ''rdma-migration'' (\<lambda>_. True) (migrate_rdma_migration s)"
    "field_ok ''pscom-hook-procs'' (\<lambda>_. True) (migrate_pscom_hook_procs s)"
    "field_ok ''transport'' (\<lambda>_. True) (migrate_transport s)"
    "field_ok ''swap-with'' swap_ok (migrate_swap_with s)"
    "field_ok ''vcpu-map'' cpu_map_ok (migrate_vcpu_map s)"
    by (simp_all add: migrate_params_ok_def)
  have fields:
    "migrate_migration_type r = no_value ''migration-type'' \<Longrightarrow>
      load_field decode_string migrate_migration_type migrate_migration_type_update ?n r =
        Inr (r\<lparr>migrate_migration_type := migrate_migration_type s\<rparr>)"
    "migrate_rdma_migration r = no_value ''rdma-migration'' \<Longrightarrow>
      load_field decode_bool migrate_rdma_migration migrate_rdma_migration_update ?n r =
        Inr (r\<lparr>migrate_rdma_migration := migrate_rdma_migration s\<rparr>)"
    "migrate_pscom_hook_procs r = no_value ''pscom-hook-procs'' \<Longrightarrow>
      load_field decode_string migrate_pscom_hook_procs migrate_pscom_hook_procs_update ?n r =
        Inr (r\<lparr>migrate_pscom_hook_procs := migrate_pscom_hook_procs s\<rparr>)"
    "migrate_transport r = no_value ''transport'' \<Longrightarrow>
      load_field decode_string migrate_transport migrate_transport_update ?n r =
        Inr (r\<lparr>migrate_transport := migrate_transport s\<rparr>)"
    "migrate_swap_with r = no_value ''swap-with'' \<Longrightarrow>
      load_field (decode_object (load_swap_with new_swap_with)) migrate_swap_with migrate_swap_with_update ?n r =
        Inr (r\<lparr>migrate_swap_with := migrate_swap_with s\<rparr>)"
    "migrate_vcpu_map r = no_value ''vcpu-map'' \<Longrightarrow>
      load_field decode_cpu_map migrate_vcpu_map migrate_vcpu_map_update ?n r =
        Inr (r\<lparr>migrate_vcpu_map := migrate_vcpu_map s\<rparr>)"
    for r :: Migrate
    subgoal by (rule load_field_written [OF _ _ oks(1) _ _ as_string])
      (simp_all add: keys is_mapping_migrate_params migrate_params_keys_def)
    subgoal by (rule load_field_written [OF _ _ oks(2) _ _ as_bool])
      (simp_all add: keys is_mapping_migrate_params migrate_params_keys_def)
    subgoal by (rule load_field_written [OF _ _ oks(3) _ _ as_string])
      (simp_all add: keys is_mapping_migrate_params migrate_params_keys_def)
    subgoal by (rule load_field_written [OF _ _ oks(4) _ _ as_string])
      (simp_all add: keys is_mapping_migrate_params migrate_params_keys_def)
    subgoal by (rule load_field_written [OF _ _ oks(5) _ _ swap])
      (simp_all add: keys is_mapping_migrate_params migrate_params_keys_def)
    subgoal by (rule load_field_written [OF _ _ oks(6) _ _ as_cpu_map])
      (simp_all add: keys is_mapping_migrate_params migrate_params_keys_def)
    done
  show ?thesis using assms by (simp add: load_migrate_params_def fields)
qed

lemma migrate_params_Null:
  assumes "migrate_params_ok s" and "emit_migrate_params s = Null"
  shows "migrate_migration_type s = no_value ''migration-type''"
    "migrate_rdma_migration s = no_value ''rdma-migration''"
    "migrate_pscom_hook_procs s = no_value ''pscom-hook-procs''"
    "migrate_transport s = no_value ''transport''"
    "migrate_swap_with s = no_value ''swap-with''"
    "migrate_vcpu_map s = no_value ''vcpu-map''"
proof -
  have none: "migrate_params_keys s k = None" for k
    using node_get_migrate_params [OF assms(1)] assms(2) by (simp add: keys_simps fun_eq_iff)
  have "opt = no_value t" if "field_ok t p opt" "map_option enc (ptr opt) = None"
    for opt :: "'a optional" and t p and enc :: "'a \<Rightarrow> yaml"
    using that by (cases opt) (auto simp: no_value_def field_ok_def)
  note empty = this
  note oks = assms(1) [unfolded migrate_params_ok_def]
  show "migrate_migration_type s = no_value ''migration-type''"
    using oks none [of "''migration-type''"] by (intro empty) (auto simp: migrate_params_keys_def)
  show "migrate_rdma_migration s = no_value ''rdma-migration''"
    using oks none [of "''rdma-migration''"] by (intro empty) (auto simp: migrate_params_keys_def)
  show "migrate_pscom_hook_procs s = no_value ''pscom-hook-procs''"
    using oks none [of "''pscom-hook-procs''"] by (intro empty) (auto simp: migrate_params_keys_def)
  show "migrate_transport s = no_value ''transport''"
    using oks none [of "''transport''"] by (intro empty) (auto simp: migrate_params_keys_def)
  show "migrate_swap_with s = no_value ''swap-with''"
    using oks none [of "''swap-with''"] by (intro empty) (auto simp: migrate_params_keys_def)
  show "migrate_vcpu_map s = no_value ''vcpu-map''"
    using oks none [of "''vcpu-map''"] by (intro empty) (auto simp: migrate_params_keys_def)
qed

text \<open>
  A migrate task is read back from any node that agrees with what it wrote except that the
  container may have added a flag of its own.
\<close>

lemma load_migrate_written:
  assumes "migrate_ok s" and "is_mapping n"
    and "\<And>k. k \<in> {''concurrent-execution'', ''time-measurement'', ''driver'', ''vm-name'',
        ''destination'', ''parameter''} \<Longrightarrow> node_get n k = migrate_keys s k"
  shows "load_migrate new_migrate n = Inr s"
proof -
  have keys: "node_get n ''concurrent-execution'' = task_keys s ''concurrent-execution''"
    "node_get n ''time-measurement'' = task_keys s ''time-measurement''"
    "node_get n ''driver'' = task_keys s ''driver''"
    "node_get n ''vm-name'' = Some (Scalar (migrate_vm_name s))"
    "node_get n ''destination'' = Some (Scalar (migrate_dest_hostname s))"
    "node_get n ''parameter'' =
      (if emit_migrate_params s = Null then None else Some (emit_migrate_params s))"
    by (simp_all add: assms(3) migrate_keys_def)
  have base: "load_task new_migrate n = Inr (new_migrate\<lparr>
      task_concurrent_execution := task_concurrent_execution s,
      task_time_measurement := task_time_measurement s, task_driver := task_driver s\<rparr>)"
    by (rule load_task_written)
      (use assms(1,2) keys in \<open>simp_all add: migrate_ok_def\<close>)
  have name: "load_key decode_string n ''vm-name'' = Inr (migrate_vm_name s)"
    and dest: "load_key decode_string n ''destination'' = Inr (migrate_dest_hostname s)"
    by (simp_all add: load_key_def load_def node_index_mapping assms(2) keys decode_simps)
  have param: "node_index n ''parameter'' =
      Inr (if emit_migrate_params s = Null then None else Some (emit_migrate_params s))"
    by (simp add: node_index_mapping assms(2) keys)
  from assms have ok: "migrate_params_ok s" by (simp add: migrate_ok_def)
  show ?thesis
  proof (cases "emit_migrate_params s = Null")
    case True
    then show ?thesis
      by (simp add: load_migrate_def base name dest param)
        (use migrate_params_Null [OF ok True] in \<open>cases s; simp add: new_migrate_def
          extend_migrate_def new_task_def Task.defs\<close>)
  next
    case False
    then show ?thesis
      by (simp add: load_migrate_def base name dest param load_migrate_params_written [OF ok])
  qed
qed

subsection \<open>Repin, suspend, resume, quit\<close>

record Repin = Task +
  repin_vm_name :: string
  repin_vcpu_map :: "nat list list"

definition new_repin :: Repin where
  "new_repin = Task.extend new_task \<lparr>repin_vm_name = '''', repin_vcpu_map = []\<rparr>"

definition repin_vm :: "string \<Rightarrow> nat list list \<Rightarrow> bool \<Rightarrow> Repin" where
  "repin_vm name m conc =
     Task.extend (task_with conc False) \<lparr>repin_vm_name = name, repin_vcpu_map = m\<rparr>"

definition emit_repin :: "Repin \<Rightarrow> yaml" where
  "emit_repin s =
     set_key (set_key (emit_task s)
       ''vm-name'' (Scalar (repin_vm_name s)))
       ''vcpu-map'' (encode_cpu_map (repin_vcpu_map s))"

definition load_repin :: "Repin \<Rightarrow> yaml \<Rightarrow> Repin result" where
  "load_repin s node =
     rbind (load_task s node) (\<lambda>s.
     rbind (load_key decode_string node ''vm-name'') (\<lambda>name.
     rbind (load_key decode_cpu_map node ''vcpu-map'') (\<lambda>m.
     Inr (s\<lparr>repin_vm_name := name, repin_vcpu_map := m\<rparr>))))"

text \<open>Suspend and resume tasks have the same members.\<close>

record Suspend = Task +
  suspend_vm_name :: string

record Resume = Task +
  resume_vm_name :: string

definition suspend_vm :: "string \<Rightarrow> bool \<Rightarrow> Suspend" where
  "suspend_vm name conc = Task.extend (task_with conc False) \<lparr>suspend_vm_name = name\<rparr>"

definition resume_vm :: "string \<Rightarrow> bool \<Rightarrow> Resume" where
  "resume_vm name conc = Task.extend (task_with conc False) \<lparr>resume_vm_name = name\<rparr>"

definition new_suspend :: Suspend where
  "new_suspend = Task.extend new_task \<lparr>suspend_vm_name = ''''\<rparr>"

definition new_resume :: Resume where
  "new_resume = Task.extend new_task \<lparr>resume_vm_name = ''''\<rparr>"

definition emit_suspend :: "Suspend \<Rightarrow> yaml" where
  "emit_suspend s = set_key (emit_task s) ''vm-name'' (Scalar (suspend_vm_name s))"

definition emit_resume :: "Resume \<Rightarrow> yaml" where
  "emit_resume s = set_key (emit_task s) ''vm-name'' (Scalar (resume_vm_name s))"

definition load_suspend :: "Suspend \<Rightarrow> yaml \<Rightarrow> Suspend result" where
  "load_suspend s node =
     rbind (load_task s node) (\<lambda>s.
     rbind (load_key decode_string node ''vm-name'') (\<lambda>name.
     Inr (s\<lparr>suspend_vm_name := name\<rparr>)))"

definition load_resume :: "Resume \<Rightarrow> yaml \<Rightarrow> Resume result" where
  "load_resume s node =
     rbind (load_task s node) (\<lambda>s.
     rbind (load_key decode_string node ''vm-name'') (\<lambda>name.
     Inr (s\<lparr>resume_vm_name := name\<rparr>)))"

text \<open>\<open>Quit\<close> adds nothing to \<open>Task\<close>.\<close>

type_synonym Quit = Task

lemma base_written:
  assumes "task_ok s" and "is_mapping n"
    and "\<And>k. k \<in> {''concurrent-execution'', ''time-measurement'', ''driver''} \<Longrightarrow>
      node_get n k = task_keys s k"
    and "task_concurrent_execution r = no_value ''concurrent-execution''"
    and "task_time_measurement r = no_value ''time-measurement''"
    and "task_driver r = no_value ''driver''"
  shows "load_task r n = Inr (r\<lparr>task_concurrent_execution := task_concurrent_execution s,
    task_time_measurement := task_time_measurement s, task_driver := task_driver s\<rparr>)"
  by (rule load_task_written) (simp_all add: assms)

lemma load_repin_written:
  assumes "task_ok s" and "cpu_map_ok (repin_vcpu_map s)" and "is_mapping n"
    and "\<And>k. k \<in> {''concurrent-execution'', ''time-measurement'', ''driver''} \<Longrightarrow>
      node_get n k = task_keys s k"
    and "node_get n ''vm-name'' = Some (Scalar (repin_vm_name s))"
    and "node_get n ''vcpu-map'' = Some (encode_cpu_map (repin_vcpu_map s))"
  shows "load_repin new_repin n = Inr s"
proof -
  have "load_task new_repin n = Inr (new_repin\<lparr>
      task_concurrent_execution := task_concurrent_execution s,
      task_time_measurement := task_time_measurement s, task_driver := task_driver s\<rparr>)"
    by (rule base_written) (simp_all add: assms new_repin_def new_task_def Task.defs)
  moreover have "load_key decode_string n ''vm-name'' = Inr (repin_vm_name s)"
    "load_key decode_cpu_map n ''vcpu-map'' = Inr (repin_vcpu_map s)"
    by (simp_all add: load_key_def load_def node_index_mapping assms decode_simps)
  ultimately show ?thesis by (simp add: load_repin_def)
qed

lemma load_emit_suspend:
  assumes "task_ok s"
  shows "load_suspend new_suspend (emit_suspend s) = Inr s"
proof -
  have keys: "node_get (emit_suspend s) = (task_keys s)(''vm-name'' := Some (Scalar (suspend_vm_name s)))"
    "is_mapping (emit_suspend s)"
    using assms by (simp_all add: emit_suspend_def keys_simps yaml_simps)
  have "load_task new_suspend (emit_suspend s) = Inr (new_suspend\<lparr>
      task_concurrent_execution := task_concurrent_execution s,
      task_time_measurement := task_time_measurement s, task_driver := task_driver s\<rparr>)"
    by (rule base_written [OF assms])
      (auto simp: keys new_suspend_def new_task_def Task.defs)
  moreover have "load_key decode_string (emit_suspend s) ''vm-name'' = Inr (suspend_vm_name s)"
    by (simp add: load_key_def load_def node_index_mapping keys decode_simps)
  ultimately show ?thesis by (simp add: load_suspend_def)
qed

lemma load_emit_resume:
  assumes "task_ok s"
  shows "load_resume new_resume (emit_resume s) = Inr s"
proof -
  have keys: "node_get (emit_resume s) = (task_keys s)(''vm-name'' := Some (Scalar (resume_vm_name s)))"
    "is_mapping (emit_resume s)"
    using assms by (simp_all add: emit_resume_def keys_simps yaml_simps)
  have "load_task new_resume (emit_resume s) = Inr (new_resume\<lparr>
      task_concurrent_execution := task_concurrent_execution s,
      task_time_measurement := task_time_measurement s, task_driver := task_driver s\<rparr>)"
    by (rule base_written [OF assms])
      (auto simp: keys new_resume_def new_task_def Task.defs)
  moreover have "load_key decode_string (emit_resume s) ''vm-name'' = Inr (resume_vm_name s)"
    by (simp add: load_key_def load_def node_index_mapping keys decode_simps)
  ultimately show ?thesis by (simp add: load_resume_def)
qed

end
