(* ===== verification/Task_Container.thy ===== *)
theory Task_Container
  imports Migfra_Task
begin

section \<open>Task containers\<close>

text \<open>
  \<open>Task_container\<close> (\<open>vendor/fast-lib/src/message/migfra/task.cpp\<close>): the message that carries
  tasks to a host. A container writes its tasks according to the dynamic type of the first
  one: a list, a list of machine configurations, or, for migrate and repin, the first task
  merged into the message itself. The property at the end says what a host reads when it
  parses the message.
\<close>

datatype any_task =
    Start_task Start
  | Stop_task Stop
  | Migrate_task Migrate
  | Repin_task Repin
  | Suspend_task Suspend
  | Resume_task Resume
  | Quit_task Quit

fun emit_any :: "any_task \<Rightarrow> yaml" where
  "emit_any (Start_task t) = emit_start t"
| "emit_any (Stop_task t) = emit_stop t"
| "emit_any (Migrate_task t) = emit_migrate t"
| "emit_any (Repin_task t) = emit_repin t"
| "emit_any (Suspend_task t) = emit_suspend t"
| "emit_any (Resume_task t) = emit_resume t"
| "emit_any (Quit_task t) = emit_task t"

record Task_container =
  tasks :: "any_task list"
  container_concurrent_execution :: "bool optional"
  container_id :: "string optional"

definition new_task_container :: Task_container where
  "new_task_container =
     \<lparr>tasks = [], container_concurrent_execution = no_value ''concurrent-execution'',
      container_id = no_value ''id''\<rparr>"

definition task_container_with :: "any_task list \<Rightarrow> bool \<Rightarrow> string \<Rightarrow> Task_container" where
  "task_container_with ts conc i =
     \<lparr>tasks = ts, container_concurrent_execution = with_value ''concurrent-execution'' conc,
      container_id = with_value ''id'' i\<rparr>"

fun type_name :: "bool \<Rightarrow> any_task \<Rightarrow> string" where
  "type_name res (Start_task _) = (if res then ''vm started'' else ''start vm'')"
| "type_name res (Stop_task _) = (if res then ''vm stopped'' else ''stop vm'')"
| "type_name res (Migrate_task _) = (if res then ''vm migrated'' else ''migrate vm'')"
| "type_name res (Repin_task _) = (if res then ''vm repinned'' else ''repin vm'')"
| "type_name res (Suspend_task _) = (if res then ''vm suspended'' else ''suspend vm'')"
| "type_name res (Resume_task _) = (if res then ''vm resumed'' else ''resume vm'')"
| "type_name res (Quit_task _) = ''quit''"

definition container_type :: "bool \<Rightarrow> Task_container \<Rightarrow> string result" where
  "container_type res c =
     (case tasks c of
        [] \<Rightarrow> Inl (Exception ''No subtasks available to get type.'')
      | t # _ \<Rightarrow> Inr (type_name res t))"

definition emit_task_container :: "Task_container \<Rightarrow> yaml result" where
  "emit_task_container c =
     rbind (container_type False c) (\<lambda>type_str.
     let node = set_key Null ''task'' (Scalar type_str);
         node =
           (if type_str = ''migrate vm'' \<or> type_str = ''repin vm''
            then merge_node node (emit_any (hd (tasks c)))
            else if type_str = ''start vm''
            then set_key node ''vm-configurations'' (encode_seq emit_any (tasks c))
            else set_key node ''list'' (encode_seq emit_any (tasks c)));
         node = merge_node node (optional_emit encode_bool (container_concurrent_execution c))
     in Inr (merge_node node (optional_emit encode_string (container_id c))))"

definition task_container_to_string :: "yaml_lib \<Rightarrow> Task_container \<Rightarrow> string result" where
  "task_container_to_string Y c = rbind (emit_task_container c) (\<lambda>n. Inr (to_string Y n))"

text \<open>The loaders by type: a list of objects under a key, or one object in the node itself.\<close>

definition load_tasks_at ::
  "('t \<Rightarrow> any_task) \<Rightarrow> (yaml \<Rightarrow> 't result) \<Rightarrow> string \<Rightarrow> yaml \<Rightarrow> any_task list result" where
  "load_tasks_at mk ld key node =
     rbind (load_key (decode_seq (decode_object ld)) node key) (\<lambda>ts. Inr (map mk ts))"

definition load_task_in ::
  "('t \<Rightarrow> any_task) \<Rightarrow> (yaml \<Rightarrow> 't result) \<Rightarrow> yaml \<Rightarrow> any_task list result" where
  "load_task_in mk ld node = rbind (load (decode_object ld) (Some node)) (\<lambda>t. Inr [mk t])"

definition load_tasks :: "string \<Rightarrow> yaml \<Rightarrow> any_task list result" where
  "load_tasks type_str node =
     (if type_str = ''start vm'' then load_tasks_at Start_task (load_start new_start) ''vm-configurations'' node
      else if type_str = ''stop vm'' then load_tasks_at Stop_task (load_stop new_stop) ''list'' node
      else if type_str = ''migrate vm'' then load_task_in Migrate_task (load_migrate new_migrate) node
      else if type_str = ''repin vm'' then load_task_in Repin_task (load_repin new_repin) node
      else if type_str = ''suspend vm'' then load_tasks_at Suspend_task (load_suspend new_suspend) ''list'' node
      else if type_str = ''resume vm'' then load_tasks_at Resume_task (load_resume new_resume) ''list'' node
      else if type_str = ''quit'' then load_task_in Quit_task (load_task new_task) node
      else Inl (Exception ''Unknown type of Task while loading.''))"

definition load_task_container :: "Task_container \<Rightarrow> yaml \<Rightarrow> Task_container result" where
  "load_task_container c node =
     rbind (case load_key decode_string node ''task'' of
              Inl (Exception _) \<Rightarrow>
                Inl (Exception ''Cannot find key \"task\" to load Task from YAML.'')
            | r \<Rightarrow> r) (\<lambda>type_str.
     rbind (load_tasks type_str node) (\<lambda>ts.
     rbind (load_field decode_bool container_concurrent_execution
              container_concurrent_execution_update node (c\<lparr>tasks := ts\<rparr>))
       (load_field decode_string container_id container_id_update node)))"

subsection \<open>What is read back\<close>

fun any_ok :: "any_task \<Rightarrow> bool" where
  "any_ok (Start_task t) = start_ok t"
| "any_ok (Stop_task t) = stop_ok t"
| "any_ok (Migrate_task t) = migrate_ok t"
| "any_ok (Repin_task t) = (task_ok t \<and> cpu_map_ok (repin_vcpu_map t))"
| "any_ok (Suspend_task t) = task_ok t"
| "any_ok (Resume_task t) = task_ok t"
| "any_ok (Quit_task t) = task_ok t"

definition container_ok :: "Task_container \<Rightarrow> bool" where
  "container_ok c \<longleftrightarrow> tasks c \<noteq> [] \<and>
     (\<forall>t \<in> set (tasks c). any_ok t \<and> type_name False t = type_name False (hd (tasks c))) \<and>
     field_ok ''concurrent-execution'' (\<lambda>_. True) (container_concurrent_execution c) \<and>
     field_ok ''id'' (\<lambda>_. True) (container_id c)"

text \<open>
  A migrate or repin task shares the key of its flag with the container: the task's own flag
  wins, and both get it. Further tasks are lost. A quit task gets the container's flag only.
\<close>

definition flag_or :: "bool optional \<Rightarrow> bool optional \<Rightarrow> bool optional" where
  "flag_or a b = (if ptr a = None then b else a)"

fun read_back :: "Task_container \<Rightarrow> Task_container" where
  "read_back c =
     (case hd (tasks c) of
        Migrate_task t \<Rightarrow>
          (let f = flag_or (task_concurrent_execution t) (container_concurrent_execution c)
           in c\<lparr>tasks := [Migrate_task (t\<lparr>task_concurrent_execution := f\<rparr>)],
                container_concurrent_execution := f\<rparr>)
      | Repin_task t \<Rightarrow>
          (let f = flag_or (task_concurrent_execution t) (container_concurrent_execution c)
           in c\<lparr>tasks := [Repin_task (t\<lparr>task_concurrent_execution := f\<rparr>)],
                container_concurrent_execution := f\<rparr>)
      | Quit_task t \<Rightarrow>
          c\<lparr>tasks := [Quit_task (new_task
               \<lparr>task_concurrent_execution := container_concurrent_execution c\<rparr>)]\<rparr>
      | _ \<Rightarrow> c)"

lemma list_of_kind:
  assumes "\<And>t. t \<in> set ts \<Longrightarrow> \<exists>s. t = mk s \<and> ok s"
  shows "\<exists>ss. ts = map mk ss \<and> (\<forall>s \<in> set ss. ok s)"
  using assms
proof (induction ts)
  case (Cons t ts)
  from Cons.prems [of t] obtain s where s: "t = mk s" "ok s" by auto
  from Cons.prems have "\<And>u. u \<in> set ts \<Longrightarrow> \<exists>s. u = mk s \<and> ok s" by simp
  from Cons.IH [OF this] obtain ss where "ts = map mk ss" "\<forall>s \<in> set ss. ok s" by blast
  with s have "t # ts = map mk (s # ss) \<and> (\<forall>s \<in> set (s # ss). ok s)" by simp
  then show ?case by (rule exI)
qed simp

text \<open>The two ways a container is laid out, and what its own fields look like in them.\<close>

lemma load_container_fields:
  assumes "is_mapping n"
    and "node_get n ''task'' = Some (Scalar ty)"
    and "load_tasks ty n = Inr ts"
    and "node_get n ''concurrent-execution'' = map_option encode_bool (ptr f)"
    and "node_get n ''id'' = map_option encode_string (ptr (container_id c))"
    and "field_ok ''concurrent-execution'' (\<lambda>_. True) f"
    and "field_ok ''id'' (\<lambda>_. True) (container_id c)"
  shows "load_task_container new_task_container n =
    Inr \<lparr>tasks = ts, container_concurrent_execution = f, container_id = container_id c\<rparr>"
proof -
  have "load_field decode_bool container_concurrent_execution
      container_concurrent_execution_update n (new_task_container\<lparr>tasks := ts\<rparr>) =
      Inr (new_task_container\<lparr>tasks := ts, container_concurrent_execution := f\<rparr>)"
    using assms by (intro load_field_written [OF _ _ _ _ _ as_bool])
      (simp_all add: new_task_container_def)
  moreover have "load_field decode_string container_id container_id_update n
      (new_task_container\<lparr>tasks := ts, container_concurrent_execution := f\<rparr>) =
      Inr (new_task_container\<lparr>tasks := ts, container_concurrent_execution := f,
        container_id := container_id c\<rparr>)"
    using assms by (intro load_field_written [OF _ _ _ _ _ as_string])
      (simp_all add: new_task_container_def)
  ultimately show ?thesis
    by (simp add: load_task_container_def load_key_def load_def node_index_mapping assms
        decode_simps new_task_container_def)
qed

definition own_fields :: "Task_container \<Rightarrow> yaml \<Rightarrow> yaml" where
  "own_fields c node =
     merge_node (merge_node node (optional_emit encode_bool (container_concurrent_execution c)))
       (optional_emit encode_string (container_id c))"

lemma node_get_own_fields:
  assumes "field_ok ''concurrent-execution'' (\<lambda>_. True) (container_concurrent_execution c)"
    and "field_ok ''id'' (\<lambda>_. True) (container_id c)" and "node_get n ''id'' = None"
  shows "node_get (own_fields c n) = (node_get n)
    (''concurrent-execution'' := (case node_get n ''concurrent-execution'' of
        None \<Rightarrow> map_option encode_bool (ptr (container_concurrent_execution c)) | Some x \<Rightarrow> Some x),
     ''id'' := map_option encode_string (ptr (container_id c)))"
  using assms
  by (auto simp: own_fields_def fun_eq_iff yaml_simps field_ok_def split: option.splits)

lemma is_mapping_own_fields: "is_mapping n \<Longrightarrow> is_mapping (own_fields c n)"
  by (simp add: own_fields_def yaml_simps)

lemma load_tasks_at_written:
  assumes "is_mapping n" and "node_get n key = Some (encode_seq emit_any (map mk ss))"
    and "\<And>s. s \<in> set ss \<Longrightarrow> ld (emit_any (mk s)) = Inr s"
  shows "load_tasks_at mk ld key n = Inr (map mk ss)"
proof -
  have "encode_seq emit_any (map mk ss) = encode_seq (\<lambda>s. emit_any (mk s)) ss"
    by (simp add: encode_seq_def)
  with assms have "load_key (decode_seq (decode_object ld)) n key = Inr ss"
    by (simp add: load_key_def load_def node_index_mapping)
      (intro as_seq ballI as_object; simp)
  then show ?thesis by (simp add: load_tasks_at_def)
qed

lemma container_eqI:
  "\<lparr>tasks = tasks c, container_concurrent_execution = container_concurrent_execution c,
     container_id = container_id c\<rparr> = c"
  by simp

text \<open>A list of tasks of one kind comes back as it was.\<close>

lemma list_container_read_back:
  fixes ld :: "yaml \<Rightarrow> 't result"
  assumes "container_ok c" and "tasks c = map mk ss" and "key \<in> {''vm-configurations'', ''list''}"
    and "emit_task_container c =
      Inr (own_fields c (set_key (set_key Null ''task'' (Scalar ty)) key (encode_seq emit_any (tasks c))))"
    and "\<And>n. load_tasks ty n = load_tasks_at mk ld key n"
    and "\<And>s. s \<in> set ss \<Longrightarrow> ld (emit_any (mk s)) = Inr s"
  shows "rbind (emit_task_container c) (load_task_container new_task_container) = Inr c"
proof -
  let ?base = "set_key (set_key Null ''task'' (Scalar ty)) key (encode_seq emit_any (tasks c))"
  have oks: "field_ok ''concurrent-execution'' (\<lambda>_. True) (container_concurrent_execution c)"
    "field_ok ''id'' (\<lambda>_. True) (container_id c)"
    using assms(1) by (simp_all add: container_ok_def)
  have "node_get ?base ''id'' = None" using assms(3) by (auto simp: yaml_simps)
  note keys = node_get_own_fields [OF oks this]
  have mapping: "is_mapping (own_fields c ?base)" by (simp add: is_mapping_own_fields yaml_simps)
  have "load_tasks ty (own_fields c ?base) = Inr (tasks c)"
    unfolding assms(2,5)
    by (rule load_tasks_at_written [OF mapping [unfolded assms(2)]])
      (use assms(2,3,6) keys in \<open>auto simp: yaml_simps\<close>)
  from load_container_fields [OF mapping _ this _ _ oks] show ?thesis
    using assms(3) by (auto simp: assms(4) keys yaml_simps)
qed

lemma emit_list_kind:
  assumes "tasks c = t # ts" and "type_name False t \<notin> {''migrate vm'', ''repin vm'', ''start vm''}"
  shows "emit_task_container c = Inr (own_fields c
    (set_key (set_key Null ''task'' (Scalar (type_name False t))) ''list''
      (encode_seq emit_any (tasks c))))"
  using assms by (simp add: emit_task_container_def container_type_def own_fields_def Let_def)

lemma emit_start_kind:
  assumes "tasks c = Start_task t # ts"
  shows "emit_task_container c = Inr (own_fields c
    (set_key (set_key Null ''task'' (Scalar ''start vm'')) ''vm-configurations''
      (encode_seq emit_any (tasks c))))"
  using assms by (simp add: emit_task_container_def container_type_def own_fields_def Let_def)

lemma kinds:
  assumes "container_ok c" and "tasks c = t # ts" and "u \<in> set (tasks c)"
  shows "any_ok u" and "type_name False u = type_name False t"
  using assms by (auto simp: container_ok_def)

text \<open>The first task merged into the container's node.\<close>

lemma merged_task_keys:
  assumes "is_mapping (emit_any t)" and "node_get (emit_any t) ''task'' = None"
  shows "is_mapping (merge_node (set_key Null ''task'' (Scalar ty)) (emit_any t))"
    and "node_get (merge_node (set_key Null ''task'' (Scalar ty)) (emit_any t)) =
      (node_get (emit_any t))(''task'' := Some (Scalar ty))"
  using assms by (auto simp: yaml_simps fun_eq_iff split: option.splits)

lemma flag_or_written:
  assumes "field_ok ''concurrent-execution'' (\<lambda>_. True) a"
    and "field_ok ''concurrent-execution'' (\<lambda>_. True) b"
  shows "field_ok ''concurrent-execution'' (\<lambda>_. True) (flag_or a b)"
    and "map_option enc (ptr (flag_or a b)) =
      (case map_option enc (ptr a) of None \<Rightarrow> map_option enc (ptr b) | Some x \<Rightarrow> Some x)"
  using assms by (auto simp: flag_or_def split: option.splits)

text \<open>A task of its own in the container's node, given that it is read back from there.\<close>

lemma merged_container_read_back:
  assumes "container_ok c" and "tasks c = t # ts" and ty: "ty = type_name False t"
    and "ty = ''migrate vm'' \<or> ty = ''repin vm''"
    and mapping: "is_mapping (emit_any t)"
    and own: "node_get (emit_any t) ''task'' = None" "node_get (emit_any t) ''id'' = None"
      "node_get (emit_any t) ''concurrent-execution'' =
        map_option encode_bool (ptr flag)"
    and flag: "field_ok ''concurrent-execution'' (\<lambda>_. True) flag"
    and load: "\<And>n. is_mapping n \<Longrightarrow>
        (\<And>k. k \<noteq> ''task'' \<Longrightarrow> k \<noteq> ''id'' \<Longrightarrow> node_get n k = ((node_get (emit_any t))
          (''concurrent-execution'' := map_option encode_bool
            (ptr (flag_or flag (container_concurrent_execution c))))) k) \<Longrightarrow>
        load_tasks ty n = Inr ts'"
  shows "rbind (emit_task_container c) (load_task_container new_task_container) =
    Inr (c\<lparr>tasks := ts', container_concurrent_execution :=
      flag_or flag (container_concurrent_execution c)\<rparr>)"
proof -
  let ?base = "merge_node (set_key Null ''task'' (Scalar ty)) (emit_any t)"
  let ?f = "flag_or flag (container_concurrent_execution c)"
  have emit: "emit_task_container c = Inr (own_fields c ?base)"
    using assms(2,4) by (auto simp: emit_task_container_def container_type_def own_fields_def
        Let_def ty)
  have oks: "field_ok ''concurrent-execution'' (\<lambda>_. True) (container_concurrent_execution c)"
    "field_ok ''id'' (\<lambda>_. True) (container_id c)"
    using assms(1) by (simp_all add: container_ok_def)
  note base = merged_task_keys [OF mapping own(1)]
  have "node_get ?base ''id'' = None" by (simp only: base(2)) (simp add: own)
  note keys = node_get_own_fields [OF oks this]
  have m: "is_mapping (own_fields c ?base)" by (simp add: is_mapping_own_fields base(1))
  have conc: "node_get (own_fields c ?base) ''concurrent-execution'' = map_option encode_bool (ptr ?f)"
    by (simp only: keys flag_or_written(2) [OF flag oks(1)]) (simp only: base(2), simp add: own)
  have "load_tasks ty (own_fields c ?base) = Inr ts'"
  proof (rule load [OF m])
    fix k :: string assume "k \<noteq> ''task''" "k \<noteq> ''id''"
    then show "node_get (own_fields c ?base) k = ((node_get (emit_any t))
        (''concurrent-execution'' := map_option encode_bool (ptr ?f))) k"
      by (cases "k = ''concurrent-execution''") (simp only: conc fun_upd_apply simp_thms if_True,
          simp only: keys, simp only: base(2), simp)
  qed
  moreover have "node_get (own_fields c ?base) ''task'' = Some (Scalar ty)"
    by (simp only: keys) (simp only: base(2), simp)
  moreover have "node_get (own_fields c ?base) ''id'' = map_option encode_string (ptr (container_id c))"
    by (simp only: keys) simp
  ultimately have "load_task_container new_task_container (own_fields c ?base) =
      Inr \<lparr>tasks = ts', container_concurrent_execution = ?f, container_id = container_id c\<rparr>"
    using load_container_fields [OF m _ _ conc _ flag_or_written(1) [OF flag oks(1)] oks(2)] by simp
  then show ?thesis by (simp add: emit)
qed

lemma container_list_kind:
  assumes "container_ok c" and "tasks c = t # ts"
    and "\<not> (\<exists>m. t = Migrate_task m)" and "\<not> (\<exists>r. t = Repin_task r)" and "\<not> (\<exists>q. t = Quit_task q)"
  shows "rbind (emit_task_container c) (load_task_container new_task_container) = Inr c"
proof (cases t)
  case (Start_task s)
  have "\<exists>s. u = Start_task s \<and> start_ok s" if "u \<in> set (tasks c)" for u
    using kinds [OF assms(1,2) that] Start_task by (cases u) auto
  from list_of_kind [of "tasks c" Start_task start_ok, OF this] obtain ss where
    ss: "tasks c = map Start_task ss" "\<forall>s \<in> set ss. start_ok s" by blast
  have e: "emit_task_container c = Inr (own_fields c
      (set_key (set_key Null ''task'' (Scalar ''start vm'')) ''vm-configurations''
        (encode_seq emit_any (tasks c))))"
    using emit_start_kind [of c s ts] assms(2) Start_task by simp
  show ?thesis
    by (rule list_container_read_back [OF assms(1) ss(1) _ e, where ld = "load_start new_start"])
      (use ss(2) in \<open>simp_all add: load_tasks_def load_emit_start\<close>)
next
  case (Stop_task s)
  have "\<exists>s. u = Stop_task s \<and> stop_ok s" if "u \<in> set (tasks c)" for u
    using kinds [OF assms(1,2) that] Stop_task by (cases u) auto
  from list_of_kind [of "tasks c" Stop_task stop_ok, OF this] obtain ss where
    ss: "tasks c = map Stop_task ss" "\<forall>s \<in> set ss. stop_ok s" by blast
  have e: "emit_task_container c = Inr (own_fields c
      (set_key (set_key Null ''task'' (Scalar ''stop vm'')) ''list''
        (encode_seq emit_any (tasks c))))"
    using emit_list_kind [OF assms(2)] assms(2) Stop_task by simp
  show ?thesis
    by (rule list_container_read_back [OF assms(1) ss(1) _ e, where ld = "load_stop new_stop"])
      (use ss(2) in \<open>simp_all add: load_tasks_def load_emit_stop\<close>)
next
  case (Suspend_task s)
  have "\<exists>s. u = Suspend_task s \<and> task_ok s" if "u \<in> set (tasks c)" for u
    using kinds [OF assms(1,2) that] Suspend_task by (cases u) auto
  from list_of_kind [of "tasks c" Suspend_task task_ok, OF this] obtain ss where
    ss: "tasks c = map Suspend_task ss" "\<forall>s \<in> set ss. task_ok s" by blast
  have e: "emit_task_container c = Inr (own_fields c
      (set_key (set_key Null ''task'' (Scalar ''suspend vm'')) ''list''
        (encode_seq emit_any (tasks c))))"
    using emit_list_kind [OF assms(2)] assms(2) Suspend_task by simp
  show ?thesis
    by (rule list_container_read_back [OF assms(1) ss(1) _ e, where ld = "load_suspend new_suspend"])
      (use ss(2) in \<open>simp_all add: load_tasks_def load_emit_suspend\<close>)
next
  case (Resume_task s)
  have "\<exists>s. u = Resume_task s \<and> task_ok s" if "u \<in> set (tasks c)" for u
    using kinds [OF assms(1,2) that] Resume_task by (cases u) auto
  from list_of_kind [of "tasks c" Resume_task task_ok, OF this] obtain ss where
    ss: "tasks c = map Resume_task ss" "\<forall>s \<in> set ss. task_ok s" by blast
  have e: "emit_task_container c = Inr (own_fields c
      (set_key (set_key Null ''task'' (Scalar ''resume vm'')) ''list''
        (encode_seq emit_any (tasks c))))"
    using emit_list_kind [OF assms(2)] assms(2) Resume_task by simp
  show ?thesis
    by (rule list_container_read_back [OF assms(1) ss(1) _ e, where ld = "load_resume new_resume"])
      (use ss(2) in \<open>simp_all add: load_tasks_def load_emit_resume\<close>)
qed (use assms in auto)

lemma load_task_in_written: "ld n = Inr t \<Longrightarrow> load_task_in mk ld n = Inr [mk t]"
  by (simp add: load_task_in_def load_def as_object)

lemma container_migrate:
  assumes "container_ok c" and "tasks c = Migrate_task m # ts"
  shows "rbind (emit_task_container c) (load_task_container new_task_container) = Inr (read_back c)"
proof -
  let ?f = "flag_or (task_concurrent_execution m) (container_concurrent_execution c)"
  let ?m = "m\<lparr>task_concurrent_execution := ?f\<rparr>"
  have ok: "migrate_ok m" using kinds(1) [OF assms, of "Migrate_task m"] assms(2) by simp
  have cok: "field_ok ''concurrent-execution'' (\<lambda>_. True) (container_concurrent_execution c)"
    using assms(1) by (simp add: container_ok_def)
  have flag: "field_ok ''concurrent-execution'' (\<lambda>_. True) (task_concurrent_execution m)"
    using ok by (simp add: migrate_ok_def task_ok_def)
  have mok: "migrate_ok ?m"
    using ok flag_or_written(1) [OF flag cok]
    by (simp add: migrate_ok_def task_ok_def migrate_params_ok_def)
  have mkeys: "migrate_keys ?m = (migrate_keys m)(''concurrent-execution'' :=
      map_option encode_bool (ptr ?f))"
    by (rule ext) (simp add: migrate_keys_def task_keys_def emit_migrate_params_def)
  have "rbind (emit_task_container c) (load_task_container new_task_container) =
    Inr (c\<lparr>tasks := [Migrate_task ?m], container_concurrent_execution := ?f\<rparr>)"
  proof (rule merged_container_read_back [OF assms refl _ _ _ _ _ flag])
    fix n :: yaml
    assume n: "is_mapping n" and get: "\<And>k. k \<noteq> ''task'' \<Longrightarrow> k \<noteq> ''id'' \<Longrightarrow>
      node_get n k = ((node_get (emit_any (Migrate_task m)))
        (''concurrent-execution'' := map_option encode_bool (ptr ?f))) k"
    have "load_migrate new_migrate n = Inr ?m"
      by (rule load_migrate_written [OF mok n])
        (auto simp: mkeys get node_get_emit_migrate [OF ok])
    then show "load_tasks (type_name False (Migrate_task m)) n = Inr [Migrate_task ?m]"
      by (simp add: load_tasks_def load_task_in_written)
  qed (simp_all add: is_mapping_emit_migrate node_get_emit_migrate [OF ok] migrate_keys_def
      task_keys_def)
  then show ?thesis using assms(2) by (simp add: Let_def)
qed

lemma container_repin:
  assumes "container_ok c" and "tasks c = Repin_task m # ts"
  shows "rbind (emit_task_container c) (load_task_container new_task_container) = Inr (read_back c)"
proof -
  let ?f = "flag_or (task_concurrent_execution m) (container_concurrent_execution c)"
  let ?m = "m\<lparr>task_concurrent_execution := ?f\<rparr>"
  have ok: "task_ok m" "cpu_map_ok (repin_vcpu_map m)"
    using kinds(1) [OF assms, of "Repin_task m"] assms(2) by simp_all
  have cok: "field_ok ''concurrent-execution'' (\<lambda>_. True) (container_concurrent_execution c)"
    using assms(1) by (simp add: container_ok_def)
  have flag: "field_ok ''concurrent-execution'' (\<lambda>_. True) (task_concurrent_execution m)"
    using ok by (simp add: task_ok_def)
  have mok: "task_ok ?m"
    using ok flag_or_written(1) [OF flag cok] by (simp add: task_ok_def)
  have get0: "node_get (emit_repin m) = (task_keys m)(''vm-name'' := Some (Scalar (repin_vm_name m)),
      ''vcpu-map'' := Some (encode_cpu_map (repin_vcpu_map m)))"
    using ok(1) by (simp add: emit_repin_def keys_simps)
  have "rbind (emit_task_container c) (load_task_container new_task_container) =
    Inr (c\<lparr>tasks := [Repin_task ?m], container_concurrent_execution := ?f\<rparr>)"
  proof (rule merged_container_read_back [OF assms refl _ _ _ _ _ flag])
    fix n :: yaml
    assume n: "is_mapping n" and get: "\<And>k. k \<noteq> ''task'' \<Longrightarrow> k \<noteq> ''id'' \<Longrightarrow>
      node_get n k = ((node_get (emit_any (Repin_task m)))
        (''concurrent-execution'' := map_option encode_bool (ptr ?f))) k"
    have "load_repin new_repin n = Inr ?m"
      by (rule load_repin_written [OF mok _ n])
        (use ok(2) get in \<open>auto simp: get0 task_keys_def\<close>)
    then show "load_tasks (type_name False (Repin_task m)) n = Inr [Repin_task ?m]"
      by (simp add: load_tasks_def load_task_in_written)
  qed (simp_all add: yaml_simps get0 emit_repin_def [symmetric] task_keys_def,
      simp add: emit_repin_def yaml_simps)
  then show ?thesis using assms(2) by (simp add: Let_def)
qed

lemma container_quit:
  assumes "container_ok c" and "tasks c = Quit_task q # ts"
  shows "rbind (emit_task_container c) (load_task_container new_task_container) = Inr (read_back c)"
proof -
  let ?base = "set_key (set_key Null ''task'' (Scalar ''quit'')) ''list'' (encode_seq emit_any (tasks c))"
  let ?q = "new_task\<lparr>task_concurrent_execution := container_concurrent_execution c\<rparr>"
  have emit: "emit_task_container c = Inr (own_fields c ?base)"
    using emit_list_kind [OF assms(2)] by simp
  have oks: "field_ok ''concurrent-execution'' (\<lambda>_. True) (container_concurrent_execution c)"
    "field_ok ''id'' (\<lambda>_. True) (container_id c)"
    using assms(1) by (simp_all add: container_ok_def)
  have "node_get ?base ''id'' = None" by (simp add: yaml_simps)
  note keys = node_get_own_fields [OF oks this]
  have m: "is_mapping (own_fields c ?base)" by (simp add: is_mapping_own_fields yaml_simps)
  have qok: "task_ok ?q" using oks(1)
    by (simp add: task_ok_def new_task_def field_ok_def no_value_def)
  have "load_task new_task (own_fields c ?base) = Inr (new_task
      \<lparr>task_concurrent_execution := task_concurrent_execution ?q,
       task_time_measurement := task_time_measurement ?q, task_driver := task_driver ?q\<rparr>)"
    by (rule base_written [OF qok m])
      (auto simp: keys yaml_simps task_keys_def new_task_def no_value_def)
  then have "load_tasks ''quit'' (own_fields c ?base) = Inr [Quit_task ?q]"
    by (simp add: load_tasks_def load_task_in_written new_task_def)
  from load_container_fields [OF m _ this _ _ oks]
  have "load_task_container new_task_container (own_fields c ?base) =
      Inr \<lparr>tasks = [Quit_task ?q],
        container_concurrent_execution = container_concurrent_execution c,
        container_id = container_id c\<rparr>"
    by (simp add: keys yaml_simps)
  then show ?thesis using assms(2) by (simp add: emit)
qed

text \<open>
  C33: a host that parses the message of a well-formed container gets the container back, except
  that a migrate or repin task and its container share one \<open>concurrent-execution\<close> flag (and
  only the first task travels), and that a quit task keeps nothing but the container's flag.
\<close>

theorem task_container_roundtrip:
  assumes "container_ok c"
  shows "rbind (emit_task_container c) (load_task_container new_task_container) = Inr (read_back c)"
proof -
  from assms obtain t ts where ts: "tasks c = t # ts" by (cases "tasks c") (auto simp: container_ok_def)
  show ?thesis
  proof (cases t)
    case (Migrate_task m)
    with ts container_migrate [OF assms] show ?thesis by simp
  next
    case (Repin_task m)
    with ts container_repin [OF assms] show ?thesis by simp
  next
    case (Quit_task q)
    with ts container_quit [OF assms] show ?thesis by simp
  qed (use ts container_list_kind [OF assms ts] in auto)
qed

theorem task_container_roundtrip_witness:
  "rbind (emit_task_container (new_task_container\<lparr>tasks :=
       [Migrate_task (migrate_vm_procs ''vm1'' ''n2'' ''warm'' True True 0 False)]\<rparr>))
     (load_task_container new_task_container) =
   Inr (new_task_container\<lparr>tasks :=
       [Migrate_task (migrate_vm_procs ''vm1'' ''n2'' ''warm'' True True 0 False)],
     container_concurrent_execution := with_value ''concurrent-execution'' True\<rparr>)"
proof -
  let ?m = "migrate_vm_procs ''vm1'' ''n2'' ''warm'' True True 0 False"
  have "container_ok (new_task_container\<lparr>tasks := [Migrate_task ?m]\<rparr>)"
    by (simp add: container_ok_def new_task_container_def migrate_ok_def migrate_vm_procs_def
        migrate_vm_def extend_migrate_def task_with_def Task.defs task_ok_def migrate_params_ok_def
        field_ok_def with_value_def no_value_def)
  moreover have "read_back (new_task_container\<lparr>tasks := [Migrate_task ?m]\<rparr>) =
      new_task_container\<lparr>tasks := [Migrate_task ?m],
        container_concurrent_execution := with_value ''concurrent-execution'' True\<rparr>"
    by (simp add: migrate_vm_procs_def migrate_vm_def extend_migrate_def task_with_def Task.defs
        with_value_def flag_or_def Let_def)
  ultimately show ?thesis by (metis task_container_roundtrip)
qed

end
