(* ===== verification/Migfra_Result.thy ===== *)
theory Migfra_Result
  imports Yaml_Node Time_Measurement
begin

section \<open>Results of the migration framework\<close>

text \<open>
  \<open>Result\<close> and \<open>Result_container\<close> (\<open>vendor/fast-lib/src/message/migfra/result.cpp\<close>): the
  replies of the hosts. The controllers read every reply into one container object that they
  declare before the loop, so \<open>load_result_container\<close> starts from the object as it was left
  by the reply before; for the title \<open>vm migrated\<close> it appends an element and then loads the
  first one. The lemmas show what \<open>results.front()\<close> is afterwards.
\<close>

record Result =
  result_vm_name :: string
  status :: string
  details :: string
  result_time_measurement :: time_measurement

record Result_container =
  title :: string
  results :: "Result list"
  result_id :: string

definition new_result :: Result where
  "new_result = \<lparr>result_vm_name = '''', status = '''', details = '''',
     result_time_measurement = new_time_measurement False '''' 0\<rparr>"

definition result_of :: "string \<Rightarrow> string \<Rightarrow> string \<Rightarrow> Result" where
  "result_of name st det = new_result\<lparr>result_vm_name := name, status := st, details := det\<rparr>"

definition new_result_container :: Result_container where
  "new_result_container = \<lparr>title = '''', results = [], result_id = ''''\<rparr>"

definition result_container_of :: "string \<Rightarrow> Result list \<Rightarrow> string \<Rightarrow> Result_container" where
  "result_container_of t rs i = \<lparr>title = t, results = rs, result_id = i\<rparr>"

definition emit_result :: "int \<Rightarrow> Result \<Rightarrow> yaml" where
  "emit_result now r =
     (let node = set_key (set_key Null
            ''vm-name'' (Scalar (result_vm_name r))) ''status'' (Scalar (status r));
          node = (if details r \<noteq> '''' then set_key node ''details'' (Scalar (details r)) else node)
      in if \<not> time_measurement_empty (result_time_measurement r)
         then set_key node ''time-measurement'' (emit_time_measurement now (result_time_measurement r))
         else node)"

definition load_result :: "Result \<Rightarrow> yaml \<Rightarrow> Result result" where
  "load_result r node =
     rbind (load_key decode_string node ''vm-name'') (\<lambda>name.
     rbind (load_key decode_string node ''status'') (\<lambda>st.
     rbind (load_key_or decode_string '''' node ''details'') (\<lambda>det.
     Inr (r\<lparr>result_vm_name := name, status := st, details := det\<rparr>))))"

definition emit_result_container :: "int \<Rightarrow> Result_container \<Rightarrow> yaml result" where
  "emit_result_container now c =
     (let node = set_key Null ''result'' (Scalar (title c))
      in rbind (if title c = ''vm migrated''
                then (case results c of
                        [] \<Rightarrow> Inl (Exception ''vector::_M_range_check'')
                      | r # _ \<Rightarrow> Inr (merge_node node (emit_result now r)))
                else Inr (set_key node ''list'' (encode_seq (emit_result now) (results c))))
           (\<lambda>node. Inr (if result_id c \<noteq> '''' then set_key node ''id'' (Scalar (result_id c))
                       else node)))"

definition load_result_container :: "Result_container \<Rightarrow> yaml \<Rightarrow> Result_container result" where
  "load_result_container c node =
     rbind (load_key decode_string node ''result'') (\<lambda>t.
     rbind (if t = ''vm migrated''
            then rbind (load (decode_object (load_result new_result)) (Some node)) (\<lambda>r.
                 Inr ((results c @ [new_result])[0 := r]))
            else load_key (decode_seq (decode_object (load_result new_result))) node ''list'') (\<lambda>rs.
     rbind (load_key_or decode_string '''' node ''id'') (\<lambda>i.
     Inr \<lparr>title = t, results = rs, result_id = i\<rparr>)))"

definition result_container_from_string ::
  "yaml_lib \<Rightarrow> Result_container \<Rightarrow> string \<Rightarrow> Result_container result" where
  "result_container_from_string Y c s = from_string Y (load_result_container c) s"

text \<open>\<open>results.front()\<close>.\<close>

definition front_result :: "Result_container \<Rightarrow> Result result" where
  "front_result c =
     (case results c of [] \<Rightarrow> Inl (Undefined_behaviour ''front of an empty vector'') | r # _ \<Rightarrow> Inr r)"

subsection \<open>What the controllers read\<close>

text \<open>A reply to a single migration, and a reply that lists the results of several tasks.\<close>

definition migrated_reply :: "string \<Rightarrow> string \<Rightarrow> yaml" where
  "migrated_reply name st = set_key (set_key (set_key Null
     ''result'' (Scalar ''vm migrated'')) ''vm-name'' (Scalar name)) ''status'' (Scalar st)"

definition list_reply :: "string \<Rightarrow> (string \<times> string) list \<Rightarrow> yaml" where
  "list_reply t rs = set_key (set_key Null ''result'' (Scalar t)) ''list''
     (encode_seq (\<lambda>(name, st). set_key (set_key Null
        ''vm-name'' (Scalar name)) ''status'' (Scalar st)) rs)"

lemma load_result_written:
  assumes "is_mapping n" and "node_get n ''vm-name'' = Some (Scalar name)"
    and "node_get n ''status'' = Some (Scalar st)"
    and "node_get n ''details'' = (if det = '''' then None else Some (Scalar det))"
  shows "load_result r n = Inr (r\<lparr>result_vm_name := name, status := st, details := det\<rparr>)"
  using assms
  by (auto simp: load_result_def load_key_def load_key_or_def load_def load_or_def as_or_def
      node_index_mapping as_string)

lemma load_migrated_reply:
  "load_result_container c (migrated_reply name st) =
     Inr \<lparr>title = ''vm migrated'', results = (results c @ [new_result])[0 := result_of name st ''''],
          result_id = ''''\<rparr>"
proof -
  let ?n = "migrated_reply name st"
  have m: "is_mapping ?n" by (simp add: migrated_reply_def yaml_simps)
  have "load_result new_result ?n = Inr (result_of name st '''')"
    using load_result_written [OF m, of name st "''''" new_result]
    by (simp add: migrated_reply_def yaml_simps result_of_def)
  then have "load (decode_object (load_result new_result)) (Some ?n) = Inr (result_of name st '''')"
    by (simp add: load_def as_object)
  moreover have "load_key decode_string ?n ''result'' = Inr ''vm migrated''"
    "load_key_or decode_string '''' ?n ''id'' = Inr ''''"
    by (simp_all add: migrated_reply_def load_key_def load_def load_key_or_def load_or_def
        yaml_simps as_string)
  ultimately show ?thesis by (simp add: load_result_container_def)
qed

lemma front_migrated_reply:
  "rbind (load_result_container c (migrated_reply name st)) front_result = Inr (result_of name st '''')"
  by (cases "results c") (simp_all add: load_migrated_reply front_result_def)

lemma load_list_reply:
  assumes "t \<noteq> ''vm migrated''"
  shows "load_result_container c (list_reply t rs) =
     Inr \<lparr>title = t, results = map (\<lambda>(name, st). result_of name st '''') rs, result_id = ''''\<rparr>"
proof -
  let ?n = "list_reply t rs"
  let ?enc = "\<lambda>r :: Result. set_key (set_key Null ''vm-name'' (Scalar (result_vm_name r)))
    ''status'' (Scalar (status r))"
  let ?rs = "map (\<lambda>(name, st). result_of name st '''') rs"
  have one: "as (decode_object (load_result new_result)) (?enc r) = Inr r" if "r \<in> set ?rs" for r
  proof -
    from that obtain name st where r: "r = result_of name st ''''" by auto
    have "load_result new_result (?enc r) =
        Inr (new_result\<lparr>result_vm_name := name, status := st, details := ''''\<rparr>)"
      by (rule load_result_written) (simp_all add: r result_of_def yaml_simps)
    with r show ?thesis by (simp add: as_object result_of_def)
  qed
  have "map (\<lambda>(name, st). set_key (set_key Null ''vm-name'' (Scalar name)) ''status'' (Scalar st)) rs =
      map ?enc ?rs"
    by (simp add: result_of_def split_def comp_def)
  then have "node_get ?n ''list'' = Some (encode_seq ?enc ?rs)" "is_mapping ?n"
    by (simp_all add: list_reply_def encode_seq_def yaml_simps)
  moreover have "as (decode_seq (decode_object (load_result new_result))) (encode_seq ?enc ?rs) = Inr ?rs"
    by (rule as_seq) (use one in blast)
  ultimately have "load_key (decode_seq (decode_object (load_result new_result))) ?n ''list'' = Inr ?rs"
    by (simp add: load_key_def load_def node_index_mapping)
  moreover have "load_key decode_string ?n ''result'' = Inr t"
    "load_key_or decode_string '''' ?n ''id'' = Inr ''''"
    by (simp_all add: list_reply_def load_key_def load_def load_key_or_def load_or_def
        yaml_simps as_string)
  ultimately show ?thesis using assms by (simp add: load_result_container_def)
qed

end
