(* ===== verification/Controller_Base.thy ===== *)
theory Controller_Base
  imports Job_Model Text_Files Time_Measurement Mqtt_Communicator Task_Container Migfra_Result
begin

section \<open>The controller\<close>

text \<open>
  \<open>controllerT\<close> (\<open>src/controller.cpp\<close>, \<open>include/poncos/controller.hpp\<close>): which job occupies
  which slot of which machine, the threads that run the jobs, and the operations of the
  schedulers on them.

  The fields of the class are the fields of the record; the last ones are the environment:
  the clock (read number \<open>n\<close> gives \<open>clock n\<close>), \<open>std::system\<close>, the files written, and
  \<open>wakeups\<close>. The worker threads run their critical section only while the main thread has
  released the mutex, which it does in \<open>worker_counter_cv.wait\<close> and in
  \<open>wait_for_completion_of\<close>. \<open>wakeups\<close> lists, for each wake-up of the main thread, the threads
  that finished before it, in the order in which they took the mutex; an empty entry is a
  spurious wake-up. A wait that outlives the list never returns: \<open>Blocked\<close>. The two timer
  calls of a worker, which the code makes without the mutex, are made when it finishes.

  The pure virtual functions are the record \<open>virtuals\<close>. The callback of \<open>execute\<close> is the
  same for all jobs of a scheduler; it is an argument of whatever lets workers run, and works
  on the state \<open>'s\<close> of the scheduler.
\<close>

type_synonym execute_config_elemT = "nat \<times> nat"
type_synonym execute_config = "execute_config_elemT list"
type_synonym machine_usageT = "nat list list"

datatype thread_state = Running | Finished | Joined

record worker =
  worker_command :: string
  worker_id :: nat
  worker_state :: thread_state

record controllerT =
  machines :: "string list"
  available_slots :: nat
  machine_usage :: machine_usageT
  id_to_config :: "execute_config list"
  id_to_job :: "jobT list"
  system_config :: system_configT
  cmd_counter :: nat
  lock_owned :: bool
  thread_pool :: "worker list"
  id_to_tpool :: "nat list"
  comm :: mqtt
  timestamps :: time_measurement
  done_called :: bool
  clock :: "nat \<Rightarrow> int"
  clock_reads :: nat
  system_call :: "string \<Rightarrow> int"
  wakeups :: "nat list list"
  files :: "(string \<times> string) list"

record 'c virtuals =
  create_domain :: "nat \<Rightarrow> 'c \<Rightarrow> 'c result"
  delete_domain :: "nat \<Rightarrow> 'c \<Rightarrow> 'c result"
  generate_command :: "jobT \<Rightarrow> nat \<Rightarrow> execute_config \<Rightarrow> 'c \<Rightarrow> (string \<times> 'c) result"
  domain_name :: "execute_config_elemT \<Rightarrow> 'c \<Rightarrow> string result"
  update_config :: "nat \<Rightarrow> execute_config \<Rightarrow> 'c \<Rightarrow> 'c result"
  update_supported :: bool
  init :: "'c \<Rightarrow> 'c result"
  dismantle :: "'c \<Rightarrow> 'c result"

subsection \<open>Construction and destruction\<close>

definition task_topic :: "string \<Rightarrow> string" where
  "task_topic mach = ''fast/migfra/'' @ mach @ ''/task''"

definition result_topic :: "string \<Rightarrow> string" where
  "result_topic mach = ''fast/migfra/'' @ mach @ ''/result''"

definition controller_ctor ::
  "mqtt \<Rightarrow> string option \<Rightarrow> system_configT \<Rightarrow> (nat \<Rightarrow> int) \<Rightarrow> (string \<Rightarrow> int) \<Rightarrow> nat list list \<Rightarrow>
     controllerT result" where
  "controller_ctor cm machine_file sc clk sys wake =
     rbind (read_file machine_file []) (\<lambda>ms.
     rbind (for_each (\<lambda>mach cm. rbind (add_subscription (task_topic mach) 2 cm)
                                      (add_subscription (result_topic mach) 2)) ms cm) (\<lambda>cm.
     Inr \<lparr>machines = ms, available_slots = length ms,
          machine_usage = replicate (length ms) [size_max, size_max],
          id_to_config = [], id_to_job = [], system_config = sc, cmd_counter = 0,
          lock_owned = True, thread_pool = [], id_to_tpool = [], comm = cm,
          timestamps = new_time_measurement True ''timestamps'' (clk 0), done_called = False,
          clock = clk, clock_reads = 1, system_call = sys, wakeups = wake, files = []\<rparr>))"

definition read_clock :: "'z controllerT_scheme \<Rightarrow> int \<times> 'z controllerT_scheme" where
  "read_clock c = (clock c (clock_reads c), c\<lparr>clock_reads := Suc (clock_reads c)\<rparr>)"

definition tick_timestamp :: "string \<Rightarrow> 'z controllerT_scheme \<Rightarrow> 'z controllerT_scheme result" where
  "tick_timestamp name c =
     (case read_clock c of (now, c) \<Rightarrow>
        rbind (tick now name (timestamps c)) (\<lambda>tm. Inr (c\<lparr>timestamps := tm\<rparr>)))"

definition tock_timestamp :: "string \<Rightarrow> 'z controllerT_scheme \<Rightarrow> 'z controllerT_scheme result" where
  "tock_timestamp name c =
     (case read_clock c of (now, c) \<Rightarrow>
        rbind (tock now name (timestamps c)) (\<lambda>tm. Inr (c\<lparr>timestamps := tm\<rparr>)))"

definition cmd_name_from_id :: "nat \<Rightarrow> string" where
  "cmd_name_from_id i = ''poncos_'' @ show_nat i"

definition job_timer :: "nat \<Rightarrow> string" where
  "job_timer i = ''job-#'' @ show_nat i"

definition freeze_timer :: "nat \<Rightarrow> string" where
  "freeze_timer i = ''freeze-job-#'' @ show_nat i"

subsection \<open>Running a job\<close>

text \<open>\<open>assert\<close> that the slot is empty (or not), then assign it.\<close>

definition occupy_slot :: "nat \<Rightarrow> execute_config_elemT \<Rightarrow> machine_usageT \<Rightarrow> machine_usageT result" where
  "occupy_slot i e usage =
     rbind (at2 usage (fst e) (snd e)) (\<lambda>v.
     rbind (assert_that (v = size_max) ''machine_usage[i.first][i.second] == max'') (\<lambda>_.
     set2 usage (fst e) (snd e) i))"

definition release_slot :: "execute_config_elemT \<Rightarrow> machine_usageT \<Rightarrow> machine_usageT result" where
  "release_slot e usage =
     rbind (at2 usage (fst e) (snd e)) (\<lambda>v.
     rbind (assert_that (v \<noteq> size_max) ''machine_usage[i.first][i.second] != max'') (\<lambda>_.
     set2 usage (fst e) (snd e) size_max))"

definition execute ::
  "'z controllerT_scheme virtuals \<Rightarrow> jobT \<Rightarrow> execute_config \<Rightarrow> 'z controllerT_scheme \<Rightarrow>
     (nat \<times> 'z controllerT_scheme) result" where
  "execute V job config c =
     rbind (assert_that (lock_owned c) ''work_counter_lock.owns_lock()'') (\<lambda>_.
     rbind (assert_that (config \<noteq> []) ''!config.empty()'') (\<lambda>_.
     let c = c\<lparr>id_to_tpool := id_to_tpool c @ [length (thread_pool c)],
               id_to_config := id_to_config c @ [config], id_to_job := id_to_job c @ [job]\<rparr> in
     rbind (for_each (occupy_slot (cmd_counter c)) config (machine_usage c)) (\<lambda>usage.
     rbind (create_domain V (cmd_counter c) (c\<lparr>machine_usage := usage\<rparr>)) (\<lambda>c.
     rbind (generate_command V job (cmd_counter c) config c) (\<lambda>(cmd, c).
     Inr (cmd_counter c,
          c\<lparr>thread_pool := thread_pool c @
                [\<lparr>worker_command = cmd, worker_id = cmd_counter c, worker_state = Running\<rparr>],
            cmd_counter := wrap64 (cmd_counter c + 1)\<rparr>))))))"

definition execute_command_internal ::
  "'z controllerT_scheme virtuals \<Rightarrow>
   (nat \<Rightarrow> 'z controllerT_scheme \<Rightarrow> 's \<Rightarrow> 's result) \<Rightarrow>
   string \<Rightarrow> nat \<Rightarrow> 'z controllerT_scheme \<times> 's \<Rightarrow> ('z controllerT_scheme \<times> 's) result" where
  "execute_command_internal V callback command0 counter st =
     (case st of (c, s) \<Rightarrow>
       let cmd_name = cmd_name_from_id counter;
           command1 = command0 @ ''> '' @ cmd_name @ ''.log'' @ '' 2>&1 '' in
       rbind (tick_timestamp (job_timer counter) c) (\<lambda>c.
       let temp = system_call c command1 in
       rbind (tock_timestamp (job_timer counter) c) (\<lambda>c.
       rbind (assert_that (temp \<noteq> -1) ''temp != -1'') (\<lambda>_.
       rbind (delete_domain V counter c) (\<lambda>c.
       rbind (vec_at (id_to_config c) counter) (\<lambda>cur_config.
       rbind (for_each release_slot cur_config (machine_usage c)) (\<lambda>usage.
       let c = c\<lparr>machine_usage := usage\<rparr> in
       rbind (callback counter c s) (\<lambda>s. Inr (c, s)))))))))"

text \<open>One thread of the pool runs to its end; a number that is no running thread is no event.\<close>

definition set_thread_state ::
  "nat \<Rightarrow> thread_state \<Rightarrow> 'z controllerT_scheme \<Rightarrow> 'z controllerT_scheme" where
  "set_thread_state t x c =
     c\<lparr>thread_pool := (thread_pool c)[t := (thread_pool c ! t)\<lparr>worker_state := x\<rparr>]\<rparr>"

definition is_running :: "'z controllerT_scheme \<Rightarrow> nat \<Rightarrow> bool" where
  "is_running c t \<longleftrightarrow> t < length (thread_pool c) \<and> worker_state (thread_pool c ! t) = Running"

definition run_thread ::
  "'z controllerT_scheme virtuals \<Rightarrow>
   (nat \<Rightarrow> 'z controllerT_scheme \<Rightarrow> 's \<Rightarrow> 's result) \<Rightarrow>
   nat \<Rightarrow> 'z controllerT_scheme \<times> 's \<Rightarrow> ('z controllerT_scheme \<times> 's) result" where
  "run_thread V callback t st =
     (let w = thread_pool (fst st) ! t in
      if is_running (fst st) t
      then rbind (execute_command_internal V callback (worker_command w) (worker_id w) st)
             (\<lambda>(c, s). Inr (set_thread_state t Finished c, s))
      else Inr st)"

subsection \<open>Waiting\<close>

text \<open>
  \<open>wait\<close> with a predicate: the predicate is checked first and after every wake-up; before
  each wake-up the threads that finish have the mutex one after the other.
\<close>

fun wait_loop ::
  "('z controllerT_scheme \<Rightarrow> bool result) \<Rightarrow>
   (nat \<Rightarrow> 'z controllerT_scheme \<times> 's \<Rightarrow> ('z controllerT_scheme \<times> 's) result) \<Rightarrow>
   nat list list \<Rightarrow> 'z controllerT_scheme \<times> 's \<Rightarrow> ('z controllerT_scheme \<times> 's) result" where
  "wait_loop pred run wake (c, s) =
     rbind (pred c) (\<lambda>ready.
     if ready then Inr (c\<lparr>wakeups := wake\<rparr>, s)
     else (case wake of
             [] \<Rightarrow> Inl (Blocked ''worker_counter_cv'')
           | ts # wake' \<Rightarrow> rbind (for_each run ts (c, s)) (wait_loop pred run wake')))"

declare wait_loop.simps [simp del]

definition take_lock :: "'z controllerT_scheme \<Rightarrow> 'z controllerT_scheme" where
  "take_lock c = (if \<not> lock_owned c then c\<lparr>lock_owned := True\<rparr> else c)"

definition wait_until ::
  "'z controllerT_scheme virtuals \<Rightarrow>
   (nat \<Rightarrow> 'z controllerT_scheme \<Rightarrow> 's \<Rightarrow> 's result) \<Rightarrow>
   ('z controllerT_scheme \<Rightarrow> bool result) \<Rightarrow>
   'z controllerT_scheme \<times> 's \<Rightarrow> ('z controllerT_scheme \<times> 's) result" where
  "wait_until V callback pred st =
     wait_loop pred (run_thread V callback) (wakeups (fst st)) (take_lock (fst st), snd st)"

fun row_is_empty :: "nat list \<Rightarrow> nat list \<Rightarrow> bool result" where
  "row_is_empty row [] = Inr True"
| "row_is_empty row (s # ss) =
     rbind (vec_at row s) (\<lambda>v. if v \<noteq> size_max then Inr False else row_is_empty row ss)"

fun usage_is_empty :: "nat \<Rightarrow> machine_usageT \<Rightarrow> bool result" where
  "usage_is_empty n [] = Inr True"
| "usage_is_empty n (row # rows) =
     rbind (row_is_empty row [0..<n]) (\<lambda>b. if \<not> b then Inr False else usage_is_empty n rows)"

definition controller_done ::
  "'z controllerT_scheme virtuals \<Rightarrow>
   (nat \<Rightarrow> 'z controllerT_scheme \<Rightarrow> 's \<Rightarrow> 's result) \<Rightarrow>
   'z controllerT_scheme \<times> 's \<Rightarrow> ('z controllerT_scheme \<times> 's) result" where
  "controller_done V callback st =
     rbind (wait_until V callback
              (\<lambda>c. usage_is_empty (length (slots (system_config c))) (machine_usage c)) st) (\<lambda>(c, s).
     Inr (c\<lparr>done_called := True\<rparr>, s))"

text \<open>The free slots of one machine, counted up to the number asked for.\<close>

fun allocated_slots :: "nat list \<Rightarrow> nat \<Rightarrow> nat list \<Rightarrow> nat \<Rightarrow> nat result" where
  "allocated_slots row limit [] n = Inr n"
| "allocated_slots row limit (s # ss) n =
     rbind (vec_at row s) (\<lambda>v.
     if v = size_max
     then (if Suc n = limit then Inr (Suc n) else allocated_slots row limit ss (Suc n))
     else allocated_slots row limit ss n)"

fun resource_counter :: "system_configT \<Rightarrow> nat \<Rightarrow> machine_usageT \<Rightarrow> nat \<Rightarrow> nat result" where
  "resource_counter sc slots_per_host [] counter = Inr counter"
| "resource_counter sc slots_per_host (row # rows) counter =
     rbind (allocated_slots row slots_per_host [0..<length (slots sc)] 0) (\<lambda>n.
     if n = slots_per_host
     then rbind (slot_size sc) (\<lambda>sz.
          resource_counter sc slots_per_host rows (wrap64 (counter + wrap64 (sz * slots_per_host))))
     else resource_counter sc slots_per_host rows counter)"

definition resource_available :: "nat \<Rightarrow> nat \<Rightarrow> 'z controllerT_scheme \<Rightarrow> bool result" where
  "resource_available requested slots_per_host c =
     rbind (resource_counter (system_config c) slots_per_host (machine_usage c) 0) (\<lambda>counter.
     Inr (counter \<ge> requested))"

definition wait_for_ressource ::
  "'z controllerT_scheme virtuals \<Rightarrow>
   (nat \<Rightarrow> 'z controllerT_scheme \<Rightarrow> 's \<Rightarrow> 's result) \<Rightarrow> nat \<Rightarrow> nat \<Rightarrow>
   'z controllerT_scheme \<times> 's \<Rightarrow> ('z controllerT_scheme \<times> 's) result" where
  "wait_for_ressource V callback requested slots_per_host =
     wait_until V callback (resource_available requested slots_per_host)"

text \<open>One wake-up, whatever it is about.\<close>

definition wait_for_change ::
  "'z controllerT_scheme virtuals \<Rightarrow>
   (nat \<Rightarrow> 'z controllerT_scheme \<Rightarrow> 's \<Rightarrow> 's result) \<Rightarrow>
   'z controllerT_scheme \<times> 's \<Rightarrow> ('z controllerT_scheme \<times> 's) result" where
  "wait_for_change V callback st =
     (let c = take_lock (fst st)
      in case wakeups c of
           [] \<Rightarrow> Inl (Blocked ''worker_counter_cv'')
         | ts # wake \<Rightarrow> for_each (run_thread V callback) ts (c\<lparr>wakeups := wake\<rparr>, snd st))"

text \<open>Unlocking a mutex that the lock does not own throws.\<close>

definition unlock :: "'z controllerT_scheme \<Rightarrow> 'z controllerT_scheme result" where
  "unlock c =
     (if lock_owned c then Inr (c\<lparr>lock_owned := False\<rparr>)
      else Inl (Exception ''Operation not permitted''))"

text \<open>
  \<open>join\<close> waits for the thread; other threads may finish before it. No thread finishes without the
  mutex, so the wait never ends when the main thread has it locked. A thread that was joined
  already throws.
\<close>

fun join_loop ::
  "nat \<Rightarrow>
   (nat \<Rightarrow> 'z controllerT_scheme \<times> 's \<Rightarrow> ('z controllerT_scheme \<times> 's) result) \<Rightarrow>
   nat list list \<Rightarrow> 'z controllerT_scheme \<times> 's \<Rightarrow> ('z controllerT_scheme \<times> 's) result" where
  "join_loop t run wake (c, s) =
     (if t \<ge> length (thread_pool c) then Inl (Undefined_behaviour ''thread_pool index'')
      else case worker_state (thread_pool c ! t) of
        Joined \<Rightarrow> Inl (Exception ''Invalid argument'')
      | Finished \<Rightarrow> Inr (set_thread_state t Joined (c\<lparr>wakeups := wake\<rparr>), s)
      | Running \<Rightarrow>
          if lock_owned c then Inl (Blocked ''worker_counter_mutex'')
          else
            (case wake of
               [] \<Rightarrow> Inl (Blocked ''join'')
             | ts # wake' \<Rightarrow> rbind (for_each run ts (c, s)) (join_loop t run wake')))"

declare join_loop.simps [simp del]

definition wait_for_completion_of ::
  "'z controllerT_scheme virtuals \<Rightarrow>
   (nat \<Rightarrow> 'z controllerT_scheme \<Rightarrow> 's \<Rightarrow> 's result) \<Rightarrow> nat \<Rightarrow>
   'z controllerT_scheme \<times> 's \<Rightarrow> ('z controllerT_scheme \<times> 's) result" where
  "wait_for_completion_of V callback i st =
     (case st of (c, s) \<Rightarrow>
        rbind (assert_that (i < length (id_to_tpool c)) ''id < id_to_tpool.size()'') (\<lambda>_.
        rbind (unlock c) (\<lambda>c.
        join_loop (id_to_tpool c ! i) (run_thread V callback) (wakeups c) (c, s))))"

text \<open>The destructor: \<open>done\<close> must have been called; the threads still to be joined are joined.\<close>

definition join_if_joinable ::
  "'z controllerT_scheme virtuals \<Rightarrow>
   (nat \<Rightarrow> 'z controllerT_scheme \<Rightarrow> 's \<Rightarrow> 's result) \<Rightarrow> nat \<Rightarrow>
   'z controllerT_scheme \<times> 's \<Rightarrow> ('z controllerT_scheme \<times> 's) result" where
  "join_if_joinable V callback t st =
     (if worker_state (thread_pool (fst st) ! t) = Joined then Inr st
      else join_loop t (run_thread V callback) (wakeups (fst st)) st)"

definition controller_dtor ::
  "'z controllerT_scheme virtuals \<Rightarrow>
   (nat \<Rightarrow> 'z controllerT_scheme \<Rightarrow> 's \<Rightarrow> 's result) \<Rightarrow>
   'z controllerT_scheme \<times> 's \<Rightarrow> ('z controllerT_scheme \<times> 's) result" where
  "controller_dtor V callback st =
     rbind (assert_that (done_called (fst st)) ''_done_called'') (\<lambda>_.
     rbind (for_each (join_if_joinable V callback) [0..<length (thread_pool (fst st))] st) (\<lambda>(c, s).
     Inr (c\<lparr>thread_pool := []\<rparr>, s)))"

subsection \<open>Configurations\<close>

definition generate_opposing_config ::
  "'z controllerT_scheme \<Rightarrow> nat \<Rightarrow> execute_config result" where
  "generate_opposing_config c i =
     rbind (assert_that (i < length (id_to_config c)) ''id < id_to_config.size()'') (\<lambda>_.
     rbind (assert_that (length (slots (system_config c)) = 2) ''system_config.slots.size() == 2'') (\<lambda>_.
     Inr (map (\<lambda>e. (fst e, wrap64 (snd e + 1) mod length (slots (system_config c))))
            (id_to_config c ! i))))"

text \<open>
  \<open>update_config\<close> works on references into \<open>_id_to_config\<close>, which may be the same vector
  twice; every access here goes to the store. \<open>find_elem\<close> is the search for the first entry
  of the opposing configuration that is the new slot.
\<close>

fun find_elem :: "'a \<Rightarrow> 'a list \<Rightarrow> nat option" where
  "find_elem x [] = None"
| "find_elem x (y # ys) = (if y = x then Some 0 else map_option Suc (find_elem x ys))"

definition swap_usage ::
  "execute_config_elemT \<Rightarrow> execute_config_elemT \<Rightarrow> machine_usageT \<Rightarrow> machine_usageT result" where
  "swap_usage a b usage =
     rbind (at2 usage (fst a) (snd a)) (\<lambda>va.
     rbind (at2 usage (fst b) (snd b)) (\<lambda>vb.
     rbind (set2 usage (fst a) (snd a) vb) (\<lambda>usage.
     set2 usage (fst b) (snd b) va)))"

definition update_config_step ::
  "nat \<Rightarrow> execute_config \<Rightarrow> nat \<Rightarrow> machine_usageT \<times> execute_config list \<Rightarrow>
     (machine_usageT \<times> execute_config list) result" where
  "update_config_step i new_config k st =
     (case st of (usage, cfgs) \<Rightarrow>
        rbind (at2 cfgs i k) (\<lambda>oc.
        rbind (vec_at new_config k) (\<lambda>nc.
        rbind (at2 usage (fst nc) (snd nc)) (\<lambda>op_job_id.
        rbind (swap_usage oc nc usage) (\<lambda>usage.
        if op_job_id = size_max
        then rbind (set2 cfgs i k nc) (\<lambda>cfgs. Inr (usage, cfgs))
        else rbind (vec_at cfgs op_job_id) (\<lambda>op_config.
             case find_elem nc op_config of
               None \<Rightarrow> Inl (Assertion ''success'')
             | Some j \<Rightarrow>
                 rbind (set2 cfgs op_job_id j oc) (\<lambda>cfgs.
                 rbind (set2 cfgs i k nc) (\<lambda>cfgs. Inr (usage, cfgs)))))))))"

definition base_update_config ::
  "nat \<Rightarrow> execute_config \<Rightarrow> 'z controllerT_scheme \<Rightarrow> 'z controllerT_scheme result" where
  "base_update_config i new_config c =
     rbind (vec_at (id_to_config c) i) (\<lambda>old_config.
     rbind (assert_that (length new_config = length old_config)
              ''new_config.size() == old_config.size()'') (\<lambda>_.
     rbind (for_each (update_config_step i new_config) [0..<length new_config]
              (machine_usage c, id_to_config c)) (\<lambda>(usage, cfgs).
     rbind (vec_at cfgs i) (\<lambda>old_config.
     rbind (assert_that (old_config = new_config) ''old_config == new_config'') (\<lambda>_.
     Inr (c\<lparr>machine_usage := usage, id_to_config := cfgs\<rparr>))))))"

subsection \<open>Freezing and thawing\<close>

text \<open>
  A message goes to every occupied slot of the configuration, then a reply of each is read.
  A reply that is not a success is tolerated unless the domain was not running.
\<close>

definition not_running_details :: string where
  "not_running_details =
     ''Error suspending domain: Requested operation is not valid: domain is not running''"

definition request_of ::
  "yaml_lib \<Rightarrow> 'z controllerT_scheme virtuals \<Rightarrow> (string \<Rightarrow> any_task) \<Rightarrow> 'z controllerT_scheme \<Rightarrow>
     execute_config_elemT \<Rightarrow> mqtt \<Rightarrow> mqtt result" where
  "request_of Y V mk c e cm =
     rbind (at2 (machine_usage c) (fst e) (snd e)) (\<lambda>u.
     if u = size_max then Inr cm
     else rbind (vec_at (machines c) (fst e)) (\<lambda>mach.
          rbind (domain_name V e c) (\<lambda>d.
          rbind (task_container_to_string Y (new_task_container\<lparr>tasks := [mk d]\<rparr>)) (\<lambda>msg.
          send_message msg (task_topic mach) cm))))"

definition reply_of ::
  "yaml_lib \<Rightarrow> 'z controllerT_scheme \<Rightarrow> execute_config_elemT \<Rightarrow> Result_container \<times> mqtt \<Rightarrow>
     (Result_container \<times> mqtt) result" where
  "reply_of Y c e st =
     (case st of (response, cm) \<Rightarrow>
        rbind (at2 (machine_usage c) (fst e) (snd e)) (\<lambda>u.
        if u = size_max then Inr (response, cm)
        else rbind (vec_at (machines c) (fst e)) (\<lambda>mach.
             rbind (get_message (result_topic mach) cm) (\<lambda>(msg, cm).
             rbind (result_container_from_string Y response msg) (\<lambda>response.
             rbind (front_result response) (\<lambda>r.
             if status r \<noteq> ''success''
             then rbind (assert_that (details r \<noteq> not_running_details) ''domain is not running'')
                    (\<lambda>_. Inr (response, cm))
             else Inr (response, cm)))))))"

definition suspend_resume_config ::
  "yaml_lib \<Rightarrow> 'z controllerT_scheme virtuals \<Rightarrow> (string \<Rightarrow> any_task) \<Rightarrow> execute_config \<Rightarrow>
     'z controllerT_scheme \<Rightarrow> 'z controllerT_scheme result" where
  "suspend_resume_config Y V mk config c =
     rbind (for_each (request_of Y V mk c) config (comm c)) (\<lambda>cm.
     rbind (for_each (reply_of Y c) config (new_result_container, cm)) (\<lambda>(_, cm).
     Inr (c\<lparr>comm := cm\<rparr>)))"

abbreviation "suspend_task name \<equiv> Suspend_task (suspend_vm name True)"
abbreviation "resume_task name \<equiv> Resume_task (resume_vm name True)"

definition freeze ::
  "yaml_lib \<Rightarrow> 'z controllerT_scheme virtuals \<Rightarrow> nat \<Rightarrow> 'z controllerT_scheme \<Rightarrow>
     'z controllerT_scheme result" where
  "freeze Y V i c =
     rbind (assert_that (i < length (id_to_config c)) ''id < id_to_config.size()'') (\<lambda>_.
     rbind (tick_timestamp (freeze_timer i) c) (\<lambda>c.
     suspend_resume_config Y V (\<lambda>d. suspend_task d) (id_to_config c ! i) c))"

definition thaw ::
  "yaml_lib \<Rightarrow> 'z controllerT_scheme virtuals \<Rightarrow> nat \<Rightarrow> 'z controllerT_scheme \<Rightarrow>
     'z controllerT_scheme result" where
  "thaw Y V i c =
     rbind (assert_that (i < length (id_to_config c)) ''id < id_to_config.size()'') (\<lambda>_.
     rbind (suspend_resume_config Y V (\<lambda>d. resume_task d) (id_to_config c ! i) c)
       (tock_timestamp (freeze_timer i)))"

definition freeze_opposing ::
  "yaml_lib \<Rightarrow> 'z controllerT_scheme virtuals \<Rightarrow> nat \<Rightarrow> 'z controllerT_scheme \<Rightarrow>
     'z controllerT_scheme result" where
  "freeze_opposing Y V i c =
     rbind (generate_opposing_config c i) (\<lambda>cfg.
     suspend_resume_config Y V (\<lambda>d. suspend_task d) cfg c)"

definition thaw_opposing ::
  "yaml_lib \<Rightarrow> 'z controllerT_scheme virtuals \<Rightarrow> nat \<Rightarrow> 'z controllerT_scheme \<Rightarrow>
     'z controllerT_scheme result" where
  "thaw_opposing Y V i c =
     rbind (generate_opposing_config c i) (\<lambda>cfg.
     suspend_resume_config Y V (\<lambda>d. resume_task d) cfg c)"

end
