(* ===== verification/Controller_Invariant.thy ===== *)
theory Controller_Invariant
  imports Controller_Base
begin

section \<open>The bookkeeping of the controller\<close>

text \<open>
  The invariant \<open>wf\<close>: the usage table and the configurations of the running jobs describe
  the same allocation. \<open>occupied\<close> is its core, a bijection between the slots marked with a
  job and the entries of that job's configuration. Every operation of the controller keeps
  \<open>wf\<close>; the locale \<open>controller_interface\<close> proves this once for any implementation of the
  virtual functions that leaves the bookkeeping alone, and the two controllers interpret it.
\<close>

subsection \<open>Filling and clearing slots\<close>

definition put_all :: "(nat \<times> nat) list \<Rightarrow> 'a \<Rightarrow> 'a list list \<Rightarrow> 'a list list" where
  "put_all ps v u = fold (\<lambda>p u. put2 u p v) ps u"

lemma put_all_simps [simp]:
  "put_all [] v u = u"
  "put_all (p # ps) v u = put_all ps v (put2 u p v)"
  by (simp_all add: put_all_def)

lemma in2_put_all [simp]: "in2 (put_all ps v u) q \<longleftrightarrow> in2 u q"
  by (induction ps arbitrary: u) simp_all

lemma length_put_all [simp]: "length (put_all ps v u) = length u"
  by (induction ps arbitrary: u) simp_all

lemma get2_put_all:
  "\<forall>p \<in> set ps. in2 u p \<Longrightarrow> get2 (put_all ps v u) q = (if q \<in> set ps then v else get2 u q)"
proof (induction ps arbitrary: u)
  case (Cons p ps)
  then show ?case by (cases "q = p") auto
qed simp

definition shape :: "nat \<Rightarrow> 'a list list \<Rightarrow> bool" where
  "shape k u \<longleftrightarrow> (\<forall>row \<in> set u. length row = k)"

lemma in2_shape: "shape k u \<Longrightarrow> in2 u p \<longleftrightarrow> fst p < length u \<and> snd p < k"
  by (auto simp: shape_def in2_def)

lemma shape_nth: "shape k u \<longleftrightarrow> (\<forall>m < length u. length (u ! m) = k)"
  by (metis shape_def in_set_conv_nth)

lemma shape_put2 [simp]: "shape k (put2 u p v) \<longleftrightarrow> shape k u"
  by (simp add: shape_nth)

lemma shape_put_all [simp]: "shape k (put_all ps v u) \<longleftrightarrow> shape k u"
  by (induction ps arbitrary: u) simp_all

lemma occupy_loop:
  assumes "i \<noteq> size_max"
  shows "for_each (occupy_slot i) ps u = Inr u' \<longleftrightarrow>
    distinct ps \<and> (\<forall>p \<in> set ps. in2 u p \<and> get2 u p = size_max) \<and> u' = put_all ps i u"
proof (induction ps arbitrary: u)
  case Nil
  then show ?case by auto
next
  case (Cons p ps)
  have step: "occupy_slot i p u = Inr v \<longleftrightarrow> in2 u p \<and> get2 u p = size_max \<and> v = put2 u p i" for v
    by (auto simp: occupy_slot_def)
  show ?case
  proof (cases "in2 u p \<and> get2 u p = size_max")
    case True
    with assms have "(\<forall>q \<in> set ps. in2 (put2 u p i) q \<and> get2 (put2 u p i) q = size_max) \<longleftrightarrow>
        p \<notin> set ps \<and> (\<forall>q \<in> set ps. in2 u q \<and> get2 u q = size_max)"
      by (auto simp: get2_put2 split: if_splits)
    with True show ?thesis by (auto simp: step Cons.IH)
  next
    case False
    then show ?thesis by (auto simp: step)
  qed
qed

lemma release_loop:
  "for_each release_slot ps u = Inr u' \<longleftrightarrow>
    distinct ps \<and> (\<forall>p \<in> set ps. in2 u p \<and> get2 u p \<noteq> size_max) \<and> u' = put_all ps size_max u"
proof (induction ps arbitrary: u)
  case Nil
  then show ?case by auto
next
  case (Cons p ps)
  have step: "release_slot p u = Inr v \<longleftrightarrow> in2 u p \<and> get2 u p \<noteq> size_max \<and> v = put2 u p size_max"
    for v by (auto simp: release_slot_def)
  show ?case
  proof (cases "in2 u p \<and> get2 u p \<noteq> size_max")
    case True
    then have "(\<forall>q \<in> set ps. in2 (put2 u p size_max) q \<and> get2 (put2 u p size_max) q \<noteq> size_max) \<longleftrightarrow>
        p \<notin> set ps \<and> (\<forall>q \<in> set ps. in2 u q \<and> get2 u q \<noteq> size_max)"
      by (auto simp: get2_put2 split: if_splits)
    with True show ?thesis by (auto simp: step Cons.IH)
  next
    case False
    then show ?thesis by (auto simp: step)
  qed
qed

subsection \<open>The invariant\<close>

definition occupied :: "machine_usageT \<Rightarrow> execute_config list \<Rightarrow> (nat \<Rightarrow> bool) \<Rightarrow> bool" where
  "occupied u cfgs act \<longleftrightarrow>
     (\<forall>j. act j \<longrightarrow> j < length cfgs \<and> cfgs ! j \<noteq> [] \<and> distinct (cfgs ! j) \<and>
        (\<forall>p \<in> set (cfgs ! j). in2 u p \<and> get2 u p = j)) \<and>
     (\<forall>p. in2 u p \<longrightarrow> get2 u p \<noteq> size_max \<longrightarrow> act (get2 u p) \<and> p \<in> set (cfgs ! get2 u p))"

definition wf :: "'z controllerT_scheme \<Rightarrow> bool" where
  "wf c \<longleftrightarrow>
     length (machine_usage c) = length (machines c) \<and> shape 2 (machine_usage c) \<and>
     available_slots c = length (machines c) \<and>
     cmd_counter c \<le> size_max \<and> length (id_to_config c) = cmd_counter c \<and>
     length (id_to_job c) = cmd_counter c \<and> length (thread_pool c) = cmd_counter c \<and>
     id_to_tpool c = [0..<cmd_counter c] \<and>
     (\<forall>t < cmd_counter c. worker_id (thread_pool c ! t) = t) \<and>
     occupied (machine_usage c) (id_to_config c) (is_running c)"

lemma occupied_running:
  assumes "occupied u cfgs act" and "act j"
  shows "j < length cfgs" "cfgs ! j \<noteq> []" "distinct (cfgs ! j)"
    "p \<in> set (cfgs ! j) \<Longrightarrow> in2 u p" "p \<in> set (cfgs ! j) \<Longrightarrow> get2 u p = j"
  using assms unfolding occupied_def by blast+

lemma occupied_slot:
  assumes "occupied u cfgs act" and "in2 u p" and "get2 u p \<noteq> size_max"
  shows "act (get2 u p)" "p \<in> set (cfgs ! get2 u p)"
  using assms unfolding occupied_def by blast+

text \<open>What the virtual functions must leave alone.\<close>

definition book :: "'z controllerT_scheme \<Rightarrow> _" where
  "book c = (machines c, available_slots c, machine_usage c, id_to_config c, id_to_job c,
     system_config c, cmd_counter c, lock_owned c, thread_pool c, id_to_tpool c, done_called c,
     system_call c, wakeups c)"

lemma is_running_cong: "thread_pool c' = thread_pool c \<Longrightarrow> is_running c' = is_running c"
  by (simp add: is_running_def fun_eq_iff)

lemma book_wf: "book c' = book c \<Longrightarrow> wf c' = wf c"
  using is_running_cong [of c' c] by (simp add: book_def wf_def)

lemma book_fields:
  assumes "book c' = book c"
  shows "machines c' = machines c" "machine_usage c' = machine_usage c"
    "id_to_config c' = id_to_config c" "id_to_job c' = id_to_job c"
    "system_config c' = system_config c" "cmd_counter c' = cmd_counter c"
    "lock_owned c' = lock_owned c" "thread_pool c' = thread_pool c"
    "id_to_tpool c' = id_to_tpool c" "done_called c' = done_called c"
    "available_slots c' = available_slots c" "system_call c' = system_call c"
    "wakeups c' = wakeups c"
  using assms by (simp_all add: book_def)

lemma book_tick: "tick_timestamp n c = Inr c' \<Longrightarrow> book c' = book c"
  by (auto simp: tick_timestamp_def read_clock_def book_def)

lemma book_tock: "tock_timestamp n c = Inr c' \<Longrightarrow> book c' = book c"
  by (auto simp: tock_timestamp_def read_clock_def book_def)

lemma book_updates [simp]:
  "book (c\<lparr>comm := cm\<rparr>) = book c" "book (c\<lparr>files := fs\<rparr>) = book c"
  "book (c\<lparr>timestamps := tm\<rparr>) = book c" "book (c\<lparr>clock_reads := k\<rparr>) = book c"
  by (simp_all add: book_def)

lemma wf_updates [simp]:
  "wf (c\<lparr>wakeups := w\<rparr>) = wf c" "wf (c\<lparr>lock_owned := l\<rparr>) = wf c"
  "wf (c\<lparr>done_called := d\<rparr>) = wf c" "wf (c\<lparr>comm := cm\<rparr>) = wf c"
  using is_running_cong [of "c\<lparr>wakeups := w\<rparr>" c] is_running_cong [of "c\<lparr>lock_owned := l\<rparr>" c]
    is_running_cong [of "c\<lparr>done_called := d\<rparr>" c] is_running_cong [of "c\<lparr>comm := cm\<rparr>" c]
  by (simp_all add: wf_def)

subsection \<open>Starting and finishing a job\<close>

lemma occupied_occupy:
  assumes "occupied u cfgs act" and "\<not> act i" and "length cfgs = i" and "i < size_max"
    and "cfg \<noteq> []" and "distinct cfg" and "\<forall>p \<in> set cfg. in2 u p \<and> get2 u p = size_max"
  shows "occupied (put_all cfg i u) (cfgs @ [cfg]) (\<lambda>j. j = i \<or> act j)"
proof -
  have fill: "get2 (put_all cfg i u) q = (if q \<in> set cfg then i else get2 u q)" for q
    using assms(7) by (intro get2_put_all) blast
  have old: "j < length cfgs \<and> (cfgs @ [cfg]) ! j = cfgs ! j" if "act j" for j
    using occupied_running(1) [OF assms(1) that] by (simp add: nth_append)
  have new: "(cfgs @ [cfg]) ! i = cfg" using assms(3) by auto
  show ?thesis
    unfolding occupied_def
  proof (intro conjI allI impI)
    fix j assume j: "j = i \<or> act j"
    show "j < length (cfgs @ [cfg])"
      using j old [of j] assms(3) by (cases "j = i") (auto simp: less_Suc_eq)
    show "(cfgs @ [cfg]) ! j \<noteq> []"
      using j old new assms(5) occupied_running(2) [OF assms(1)] by metis
    show "distinct ((cfgs @ [cfg]) ! j)"
      using j old new assms(6) occupied_running(3) [OF assms(1)] by metis
    show "\<forall>p \<in> set ((cfgs @ [cfg]) ! j). in2 (put_all cfg i u) p \<and> get2 (put_all cfg i u) p = j"
    proof (cases "j = i")
      case True
      with new assms(7) show ?thesis by (simp add: fill)
    next
      case False
      with j have "act j" by simp
      note run = occupied_running(4,5) [OF assms(1) \<open>act j\<close>] old [OF \<open>act j\<close>]
      from run(3) assms(3,4) have "j \<noteq> size_max" by auto
      with run(2) assms(7) have "p \<notin> set cfg" if "p \<in> set (cfgs ! j)" for p
        using that by metis
      with run show ?thesis by (auto simp: fill)
    qed
  next
    fix p assume p: "in2 (put_all cfg i u) p" "get2 (put_all cfg i u) p \<noteq> size_max"
    show "get2 (put_all cfg i u) p = i \<or> act (get2 (put_all cfg i u) p)"
      using p occupied_slot(1) [OF assms(1)] by (auto simp: fill split: if_splits)
    show "p \<in> set ((cfgs @ [cfg]) ! get2 (put_all cfg i u) p)"
      using p occupied_slot [OF assms(1)] new old by (auto simp: fill split: if_splits)
  qed
qed

lemma occupied_release:
  assumes occ: "occupied u cfgs act" and "act i" and lt: "length cfgs \<le> size_max"
  shows "occupied (put_all (cfgs ! i) size_max u) cfgs (\<lambda>j. act j \<and> j \<noteq> i)"
proof -
  note run = occupied_running [OF occ]
  have clear: "get2 (put_all (cfgs ! i) size_max u) q =
      (if q \<in> set (cfgs ! i) then size_max else get2 u q)" for q
    using run(4) [OF \<open>act i\<close>] by (intro get2_put_all) blast
  show ?thesis
    unfolding occupied_def
  proof (intro conjI allI impI)
    fix j assume j: "act j \<and> j \<noteq> i"
    then show "j < length cfgs" "cfgs ! j \<noteq> []" "distinct (cfgs ! j)" using run(1-3) by auto
    show "\<forall>p \<in> set (cfgs ! j). in2 (put_all (cfgs ! i) size_max u) p \<and>
        get2 (put_all (cfgs ! i) size_max u) p = j"
    proof
      fix p assume p: "p \<in> set (cfgs ! j)"
      with j run(5) \<open>act i\<close> have "p \<notin> set (cfgs ! i)" by metis
      with p j run(4,5) [of j p] show "in2 (put_all (cfgs ! i) size_max u) p \<and>
          get2 (put_all (cfgs ! i) size_max u) p = j" by (simp add: clear)
    qed
  next
    fix p
    assume p: "in2 (put_all (cfgs ! i) size_max u) p"
      "get2 (put_all (cfgs ! i) size_max u) p \<noteq> size_max"
    then have u: "in2 u p" "get2 u p \<noteq> size_max" "p \<notin> set (cfgs ! i)"
      "get2 (put_all (cfgs ! i) size_max u) p = get2 u p"
      by (auto simp: clear split: if_splits)
    note slot = occupied_slot [OF occ u(1,2)]
    show "act (get2 (put_all (cfgs ! i) size_max u) p)" using slot(1) u(4) by simp
    show "get2 (put_all (cfgs ! i) size_max u) p \<noteq> i" using slot(2) u(3,4) by metis
    show "p \<in> set (cfgs ! get2 (put_all (cfgs ! i) size_max u) p)" using slot(2) u(4) by simp
  qed
qed

lemma is_running_set_state:
  "x \<noteq> Running \<Longrightarrow> is_running (set_thread_state t x c) j \<longleftrightarrow> is_running c j \<and> j \<noteq> t"
  by (cases "j = t") (auto simp: is_running_def set_thread_state_def)

lemma set_thread_state_fields [simp]:
  "machines (set_thread_state t x c) = machines c"
  "machine_usage (set_thread_state t x c) = machine_usage c"
  "id_to_config (set_thread_state t x c) = id_to_config c"
  "id_to_job (set_thread_state t x c) = id_to_job c"
  "cmd_counter (set_thread_state t x c) = cmd_counter c"
  "id_to_tpool (set_thread_state t x c) = id_to_tpool c"
  "available_slots (set_thread_state t x c) = available_slots c"
  "system_config (set_thread_state t x c) = system_config c"
  "wakeups (set_thread_state t x c) = wakeups c"
  "lock_owned (set_thread_state t x c) = lock_owned c"
  "system_call (set_thread_state t x c) = system_call c"
  "timestamps (set_thread_state t x c) = timestamps c"
  "length (thread_pool (set_thread_state t x c)) = length (thread_pool c)"
  by (simp_all add: set_thread_state_def)

lemma worker_id_set_state:
  "j < length (thread_pool c) \<Longrightarrow>
     worker_id (thread_pool (set_thread_state t x c) ! j) = worker_id (thread_pool c ! j)"
  by (cases "j = t") (simp_all add: set_thread_state_def)

text \<open>A running job's slots are exactly those of its configuration.\<close>

lemma wf_occupied: "wf c \<Longrightarrow> occupied (machine_usage c) (id_to_config c) (is_running c)"
  by (simp add: wf_def)

lemma wf_running_lt: "wf c \<Longrightarrow> is_running c j \<Longrightarrow> j < cmd_counter c"
  by (auto simp: wf_def is_running_def)

lemma release_running:
  assumes "wf c" and "is_running c i"
  shows "for_each release_slot (id_to_config c ! i) (machine_usage c) =
    Inr (put_all (id_to_config c ! i) size_max (machine_usage c))"
proof -
  note run = occupied_running [OF wf_occupied [OF assms(1)] assms(2)]
  have "i < size_max" using assms wf_running_lt [OF assms] by (simp add: wf_def)
  with run show ?thesis by (auto simp: release_loop)
qed

lemma wf_finish:
  assumes "wf c" and "is_running c i"
  shows "wf (set_thread_state i Finished
    (c\<lparr>machine_usage := put_all (id_to_config c ! i) size_max (machine_usage c)\<rparr>))"
proof -
  let ?c = "set_thread_state i Finished
    (c\<lparr>machine_usage := put_all (id_to_config c ! i) size_max (machine_usage c)\<rparr>)"
  have "length (id_to_config c) \<le> size_max" using assms(1) by (simp add: wf_def)
  from occupied_release [OF wf_occupied [OF assms(1)] assms(2) this]
  have "occupied (put_all (id_to_config c ! i) size_max (machine_usage c)) (id_to_config c)
      (\<lambda>j. is_running c j \<and> j \<noteq> i)" .
  moreover have "is_running ?c = (\<lambda>j. is_running c j \<and> j \<noteq> i)"
    by (rule ext, subst is_running_set_state) (simp_all add: is_running_def)
  moreover have "worker_id (thread_pool ?c ! t) = t" if "t < cmd_counter c" for t
    using that assms(1) by (subst worker_id_set_state) (auto simp: wf_def)
  ultimately show ?thesis using assms(1) by (simp add: wf_def)
qed

subsection \<open>Exchanging slots\<close>

text \<open>One step of \<open>update_config\<close> exchanges two slots, in the usage table and in every running
  job's configuration at once.\<close>

definition exchange :: "'a \<Rightarrow> 'a \<Rightarrow> 'a \<Rightarrow> 'a" where
  "exchange a b x = (if x = a then b else if x = b then a else x)"

lemma exchange_self [simp]: "exchange a a = id"
  by (auto simp: exchange_def)

lemma exchange_twice [simp]: "exchange a b (exchange a b x) = x"
  by (simp add: exchange_def)

lemma exchange_inj: "exchange a b x = exchange a b y \<longleftrightarrow> x = y"
  by (auto simp: exchange_def split: if_splits)

lemma exchange_map_id: "a \<notin> set xs \<Longrightarrow> b \<notin> set xs \<Longrightarrow> map (exchange a b) xs = xs"
  by (induction xs) (auto simp: exchange_def)

lemma exchange_map_update:
  "distinct xs \<Longrightarrow> k < length xs \<Longrightarrow> b \<notin> set xs \<Longrightarrow>
     map (exchange (xs ! k) b) xs = xs[k := b]"
  by (rule nth_equalityI)
    (auto simp: exchange_def nth_eq_iff_index_eq nth_list_update in_set_conv_nth)

lemma exchange_map_both:
  assumes "distinct xs" and "k < length xs" and "j < length xs"
  shows "map (exchange (xs ! k) (xs ! j)) xs = (xs[j := xs ! k])[k := xs ! j]"
  using assms
  by (intro nth_equalityI) (auto simp: exchange_def nth_eq_iff_index_eq nth_list_update)

lemma exchange_commute: "exchange a b = exchange b a"
  by (auto simp: exchange_def fun_eq_iff)

lemma find_elem_Some: "find_elem x xs = Some j \<Longrightarrow> j < length xs \<and> xs ! j = x"
  by (induction xs arbitrary: j) (auto split: if_splits)

lemma find_elem_None: "find_elem x xs = None \<longleftrightarrow> x \<notin> set xs"
  by (induction xs) (auto split: if_splits)

lemma swap_usage_ok:
  assumes "in2 u a" and "in2 u b"
  shows "\<exists>u'. swap_usage a b u = Inr u' \<and> length u' = length u \<and> shape k u' = shape k u \<and>
    (\<forall>p. in2 u' p \<longleftrightarrow> in2 u p) \<and> (\<forall>p. get2 u' p = get2 u (exchange a b p))"
  using assms
  by (intro exI [of _ "put2 (put2 u a (get2 u b)) b (get2 u a)"])
    (auto simp: swap_usage_def get2_put2 exchange_def)

lemma occupied_exchange:
  assumes occ: "occupied u cfgs act" and "in2 u a" and "in2 u b"
    and u': "\<And>p. in2 u' p \<longleftrightarrow> in2 u p" "\<And>p. get2 u' p = get2 u (exchange a b p)"
    and cfgs': "length cfgs' = length cfgs" "\<And>j. act j \<Longrightarrow> cfgs' ! j = map (exchange a b) (cfgs ! j)"
  shows "occupied u' cfgs' act"
proof -
  note run = occupied_running [OF occ]
  have in_ex: "in2 u (exchange a b p) \<longleftrightarrow> in2 u p" for p
    using assms(2,3) by (auto simp: exchange_def)
  show ?thesis
    unfolding occupied_def
  proof (intro conjI allI impI)
    fix j assume j: "act j"
    show "j < length cfgs'" "cfgs' ! j \<noteq> []" using run(1,2) [OF j] cfgs'(2) [OF j] cfgs'(1) by auto
    show "distinct (cfgs' ! j)"
      using run(3) [OF j] cfgs'(2) [OF j] by (simp add: distinct_map inj_on_def exchange_inj)
    show "\<forall>p \<in> set (cfgs' ! j). in2 u' p \<and> get2 u' p = j"
    proof
      fix p assume "p \<in> set (cfgs' ! j)"
      then obtain q where q: "q \<in> set (cfgs ! j)" "p = exchange a b q"
        using cfgs'(2) [OF j] by auto
      from run(4,5) [OF j q(1)] in_ex [of q] show "in2 u' p \<and> get2 u' p = j"
        by (simp add: q(2) u')
    qed
  next
    fix p assume "in2 u' p" "get2 u' p \<noteq> size_max"
    then have "in2 u (exchange a b p)" "get2 u (exchange a b p) \<noteq> size_max"
      using u' in_ex by auto
    note slot = occupied_slot [OF occ this]
    show "act (get2 u' p)" using slot(1) u'(2) by simp
    have "exchange a b (exchange a b p) \<in> exchange a b ` set (cfgs ! get2 u (exchange a b p))"
      using slot(2) by (rule imageI)
    then show "p \<in> set (cfgs' ! get2 u' p)"
      using cfgs'(2) [OF slot(1)] u'(2) by simp
  qed
qed

text \<open>
  One step, for any entry of a running job's configuration and any slot of the machine: it
  returns, and it is the exchange of the two slots.
\<close>

lemma update_step_exchange:
  assumes occ: "occupied u cfgs act" and small: "length cfgs \<le> size_max" and i: "act i"
    and k: "k < length (cfgs ! i)" "k < length new" and in_nc: "in2 u (new ! k)"
  shows "\<exists>u' cfgs'. update_config_step i new k (u, cfgs) = Inr (u', cfgs') \<and>
    length u' = length u \<and> shape 2 u' = shape 2 u \<and> (\<forall>p. in2 u' p \<longleftrightarrow> in2 u p) \<and>
    (\<forall>p. get2 u' p = get2 u (exchange (cfgs ! i ! k) (new ! k) p)) \<and>
    length cfgs' = length cfgs \<and>
    (\<forall>j. act j \<longrightarrow> cfgs' ! j = map (exchange (cfgs ! i ! k) (new ! k)) (cfgs ! j)) \<and>
    (\<forall>j < length cfgs. length (cfgs' ! j) = length (cfgs ! j)) \<and>
    (\<forall>j < length cfgs. \<not> act j \<longrightarrow> cfgs' ! j = cfgs ! j)"
proof -
  let ?oc = "cfgs ! i ! k" and ?nc = "new ! k"
  let ?op = "get2 u ?nc"
  note run = occupied_running [OF occ]
  have il: "i < length cfgs" using run(1) [OF i] .
  have oc: "?oc \<in> set (cfgs ! i)" "in2 u ?oc" "get2 u ?oc = i"
    using k run(4,5) [OF i, of ?oc] by auto
  have other: "?oc \<notin> set (cfgs ! j)" if "act j" "j \<noteq> i" for j
    using run(5) [OF that(1)] oc(3) that(2) by metis
  have in_ik: "in2 cfgs (i, k)" "get2 cfgs (i, k) = ?oc"
    using il k by (simp_all add: in2_def get2_def)
  obtain u' where u': "swap_usage ?oc ?nc u = Inr u'" "length u' = length u"
    "shape 2 u' = shape 2 u" "\<forall>p. in2 u' p \<longleftrightarrow> in2 u p"
    "\<forall>p. get2 u' p = get2 u (exchange ?oc ?nc p)"
    using swap_usage_ok [OF oc(2) in_nc, of 2] by blast
  have "\<exists>cfgs'. update_config_step i new k (u, cfgs) = Inr (u', cfgs') \<and>
      length cfgs' = length cfgs \<and>
      (\<forall>j. act j \<longrightarrow> cfgs' ! j = map (exchange ?oc ?nc) (cfgs ! j)) \<and>
      (\<forall>j < length cfgs. length (cfgs' ! j) = length (cfgs ! j)) \<and>
      (\<forall>j < length cfgs. \<not> act j \<longrightarrow> cfgs' ! j = cfgs ! j)"
  proof (cases "?op = size_max")
    case True
    let ?c = "put2 cfgs (i, k) ?nc"
    have nc: "?nc \<notin> set (cfgs ! j)" if "act j" for j
      using run(1) [OF that] run(5) [OF that, of ?nc] True small by auto
    have "update_config_step i new k (u, cfgs) = Inr (u', ?c)"
      using in_ik in_nc k u'(1) True
      by (simp add: update_config_step_def at2_in vec_at_in set2_in)
    moreover have "?c ! j = map (exchange ?oc ?nc) (cfgs ! j)" if "act j" for j
    proof (cases "j = i")
      case True
      with nc [OF i] run(3) [OF i] k il show ?thesis
        by (simp add: put2_def exchange_map_update)
    next
      case False
      with other [OF that] nc [OF that] show ?thesis
        by (simp add: put2_def exchange_map_id)
    qed
    moreover have "?c ! j = cfgs ! j" if "\<not> act j" for j
      using that i by (cases "j = i") (auto simp: put2_def)
    ultimately show ?thesis by (intro exI [of _ ?c]) auto
  next
    case False
    note slot = occupied_slot [OF occ in_nc False]
    obtain j where j: "find_elem ?nc (cfgs ! ?op) = Some j"
      using slot(2) find_elem_None [of ?nc "cfgs ! ?op"] by (cases "find_elem ?nc (cfgs ! ?op)") auto
    note jj = find_elem_Some [OF j]
    have opl: "?op < length cfgs" using run(1) [OF slot(1)] .
    have in_oj: "in2 cfgs (?op, j)" using opl jj by (simp add: in2_def)
    let ?c = "put2 (put2 cfgs (?op, j) ?oc) (i, k) ?nc"
    have "update_config_step i new k (u, cfgs) = Inr (u', ?c)"
      using in_ik in_nc k u'(1) False opl j in_oj
      by (simp add: update_config_step_def at2_in vec_at_in set2_in)
    moreover have "?c ! m = map (exchange ?oc ?nc) (cfgs ! m)" if "act m" for m
    proof (cases "?op = i")
      case True
      show ?thesis
      proof (cases "m = i")
        case True
        with \<open>?op = i\<close> jj k run(3) [OF i] il exchange_map_both [of "cfgs ! i" k j] show ?thesis
          by (simp add: put2_def)
      next
        case False
        moreover have "?nc \<notin> set (cfgs ! m)" using run(5) [OF that] True False by metis
        ultimately show ?thesis using other [OF that] True by (simp add: put2_def exchange_map_id)
      qed
    next
      case False
      consider "m = i" | "m = ?op" | "m \<noteq> i" "m \<noteq> ?op" by blast
      then show ?thesis
      proof cases
        case 1
        have "?nc \<notin> set (cfgs ! i)" using run(5) [OF i] False by metis
        with 1 False k run(3) [OF i] il show ?thesis
          by (simp add: put2_def exchange_map_update)
      next
        case 2
        have "map (exchange ?nc ?oc) (cfgs ! ?op) = (cfgs ! ?op)[j := ?oc]"
          using exchange_map_update [of "cfgs ! ?op" j ?oc] run(3) [OF slot(1)] jj other [OF slot(1)]
            False by simp
        with 2 False opl show ?thesis
          by (simp add: put2_def exchange_commute [of ?oc])
      next
        case 3
        have "?nc \<notin> set (cfgs ! m)" using run(5) [OF that] 3(2) by metis
        with 3 other [OF that] show ?thesis by (simp add: put2_def exchange_map_id)
      qed
    qed
    moreover have "?c ! m = cfgs ! m" if "\<not> act m" for m
    proof -
      from that i slot(1) have "m \<noteq> i" "m \<noteq> ?op" by auto
      then show ?thesis by (simp add: put2_def)
    qed
    ultimately show ?thesis by (intro exI [of _ ?c]) auto
  qed
  with u' show ?thesis by metis
qed

text \<open>The loop over all entries, with what is in place after \<open>k\<close> of them.\<close>

definition updating ::
  "nat \<Rightarrow> execute_config \<Rightarrow> (nat \<Rightarrow> bool) \<Rightarrow> machine_usageT \<times> execute_config list \<Rightarrow>
     nat \<Rightarrow> machine_usageT \<times> execute_config list \<Rightarrow> bool" where
  "updating i new act start k st \<longleftrightarrow>
     (case (start, st) of ((u0, cfgs0), (u, cfgs)) \<Rightarrow>
        occupied u cfgs act \<and> length u = length u0 \<and> (shape 2 u \<longleftrightarrow> shape 2 u0) \<and>
        (\<forall>p. in2 u p \<longleftrightarrow> in2 u0 p) \<and> length cfgs = length cfgs0 \<and>
        (\<forall>j < length cfgs0. length (cfgs ! j) = length (cfgs0 ! j)) \<and>
        (\<forall>j < length cfgs0. \<not> act j \<longrightarrow> cfgs ! j = cfgs0 ! j) \<and>
        (\<forall>m < k. cfgs ! i ! m = new ! m) \<and>
        set (cfgs ! i) \<subseteq> set (cfgs0 ! i) \<union> set new \<and>
        (\<forall>p. p \<notin> set (cfgs0 ! i) \<union> set new \<longrightarrow> get2 u p = get2 u0 p))"

lemma updating_step:
  assumes inv: "updating i new act (u0, cfgs0) k (u, cfgs)"
    and small: "length cfgs0 \<le> size_max" and i: "act i"
    and len: "length (cfgs0 ! i) = length new" and k: "k < length new"
    and new: "distinct new" "\<forall>p \<in> set new. in2 u0 p"
  shows "\<exists>st'. update_config_step i new k (u, cfgs) = Inr st' \<and>
    updating i new act (u0, cfgs0) (Suc k) st'"
proof -
  from inv have occ: "occupied u cfgs act" and inv': "length u = length u0"
    "shape 2 u \<longleftrightarrow> shape 2 u0" "\<And>p. in2 u p \<longleftrightarrow> in2 u0 p" "length cfgs = length cfgs0"
    "\<And>j. j < length cfgs0 \<Longrightarrow> length (cfgs ! j) = length (cfgs0 ! j)"
    "\<And>j. j < length cfgs0 \<Longrightarrow> \<not> act j \<Longrightarrow> cfgs ! j = cfgs0 ! j"
    "\<And>m. m < k \<Longrightarrow> cfgs ! i ! m = new ! m"
    "set (cfgs ! i) \<subseteq> set (cfgs0 ! i) \<union> set new"
    "\<And>p. p \<notin> set (cfgs0 ! i) \<union> set new \<Longrightarrow> get2 u p = get2 u0 p"
    by (auto simp: updating_def)
  let ?oc = "cfgs ! i ! k" and ?nc = "new ! k"
  have il: "i < length cfgs" using occupied_running(1) [OF occ i] .
  have ilen: "length (cfgs ! i) = length new" using inv'(4,5) il len by simp
  have in_nc: "in2 u ?nc" using inv'(3) new(2) k by simp
  obtain u' cfgs' where st: "update_config_step i new k (u, cfgs) = Inr (u', cfgs')"
    "length u' = length u" "shape 2 u' = shape 2 u" "\<And>p. in2 u' p \<longleftrightarrow> in2 u p"
    "\<And>p. get2 u' p = get2 u (exchange ?oc ?nc p)" "length cfgs' = length cfgs"
    "\<And>j. act j \<Longrightarrow> cfgs' ! j = map (exchange ?oc ?nc) (cfgs ! j)"
    "\<And>j. j < length cfgs \<Longrightarrow> length (cfgs' ! j) = length (cfgs ! j)"
    "\<And>j. j < length cfgs \<Longrightarrow> \<not> act j \<Longrightarrow> cfgs' ! j = cfgs ! j"
    using update_step_exchange [OF occ _ i _ k in_nc] small inv'(4) ilen k by metis
  have oc: "?oc \<in> set (cfgs ! i)" using k ilen by simp
  have "in2 u ?oc" using occupied_running(4) [OF occ i oc] .
  from occupied_exchange [OF occ this in_nc st(4,5,6,7)] have "occupied u' cfgs' act" .
  moreover have "cfgs' ! i ! m = new ! m" if m: "m < Suc k" for m
  proof (cases "m = k")
    case True
    with st(7) [OF i] k ilen show ?thesis by (simp add: exchange_def)
  next
    case False
    with m have mk: "m < k" by simp
    with inv'(7) have "cfgs ! i ! m = new ! m" by simp
    moreover have "new ! m \<noteq> ?nc" using new(1) mk k by (simp add: nth_eq_iff_index_eq)
    moreover have "cfgs ! i ! m \<noteq> ?oc"
      using occupied_running(3) [OF occ i] mk k ilen by (simp add: nth_eq_iff_index_eq)
    ultimately show ?thesis using st(7) [OF i] mk k ilen by (simp add: exchange_def)
  qed
  moreover have "set (cfgs' ! i) \<subseteq> set (cfgs0 ! i) \<union> set new"
    using st(7) [OF i] inv'(8) oc k by (auto simp: exchange_def)
  moreover have "get2 u' p = get2 u0 p" if p: "p \<notin> set (cfgs0 ! i) \<union> set new" for p
  proof -
    from p oc inv'(8) k have "p \<noteq> ?oc" "p \<noteq> ?nc" by auto
    with st(5) inv'(9) [OF p] show ?thesis by (simp add: exchange_def)
  qed
  ultimately have "updating i new act (u0, cfgs0) (Suc k) (u', cfgs')"
    using st inv' by (simp add: updating_def)
  with st(1) show ?thesis by blast
qed

text \<open>The whole of the base class's \<open>update_config\<close> for a running job.\<close>

lemma base_update_config_ok:
  assumes "wf c" and "is_running c i"
    and "length new = length (id_to_config c ! i)" and "distinct new"
    and "\<forall>p \<in> set new. in2 (machine_usage c) p"
  shows "\<exists>u cfgs. base_update_config i new c = Inr (c\<lparr>machine_usage := u, id_to_config := cfgs\<rparr>) \<and>
    updating i new (is_running c) (machine_usage c, id_to_config c) (length new) (u, cfgs) \<and>
    cfgs ! i = new"
proof -
  let ?st0 = "(machine_usage c, id_to_config c)"
  let ?I = "\<lambda>pre st. updating i new (is_running c) ?st0 (length pre) st"
  have small: "length (id_to_config c) \<le> size_max" using assms(1) by (simp add: wf_def)
  have il: "i < length (id_to_config c)"
    using occupied_running(1) [OF wf_occupied [OF assms(1)] assms(2)] .
  have "\<exists>st. for_each (update_config_step i new) [0..<length new] ?st0 = Inr st \<and>
      ?I [0..<length new] st"
  proof (rule for_each_total)
    show "?I [] ?st0" using wf_occupied [OF assms(1)] by (auto simp: updating_def)
  next
    fix pre k post st
    assume split: "[0..<length new] = pre @ k # post" and I: "?I pre st"
    from split have k: "k = length pre" "k < length new"
      by (metis length_append length_upt list.size(4) nth_append_length nth_upt add_0
          less_add_Suc1 diff_zero add_Suc_right)+
    obtain u cfgs where st: "st = (u, cfgs)" by (cases st)
    have "updating i new (is_running c) ?st0 k (u, cfgs)" using I k(1) st by simp
    from updating_step [OF this small assms(2) assms(3) [symmetric] k(2) assms(4) assms(5)]
    show "\<exists>st'. update_config_step i new k st = Inr st' \<and> ?I (pre @ [k]) st'"
      by (simp add: st k(1))
  qed
  then obtain u cfgs where loop:
    "for_each (update_config_step i new) [0..<length new] ?st0 = Inr (u, cfgs)"
    "updating i new (is_running c) ?st0 (length new) (u, cfgs)" by auto
  then have "length (cfgs ! i) = length new" "\<And>m. m < length new \<Longrightarrow> cfgs ! i ! m = new ! m"
    "length cfgs = length (id_to_config c)"
    using il assms(3) by (auto simp: updating_def)
  then have "cfgs ! i = new" by (intro nth_equalityI) auto
  moreover from this have "base_update_config i new c =
      Inr (c\<lparr>machine_usage := u, id_to_config := cfgs\<rparr>)"
    using loop(1) il assms(3) \<open>length cfgs = length (id_to_config c)\<close>
    by (simp add: base_update_config_def vec_at_in)
  ultimately show ?thesis using loop(2) by blast
qed

lemma wf_updated:
  assumes "wf c"
    and "updating i new (is_running c) (machine_usage c, id_to_config c) k (u, cfgs)"
  shows "wf (c\<lparr>machine_usage := u, id_to_config := cfgs\<rparr>)"
  using assms is_running_cong [of "c\<lparr>machine_usage := u, id_to_config := cfgs\<rparr>" c]
  by (simp add: wf_def updating_def)

subsection \<open>What waiting can change\<close>

text \<open>
  While the main thread waits, jobs finish and their slots become free; nothing else happens to
  the bookkeeping.
\<close>

definition later :: "'z controllerT_scheme \<Rightarrow> 'z controllerT_scheme \<Rightarrow> bool" where
  "later c c' \<longleftrightarrow>
     machines c' = machines c \<and> system_config c' = system_config c \<and>
     id_to_config c' = id_to_config c \<and> id_to_job c' = id_to_job c \<and>
     cmd_counter c' = cmd_counter c \<and> lock_owned c' = lock_owned c \<and>
     (\<forall>j. is_running c' j \<longrightarrow> is_running c j) \<and>
     (\<forall>p. in2 (machine_usage c') p \<longleftrightarrow> in2 (machine_usage c) p) \<and>
     (\<forall>p. get2 (machine_usage c') p = get2 (machine_usage c) p \<or>
          get2 (machine_usage c') p = size_max)"

lemma later_refl [simp]: "later c c"
  by (simp add: later_def)

lemma later_trans: "later a b \<Longrightarrow> later b c \<Longrightarrow> later a c"
  unfolding later_def by metis

lemma later_wakeups [simp]: "later c (c'\<lparr>wakeups := w\<rparr>) = later c c'"
  "later (c\<lparr>wakeups := w\<rparr>) c' = later c c'"
  using is_running_cong [of "c'\<lparr>wakeups := w\<rparr>" c'] is_running_cong [of "c\<lparr>wakeups := w\<rparr>" c]
  by (simp_all add: later_def)

text \<open>A wake-up list that lets every running thread finish.\<close>

definition all_finish :: "'z controllerT_scheme \<Rightarrow> bool" where
  "all_finish c \<longleftrightarrow> (\<forall>t. is_running c t \<longrightarrow> t \<in> set (concat (wakeups c)))"

subsection \<open>The predicates of the waits\<close>

lemma row_is_empty_total:
  "\<forall>s \<in> set ss. s < length row \<Longrightarrow>
     row_is_empty row ss = Inr (\<forall>s \<in> set ss. row ! s = size_max)"
  by (induction ss) (auto simp: vec_at_in)

lemma usage_is_empty_total:
  "shape k u \<Longrightarrow> n \<le> k \<Longrightarrow>
     usage_is_empty n u = Inr (\<forall>row \<in> set u. \<forall>s < n. row ! s = size_max)"
proof (induction u)
  case (Cons row u)
  then have "row_is_empty row [0..<n] = Inr (\<forall>s < n. row ! s = size_max)"
    by (subst row_is_empty_total) (auto simp: shape_def)
  with Cons show ?case by (auto simp: shape_def)
qed simp

lemma usage_empty_iff:
  "shape k u \<Longrightarrow> (\<forall>row \<in> set u. \<forall>s < k. row ! s = size_max) \<longleftrightarrow>
     (\<forall>p. in2 u p \<longrightarrow> get2 u p = size_max)"
  unfolding shape_nth by (auto simp: in2_def get2_def all_set_conv_all_nth)

text \<open>The number of free slots of one machine among the first \<open>n\<close>.\<close>

definition free_slots :: "nat \<Rightarrow> nat list \<Rightarrow> nat" where
  "free_slots n row = length (filter (\<lambda>s. row ! s = size_max) [0..<n])"

lemma allocated_slots_total:
  "\<forall>s \<in> set ss. s < length row \<Longrightarrow> n < limit \<Longrightarrow>
     allocated_slots row limit ss n =
       Inr (min limit (n + length (filter (\<lambda>s. row ! s = size_max) ss)))"
  by (induction ss arbitrary: n) (auto simp: vec_at_in)

lemma resource_counter_total:
  assumes "shape k u" and "length (slots sc) \<le> k" and "slots sc \<noteq> []" and "0 < sph"
    and "acc + sz * sph * length u \<le> size_max" and "slot_size sc = Inr sz"
  shows "resource_counter sc sph u acc = Inr (acc + sz * sph *
    length (filter (\<lambda>row. sph \<le> free_slots (length (slots sc)) row) u))"
  using assms
proof (induction u arbitrary: acc)
  case (Cons row u)
  have alloc: "allocated_slots row sph [0..<length (slots sc)] 0 =
      Inr (min sph (free_slots (length (slots sc)) row))"
    using Cons.prems by (subst allocated_slots_total) (auto simp: shape_def free_slots_def)
  have le: "acc + sz * sph * length u \<le> size_max" "sz * sph \<le> size_max"
    "acc + sz * sph \<le> size_max"
    using Cons.prems(5) by (auto simp: algebra_simps)
  have tail: "shape k u" using Cons.prems(1) by (simp add: shape_def)
  show ?case
  proof (cases "sph \<le> free_slots (length (slots sc)) row")
    case True
    have "acc + sz * sph + sz * sph * length u \<le> size_max"
      using Cons.prems(5) by (simp add: algebra_simps)
    from Cons.IH [OF tail Cons.prems(2,3,4) this Cons.prems(6)] alloc le True Cons.prems(6)
    show ?thesis by (simp add: algebra_simps min_def)
  next
    case False
    from Cons.IH [OF tail Cons.prems(2,3,4) le(1) Cons.prems(6)] alloc False
    show ?thesis by (simp add: min_def)
  qed
qed simp

subsection \<open>What the base class relies on\<close>

text \<open>
  The contract of the virtual functions. Creating and deleting domains and building the command
  leave the bookkeeping alone; an update that returns keeps the invariant and puts the job where
  it was asked to go.
\<close>

locale controller_interface =
  fixes V :: "'z controllerT_scheme virtuals"
  assumes create_book: "create_domain V i c = Inr c' \<Longrightarrow> book c' = book c"
    and delete_book: "delete_domain V i c = Inr c' \<Longrightarrow> book c' = book c"
    and command_book: "generate_command V job i cfg c = Inr (cmd, c') \<Longrightarrow> book c' = book c"
    and update_keeps: "wf c \<Longrightarrow> is_running c i \<Longrightarrow> distinct cfg \<Longrightarrow>
        \<forall>p \<in> set cfg. in2 (machine_usage c) p \<Longrightarrow> update_config V i cfg c = Inr c' \<Longrightarrow>
        wf c' \<and> id_to_config c' ! i = cfg \<and> is_running c' = is_running c"
begin

lemma execute_started:
  assumes "wf c" and "cmd_counter c < size_max" and "execute V job cfg c = Inr (i, c')"
  shows "wf c'" and "i = cmd_counter c" and "cmd_counter c' = Suc i"
    and "is_running c' = (\<lambda>j. j = i \<or> is_running c j)"
    and "id_to_config c' = id_to_config c @ [cfg]" and "id_to_job c' = id_to_job c @ [job]"
    and "machine_usage c' = put_all cfg i (machine_usage c)"
    and "distinct cfg" and "cfg \<noteq> []"
    and "\<forall>p \<in> set cfg. in2 (machine_usage c) p \<and> get2 (machine_usage c) p = size_max"
    and "system_config c' = system_config c" and "machines c' = machines c"
proof -
  let ?c0 = "c\<lparr>id_to_tpool := id_to_tpool c @ [length (thread_pool c)],
    id_to_config := id_to_config c @ [cfg], id_to_job := id_to_job c @ [job]\<rparr>"
  from assms(3) obtain u c1 c2 cmd where ex: "lock_owned c" "cfg \<noteq> []"
    "for_each (occupy_slot (cmd_counter c)) cfg (machine_usage c) = Inr u"
    "create_domain V (cmd_counter c) (?c0\<lparr>machine_usage := u\<rparr>) = Inr c1"
    "generate_command V job (cmd_counter c1) cfg c1 = Inr (cmd, c2)"
    "i = cmd_counter c2" "c' = c2\<lparr>thread_pool := thread_pool c2 @
       [\<lparr>worker_command = cmd, worker_id = cmd_counter c2, worker_state = Running\<rparr>],
       cmd_counter := wrap64 (cmd_counter c2 + 1)\<rparr>"
    by (auto simp: execute_def Let_def split: prod.splits)
  have small: "cmd_counter c \<noteq> size_max" using assms(2) by simp
  from ex(3) have occ: "distinct cfg"
    "\<forall>p \<in> set cfg. in2 (machine_usage c) p \<and> get2 (machine_usage c) p = size_max"
    "u = put_all cfg (cmd_counter c) (machine_usage c)"
    by (simp_all add: occupy_loop [OF small])
  have book: "book c2 = book (?c0\<lparr>machine_usage := u\<rparr>)"
    using create_book [OF ex(4)] command_book [OF ex(5)] by simp
  note fields = book_fields [OF book, simplified]
  note parts = assms(1) [unfolded wf_def]
  show i: "i = cmd_counter c" using ex(6) fields by simp
  show next_i: "cmd_counter c' = Suc i" using ex(7) i fields assms(2) by simp
  have pool: "thread_pool c' = thread_pool c @
      [\<lparr>worker_command = cmd, worker_id = i, worker_state = Running\<rparr>]"
    using ex(6,7) fields by simp
  show running: "is_running c' = (\<lambda>j. j = i \<or> is_running c j)"
    using pool parts i by (auto simp: fun_eq_iff is_running_def nth_append less_Suc_eq)
  show cfgs: "id_to_config c' = id_to_config c @ [cfg]"
    and jobs: "id_to_job c' = id_to_job c @ [job]"
    and usage: "machine_usage c' = put_all cfg i (machine_usage c)"
    and "system_config c' = system_config c" and ms: "machines c' = machines c"
    using ex(7) fields occ(3) i by simp_all
  show "distinct cfg" "cfg \<noteq> []"
    "\<forall>p \<in> set cfg. in2 (machine_usage c) p \<and> get2 (machine_usage c) p = size_max"
    using occ ex(2) by auto
  have "\<not> is_running c i" using wf_running_lt [OF assms(1), of i] i by auto
  from occupied_occupy [OF wf_occupied [OF assms(1)] this _ _ ex(2) occ(1,2)]
  have "occupied (machine_usage c') (id_to_config c') (is_running c')"
    using parts i assms(2) by (simp add: usage cfgs running)
  moreover have "available_slots c' = length (machines c)"
    "id_to_tpool c' = [0..<i] @ [i]"
    using ex(7) fields parts i by simp_all
  moreover have "worker_id (thread_pool c' ! t) = t" if "t < Suc i" for t
    using that parts i pool by (auto simp: nth_append less_Suc_eq)
  ultimately show "wf c'"
    using parts i assms(2) by (simp add: wf_def next_i cfgs jobs usage pool ms)
qed

text \<open>A thread that runs to its end frees exactly the slots of its job.\<close>

lemma run_thread_finished:
  assumes "wf c" and "is_running c t" and "run_thread V callback t (c, s) = Inr (c', s')"
  shows "wf c'" and "is_running c' = (\<lambda>j. is_running c j \<and> j \<noteq> t)"
    and "machine_usage c' = put_all (id_to_config c ! t) size_max (machine_usage c)"
    and "id_to_config c' = id_to_config c" and "id_to_job c' = id_to_job c"
    and "system_config c' = system_config c" and "machines c' = machines c"
    and "cmd_counter c' = cmd_counter c" and "wakeups c' = wakeups c"
    and "lock_owned c' = lock_owned c"
    and "\<exists>c1. book c1 = book (c\<lparr>machine_usage := machine_usage c'\<rparr>) \<and> callback t c1 s = Inr s'"
proof -
  have t: "t < cmd_counter c" using wf_running_lt [OF assms(1,2)] .
  have wid: "worker_id (thread_pool c ! t) = t" using assms(1) t by (simp add: wf_def)
  from assms(2,3) wid obtain c1 c2 c3 u where ex: "tick_timestamp (job_timer t) c = Inr c1"
    "tock_timestamp (job_timer t) c1 = Inr c2" "delete_domain V t c2 = Inr c3"
    "for_each release_slot (id_to_config c3 ! t) (machine_usage c3) = Inr u"
    "callback t (c3\<lparr>machine_usage := u\<rparr>) s = Inr s'"
    "c' = set_thread_state t Finished (c3\<lparr>machine_usage := u\<rparr>)"
    by (auto simp: run_thread_def execute_command_internal_def Let_def)
  have book: "book c3 = book c"
    using book_tick [OF ex(1)] book_tock [OF ex(2)] delete_book [OF ex(3)] by simp
  note fields = book_fields [OF book]
  have wf3: "wf c3" "is_running c3 t"
    using assms(1,2) book_wf [OF book] is_running_cong [of c3 c] fields by simp_all
  have u: "u = put_all (id_to_config c ! t) size_max (machine_usage c)"
    using release_running [OF wf3] ex(4) fields by simp
  show "wf c'" using wf_finish [OF wf3] ex(6) u fields by simp
  show "is_running c' = (\<lambda>j. is_running c j \<and> j \<noteq> t)"
    using is_running_cong [of c3 c] fields(8)
    by (intro ext) (simp add: ex(6) is_running_set_state, simp add: is_running_def)
  show "machine_usage c' = put_all (id_to_config c ! t) size_max (machine_usage c)"
    "id_to_config c' = id_to_config c" "id_to_job c' = id_to_job c"
    "system_config c' = system_config c" "machines c' = machines c"
    "cmd_counter c' = cmd_counter c" "wakeups c' = wakeups c" "lock_owned c' = lock_owned c"
    using ex(6) u fields by simp_all
  have "book (c3\<lparr>machine_usage := u\<rparr>) = book (c\<lparr>machine_usage := machine_usage c'\<rparr>)"
    using book ex(6) by (simp add: book_def)
  with ex(5) show "\<exists>c1. book c1 = book (c\<lparr>machine_usage := machine_usage c'\<rparr>) \<and>
      callback t c1 s = Inr s'" by blast
qed

text \<open>Any number of threads finish.\<close>

lemma run_thread_later:
  assumes "wf c" and "run_thread V callback t (c, s) = Inr (c', s')"
  shows "wf c' \<and> later c c' \<and> wakeups c' = wakeups c"
proof (cases "is_running c t")
  case True
  note run = run_thread_finished [OF assms(1) True assms(2)]
  note occ = occupied_running(4) [OF wf_occupied [OF assms(1)] True]
  have "get2 (machine_usage c') p = (if p \<in> set (id_to_config c ! t) then size_max
      else get2 (machine_usage c) p)" for p
    unfolding run(3) using occ by (intro get2_put_all) blast
  with run show ?thesis by (simp add: later_def)
next
  case False
  with assms show ?thesis by (simp add: run_thread_def)
qed

lemma run_threads_later:
  assumes "for_each (run_thread V callback) ts (c, s) = Inr (c', s')" and "wf c"
  shows "wf c' \<and> later c c' \<and> wakeups c' = wakeups c"
proof -
  have "(\<lambda>st. wf (fst st) \<and> later c (fst st) \<and> wakeups (fst st) = wakeups c) (c', s')"
  proof (rule for_each_invariant [OF assms(1)])
    fix t st st'
    assume "wf (fst st) \<and> later c (fst st) \<and> wakeups (fst st) = wakeups c"
      "run_thread V callback t st = Inr st'"
    then show "wf (fst st') \<and> later c (fst st') \<and> wakeups (fst st') = wakeups c"
      using run_thread_later [of "fst st" callback t "snd st" "fst st'" "snd st'"]
      by (auto intro: later_trans)
  qed (use assms(2) in simp)
  then show ?thesis by simp
qed

lemma wait_loop_later:
  assumes "wait_loop pred (run_thread V callback) wake (c, s) = Inr (c', s')" and "wf c"
  shows "wf c' \<and> later c c' \<and> (\<exists>c1. pred c1 = Inr True \<and> c' = c1\<lparr>wakeups := wakeups c'\<rparr>)"
  using assms
proof (induction wake arbitrary: c s)
  case Nil
  then show ?case
    by (subst (asm) wait_loop.simps) (auto split: if_splits)
next
  case (Cons ts wake)
  from Cons.prems(1) obtain ready where r: "pred c = Inr ready"
    by (subst (asm) wait_loop.simps) auto
  show ?case
  proof (cases ready)
    case True
    with r Cons.prems show ?thesis by (subst (asm) wait_loop.simps) auto
  next
    case False
    with r Cons.prems(1) obtain c1 s1 where step:
      "for_each (run_thread V callback) ts (c, s) = Inr (c1, s1)"
      "wait_loop pred (run_thread V callback) wake (c1, s1) = Inr (c', s')"
      by (subst (asm) wait_loop.simps) auto
    from run_threads_later [OF step(1) Cons.prems(2)] have "wf c1" "later c c1" by auto
    with Cons.IH [OF step(2)] show ?thesis by (auto intro: later_trans)
  qed
qed

lemma wait_until_later:
  assumes "wait_until V callback pred (c, s) = Inr (c', s')" and "wf c"
  shows "wf c' \<and> later (c\<lparr>lock_owned := True\<rparr>) c' \<and>
    (\<exists>c1. pred c1 = Inr True \<and> c' = c1\<lparr>wakeups := wakeups c'\<rparr>)"
proof -
  have "take_lock c = c\<lparr>lock_owned := True\<rparr>" by (simp add: take_lock_def)
  with assms wait_loop_later [of pred callback "wakeups c" "take_lock c" s c' s']
  show ?thesis by (simp add: wait_until_def)
qed

text \<open>\<open>done\<close> returns only when nothing runs any more.\<close>

lemma done_idle:
  assumes "controller_done V callback (c, s) = Inr (c', s')" and "wf c"
    and "length (slots (system_config c)) = 2"
  shows "wf c' \<and> later (c\<lparr>lock_owned := True\<rparr>) c'" "done_called c'"
    "\<And>p. in2 (machine_usage c') p \<Longrightarrow> get2 (machine_usage c') p = size_max"
    "\<not> is_running c' j"
proof -
  from assms(1) obtain c1 where c1:
    "wait_until V callback
       (\<lambda>c. usage_is_empty (length (slots (system_config c))) (machine_usage c)) (c, s) = Inr (c1, s')"
    "c' = c1\<lparr>done_called := True\<rparr>"
    by (auto simp: controller_done_def)
  from wait_until_later [OF c1(1) assms(2)] obtain c2 where
    w: "wf c1" "later (c\<lparr>lock_owned := True\<rparr>) c1"
      "usage_is_empty (length (slots (system_config c2))) (machine_usage c2) = Inr True"
      "c1 = c2\<lparr>wakeups := wakeups c1\<rparr>" by blast
  from w(4) have same: "machine_usage c2 = machine_usage c1" "system_config c2 = system_config c1"
    by (metis controllerT.select_convs(3) controllerT.surjective controllerT.update_convs(17),
        metis controllerT.select_convs(6) controllerT.surjective controllerT.update_convs(17))
  have sh: "shape 2 (machine_usage c1)" using w(1) by (simp add: wf_def)
  have two: "length (slots (system_config c1)) = 2" using w(2) assms(3) by (simp add: later_def)
  have empty: "get2 (machine_usage c1) p = size_max" if "in2 (machine_usage c1) p" for p
    using w(3) usage_is_empty_total [OF sh, of 2] usage_empty_iff [OF sh] same two that
    by (cases p) simp
  show "wf c' \<and> later (c\<lparr>lock_owned := True\<rparr>) c'"
    using w(1,2) c1(2) is_running_cong [of c' c1] by (simp add: later_def)
  show "done_called c'" using c1(2) by simp
  show "get2 (machine_usage c') p = size_max" if "in2 (machine_usage c') p" for p
    using empty that c1(2) by simp
  show "\<not> is_running c' j"
  proof
    assume "is_running c' j"
    then have run: "is_running c1 j" using is_running_cong [of c' c1] c1(2) by simp
    note occ = occupied_running [OF wf_occupied [OF w(1)] run]
    obtain p where p: "p \<in> set (id_to_config c1 ! j)" using occ(2) by (cases "id_to_config c1 ! j") auto
    with occ(4,5) empty have "j = size_max" by metis
    with wf_running_lt [OF w(1) run] w(1) show False by (simp add: wf_def)
  qed
qed

end

subsection \<open>Waiting ends\<close>

lemma job_timer_inject [simp]: "job_timer i = job_timer j \<longleftrightarrow> i = j"
  by (simp add: job_timer_def)

definition fresh_timers :: "'z controllerT_scheme \<Rightarrow> bool" where
  "fresh_timers c \<longleftrightarrow> (\<forall>j. is_running c j \<longrightarrow> job_timer j \<notin> timer_names (timestamps c))"

definition callback_returns ::
  "(nat \<Rightarrow> 'z controllerT_scheme \<Rightarrow> 's \<Rightarrow> 's result) \<Rightarrow> bool" where
  "callback_returns callback \<longleftrightarrow> (\<forall>i c s. \<exists>s'. callback i c s = Inr s')"

lemma tick_timestamp_total:
  assumes "n \<notin> timer_names (timestamps c)"
  shows "\<exists>c'. tick_timestamp n c = Inr c' \<and>
    timer_names (timestamps c') = (if enabled (timestamps c) then insert n (timer_names (timestamps c))
      else timer_names (timestamps c)) \<and> enabled (timestamps c') = enabled (timestamps c)"
  using tick_total [OF assms, of "clock c (clock_reads c)"]
  by (auto simp: tick_timestamp_def read_clock_def)

lemma tock_disabled: "\<not> enabled tm \<Longrightarrow> tock now n tm = Inr tm"
  by (simp add: tock_def)

lemma tock_timestamp_total:
  assumes "enabled (timestamps c) \<Longrightarrow> n \<in> timer_names (timestamps c)"
  shows "\<exists>c'. tock_timestamp n c = Inr c' \<and>
    timer_names (timestamps c') = timer_names (timestamps c) \<and>
    enabled (timestamps c') = enabled (timestamps c)"
proof (cases "enabled (timestamps c)")
  case True
  from tock_total [OF assms [OF this], of "clock c (clock_reads c)"] show ?thesis
    by (auto simp: tock_timestamp_def read_clock_def)
next
  case False
  then show ?thesis by (simp add: tock_timestamp_def read_clock_def tock_disabled)
qed

text \<open>
  A controller whose domains go away without a word, as virtual machines do that stay on. Its
  waits end as soon as the environment has let enough jobs finish.
\<close>

locale quiet_controller = controller_interface V for V :: "'z controllerT_scheme virtuals" +
  assumes delete_total: "\<exists>c'. delete_domain V i c = Inr c' \<and> timestamps c' = timestamps c"
begin

lemma run_thread_returns:
  assumes "wf c" and "fresh_timers c" and "\<forall>cmd. system_call c cmd \<noteq> -1"
    and "callback_returns callback"
  shows "\<exists>c' s'. run_thread V callback t (c, s) = Inr (c', s') \<and> fresh_timers c' \<and>
    (\<forall>j. is_running c' j \<longleftrightarrow> is_running c j \<and> j \<noteq> t) \<and> system_call c' = system_call c"
proof (cases "is_running c t")
  case False
  with assms(2) show ?thesis by (auto simp: run_thread_def)
next
  case True
  have t: "t < cmd_counter c" using wf_running_lt [OF assms(1) True] .
  have wid: "worker_id (thread_pool c ! t) = t" using assms(1) t by (simp add: wf_def)
  have "job_timer t \<notin> timer_names (timestamps c)" using assms(2) True by (simp add: fresh_timers_def)
  from tick_timestamp_total [OF this] obtain c1 where c1: "tick_timestamp (job_timer t) c = Inr c1"
    "timer_names (timestamps c1) \<subseteq> insert (job_timer t) (timer_names (timestamps c))"
    "enabled (timestamps c1) \<Longrightarrow> job_timer t \<in> timer_names (timestamps c1)"
    by (auto split: if_splits)
  from tock_timestamp_total [OF c1(3)] obtain c2 where c2: "tock_timestamp (job_timer t) c1 = Inr c2"
    "timer_names (timestamps c2) = timer_names (timestamps c1)" by auto
  from delete_total [of t c2] obtain c3 where c3: "delete_domain V t c2 = Inr c3"
    "timestamps c3 = timestamps c2" by auto
  have book: "book c3 = book c"
    using book_tick [OF c1(1)] book_tock [OF c2(1)] delete_book [OF c3(1)] by simp
  note fields = book_fields [OF book] book_fields [OF book_tick [OF c1(1)]]
  have wf3: "wf c3" "is_running c3 t"
    using assms(1) True book_wf [OF book] is_running_cong [of c3 c] fields by simp_all
  let ?u = "put_all (id_to_config c3 ! t) size_max (machine_usage c3)"
  obtain s' where s': "callback t (c3\<lparr>machine_usage := ?u\<rparr>) s = Inr s'"
    using assms(4) unfolding callback_returns_def by blast
  let ?c' = "set_thread_state t Finished (c3\<lparr>machine_usage := ?u\<rparr>)"
  have tl: "t < length (id_to_config c3)" using wf3(1) t fields by (simp add: wf_def)
  have "run_thread V callback t (c, s) = Inr (?c', s')"
    using True wid c1(1) c2(1) c3(1) s' release_running [OF wf3] assms(3) tl
      book_fields(12) [OF book_tick [OF c1(1)]]
    by (simp add: run_thread_def execute_command_internal_def Let_def vec_at_in)
  moreover have run: "is_running ?c' j \<longleftrightarrow> is_running c j \<and> j \<noteq> t" for j
    using is_running_cong [of c3 c] fields(8)
    by (simp add: is_running_set_state) (simp add: is_running_def)
  moreover have "fresh_timers ?c'"
    using assms(2) run c1(2) c2(2) c3(2) unfolding fresh_timers_def by fastforce
  ultimately show ?thesis using fields by auto
qed

lemma run_threads_return:
  assumes "wf c" and "fresh_timers c" and "\<forall>cmd. system_call c cmd \<noteq> -1"
    and "callback_returns callback"
  shows "\<exists>c' s'. for_each (run_thread V callback) ts (c, s) = Inr (c', s') \<and> wf c' \<and>
    fresh_timers c' \<and> (\<forall>j. is_running c' j \<longleftrightarrow> is_running c j \<and> j \<notin> set ts) \<and>
    system_call c' = system_call c"
  using assms(1-3)
proof (induction ts arbitrary: c s)
  case Nil
  then show ?case by simp
next
  case (Cons t ts)
  from run_thread_returns [OF Cons.prems assms(4), where t = t and s = s] obtain c1 s1 where
    1: "run_thread V callback t (c, s) = Inr (c1, s1)" "fresh_timers c1"
      "\<forall>j. is_running c1 j \<longleftrightarrow> is_running c j \<and> j \<noteq> t" "system_call c1 = system_call c" by blast
  have wf1: "wf c1" using run_thread_later [OF Cons.prems(1) 1(1)] by simp
  from Cons.IH [OF wf1 1(2), of s1] 1(4) Cons.prems(3) obtain c2 s2 where
    2: "for_each (run_thread V callback) ts (c1, s1) = Inr (c2, s2)" "wf c2" "fresh_timers c2"
      "\<forall>j. is_running c2 j \<longleftrightarrow> is_running c1 j \<and> j \<notin> set ts" "system_call c2 = system_call c1"
    by auto
  with 1 show ?case by (intro exI [of _ c2] exI [of _ s2]) auto
qed

text \<open>A wait for a condition that holds once nothing runs any more.\<close>

lemma wait_loop_returns:
  assumes "wf c" and "fresh_timers c" and "\<forall>cmd. system_call c cmd \<noteq> -1"
    and "callback_returns callback"
    and "\<And>c. wf c \<Longrightarrow> system_config c = sc \<Longrightarrow> \<exists>b. pred c = Inr b"
    and "\<And>c. wf c \<Longrightarrow> system_config c = sc \<Longrightarrow> machines c = ms \<Longrightarrow> \<forall>j. \<not> is_running c j \<Longrightarrow>
      pred c = Inr True"
    and "\<forall>t. is_running c t \<longrightarrow> t \<in> set (concat wake)"
    and "system_config c = sc" and "machines c = ms"
  shows "\<exists>c' s'. wait_loop pred (run_thread V callback) wake (c, s) = Inr (c', s')"
  using assms(1-3,7-9)
proof (induction wake arbitrary: c s)
  case Nil
  then have "pred c = Inr True" using assms(6) by auto
  then show ?case by (subst wait_loop.simps) simp
next
  case (Cons ts wake)
  from assms(5) [OF Cons.prems(1,5)] obtain b where b: "pred c = Inr b" by auto
  from run_threads_return [OF Cons.prems(1-3) assms(4), where ts = ts and s = s] obtain c1 s1 where
    1: "for_each (run_thread V callback) ts (c, s) = Inr (c1, s1)" "wf c1" "fresh_timers c1"
      "\<forall>j. is_running c1 j \<longleftrightarrow> is_running c j \<and> j \<notin> set ts" "system_call c1 = system_call c"
    by blast
  from run_threads_later [OF 1(1) Cons.prems(1)] Cons.prems(5,6)
  have "system_config c1 = sc" "machines c1 = ms" by (auto simp: later_def)
  moreover have "\<forall>t. is_running c1 t \<longrightarrow> t \<in> set (concat wake)"
    using 1(4) Cons.prems(4) by auto
  ultimately obtain c2 s2 where
    "wait_loop pred (run_thread V callback) wake (c1, s1) = Inr (c2, s2)"
    using Cons.IH [OF 1(2,3), of s1] 1(5) Cons.prems(3) by auto
  with b 1(1) show ?case by (subst wait_loop.simps) (cases b; simp)
qed

lemma done_returns:
  assumes "wf c" and "fresh_timers c" and "\<forall>cmd. system_call c cmd \<noteq> -1"
    and "callback_returns callback"
    and "length (slots (system_config c)) = 2" and "all_finish c"
  shows "\<exists>c' s'. controller_done V callback (c, s) = Inr (c', s')"
proof -
  let ?pred = "\<lambda>c. usage_is_empty (length (slots (system_config c))) (machine_usage c)"
  let ?c = "take_lock c"
  have pred: "?pred d = Inr (\<forall>row \<in> set (machine_usage d). \<forall>s < 2. row ! s = size_max)"
    if "wf d" "system_config d = system_config c" for d :: "'z controllerT_scheme"
    using that assms(5) usage_is_empty_total [of 2 "machine_usage d" 2] by (simp add: wf_def)
  have idle: "?pred d = Inr True" if "wf d" "system_config d = system_config c" "\<forall>j. \<not> is_running d j"
    for d :: "'z controllerT_scheme"
  proof -
    have "get2 (machine_usage d) p = size_max" if "in2 (machine_usage d) p" for p
      using occupied_slot(1) [OF wf_occupied [OF \<open>wf d\<close>] that] \<open>\<forall>j. \<not> is_running d j\<close> by blast
    with pred [OF that(1,2)] usage_empty_iff [of 2 "machine_usage d"] that(1) show ?thesis
      by (simp add: wf_def)
  qed
  have t: "?c = c\<lparr>lock_owned := True\<rparr>" by (simp add: take_lock_def)
  have "wf ?c" "fresh_timers ?c" "\<forall>cmd. system_call ?c cmd \<noteq> -1"
    "\<forall>t. is_running ?c t \<longrightarrow> t \<in> set (concat (wakeups c))" "system_config ?c = system_config c"
    using assms(1-3,6) is_running_cong [of ?c c] by (auto simp: t fresh_timers_def all_finish_def)
  with wait_loop_returns [of ?c callback "system_config c" ?pred "machines ?c" "wakeups c" s]
  obtain c' s' where "wait_loop ?pred (run_thread V callback) (wakeups c) (?c, s) = Inr (c', s')"
    using assms(4) pred idle by blast
  then show ?thesis by (simp add: controller_done_def wait_until_def)
qed

end

end
