(* ===== verification/Controller_Properties.thy ===== *)
theory Controller_Properties
  imports Controller_Invariant
begin

section \<open>Properties of the controller's operations\<close>

text \<open>
  What holds of the operations of \<open>controllerT\<close> whatever the virtual functions do: the
  exchange of slots in \<open>update_config\<close>, the condition \<open>wait_for_ressource\<close> waits for, the
  opposing configuration, and the messages of freezing and thawing.
\<close>

subsection \<open>Moving a job\<close>

text \<open>
  C3: \<open>update_config\<close> moves a running job to any slots it is asked to, free or not, as long as
  they are different and exist: it returns, the job then has exactly the new configuration, no
  other job gains or loses a slot, slots outside the two configurations are not touched, and
  the usage table still agrees with the configurations.
\<close>

theorem update_config_moves_job:
  assumes "wf c" and "is_running c i" and "length new = length (id_to_config c ! i)"
    and "distinct new" and "\<forall>p \<in> set new. in2 (machine_usage c) p"
  shows "\<exists>c'. base_update_config i new c = Inr c' \<and> wf c' \<and> id_to_config c' ! i = new \<and>
    (\<forall>j. is_running c' j = is_running c j) \<and>
    (\<forall>j < cmd_counter c. length (id_to_config c' ! j) = length (id_to_config c ! j)) \<and>
    (\<forall>p. p \<notin> set (id_to_config c ! i) \<union> set new \<longrightarrow>
       get2 (machine_usage c') p = get2 (machine_usage c) p)"
proof -
  from base_update_config_ok [OF assms] obtain u cfgs where
    up: "base_update_config i new c = Inr (c\<lparr>machine_usage := u, id_to_config := cfgs\<rparr>)"
    "updating i new (is_running c) (machine_usage c, id_to_config c) (length new) (u, cfgs)"
    "cfgs ! i = new" by blast
  have n: "length (id_to_config c) = cmd_counter c" using assms(1) by (simp add: wf_def)
  let ?c' = "c\<lparr>machine_usage := u, id_to_config := cfgs\<rparr>"
  have "\<forall>j < cmd_counter c. length (cfgs ! j) = length (id_to_config c ! j)"
    "\<forall>p. p \<notin> set (id_to_config c ! i) \<union> set new \<longrightarrow> get2 u p = get2 (machine_usage c) p"
    using up(2) n by (auto simp: updating_def)
  with up wf_updated [OF assms(1) up(2)] is_running_cong [of ?c' c] show ?thesis
    by (intro exI [of _ ?c']) simp
qed

text \<open>Two machines with two slots each; job 0 runs on both machines, job 1 on one of them.\<close>

definition example_job :: jobT where
  "example_job = \<lparr>nprocs = 4, threads_per_proc = 1, command = ''./a.out'', uses_sr_protocol = False\<rparr>"

definition example_config :: system_configT where
  "example_config = \<lparr>slots = [\<lparr>cpus = [0, 1], mems = [0]\<rparr>, \<lparr>cpus = [2, 3], mems = [1]\<rparr>]\<rparr>"

definition example_controller :: controllerT where
  "example_controller =
     \<lparr>machines = [''n1'', ''n2''], available_slots = 2,
      machine_usage = [[0, 1], [0, size_max]],
      id_to_config = [[(0, 0), (1, 0)], [(0, 1)]], id_to_job = [example_job, example_job],
      system_config = example_config, cmd_counter = 2, lock_owned = True,
      thread_pool = [\<lparr>worker_command = ''a'', worker_id = 0, worker_state = Running\<rparr>,
                     \<lparr>worker_command = ''b'', worker_id = 1, worker_state = Running\<rparr>],
      id_to_tpool = [0, 1],
      comm = \<lparr>default_subscribe_topic = '''', default_publish_topic = '''', connected = True,
        subscriptions = [(''fast/migfra/n1/result'', Sub_get 2 []),
                         (''fast/migfra/n2/result'', Sub_get 2 [])],
        published = [], incoming = [Ev_message ''fast/migfra/n1/result'' ''ok'',
          Ev_message ''fast/migfra/n2/result'' ''ok''], mosq_rcs = []\<rparr>,
      timestamps = new_time_measurement True ''timestamps'' 0, done_called = False,
      clock = int, clock_reads = 1, system_call = (\<lambda>_. 0), wakeups = [[1], [0]], files = []\<rparr>"

lemma example_running:
  "is_running example_controller j \<longleftrightarrow> j = 0 \<or> j = 1"
  by (auto simp: is_running_def example_controller_def less_Suc_eq)

lemma all_less_two: "(\<forall>t < 2. P t) \<longleftrightarrow> P 0 \<and> P (1 :: nat)"
  by (auto simp: less_Suc_eq numeral_2_eq_2)

lemma in2_example:
  "in2 [[a, b], [c, d]] p \<longleftrightarrow> p = (0, 0) \<or> p = (0, 1) \<or> p = (1, 0) \<or> p = (1, 1)"
  by (cases p) (auto simp: in2_def less_Suc_eq nth_Cons split: nat.splits)

lemma example_occupied:
  "occupied (machine_usage example_controller) (id_to_config example_controller)
     (is_running example_controller)"
proof -
  have run: "is_running example_controller = (\<lambda>j. j = 0 \<or> j = 1)"
    by (simp add: fun_eq_iff example_running)
  show ?thesis
    unfolding occupied_def run
  proof (intro conjI allI impI)
    fix p
    assume "in2 (machine_usage example_controller) p"
      "get2 (machine_usage example_controller) p \<noteq> size_max"
    then have "p = (0, 0) \<or> p = (0, 1) \<or> p = (1, 0)"
      by (auto simp: example_controller_def in2_example get2_def)
    then show "get2 (machine_usage example_controller) p = 0 \<or>
        get2 (machine_usage example_controller) p = 1"
      "p \<in> set (id_to_config example_controller ! get2 (machine_usage example_controller) p)"
      by (auto simp: example_controller_def get2_def)
  qed (auto simp: example_controller_def in2_def get2_def)
qed

lemma example_wf: "wf example_controller"
proof -
  have "id_to_tpool example_controller = [0..<cmd_counter example_controller]"
    by (simp add: example_controller_def upt_rec)
  moreover have "\<forall>t < cmd_counter example_controller.
      worker_id (thread_pool example_controller ! t) = t"
    by (simp add: example_controller_def all_less_two)
  moreover have "shape 2 (machine_usage example_controller)"
    "length (machine_usage example_controller) = length (machines example_controller)"
    "available_slots example_controller = length (machines example_controller)"
    "cmd_counter example_controller \<le> size_max"
    "length (id_to_config example_controller) = cmd_counter example_controller"
    "length (id_to_job example_controller) = cmd_counter example_controller"
    "length (thread_pool example_controller) = cmd_counter example_controller"
    by (simp_all add: example_controller_def shape_def size_max_def)
  ultimately show ?thesis using example_occupied by (simp only: wf_def simp_thms)
qed

theorem update_config_moves_job_witness:
  "\<exists>c'. base_update_config 0 [(0, 1), (1, 1)] example_controller = Inr c' \<and> wf c' \<and>
     id_to_config c' ! 0 = [(0, 1), (1, 1)]"
proof -
  have "\<forall>p \<in> set [(0, 1), (1, 1)]. in2 (machine_usage example_controller) p"
    by (simp add: example_controller_def in2_def)
  moreover have "length (id_to_config example_controller ! 0) = 2"
    by (simp add: example_controller_def)
  ultimately show ?thesis
    using update_config_moves_job [of example_controller 0 "[(0, 1), (1, 1)]"] example_wf
      example_running [of 0] by auto
qed

subsection \<open>Free slots\<close>

lemma resource_available_ok:
  assumes "wf c" and "slots (system_config c) \<noteq> []" and "length (slots (system_config c)) \<le> 2"
    and "0 < sph" and "slot_size (system_config c) = Inr sz"
    and "sz * sph * length (machines c) \<le> size_max"
  shows "resource_available requested sph c = Inr (requested \<le> sz * sph *
    card {m. m < length (machines c) \<and>
      sph \<le> free_slots (length (slots (system_config c))) (machine_usage c ! m)})"
proof -
  let ?n = "length (slots (system_config c))"
  have "0 + sz * sph * length (machine_usage c) \<le> size_max"
    using assms(1,6) by (simp add: wf_def)
  from resource_counter_total [OF _ assms(3,2,4) this assms(5)] assms(1)
  have "resource_counter (system_config c) sph (machine_usage c) 0 =
      Inr (sz * sph * length (filter (\<lambda>row. sph \<le> free_slots ?n row) (machine_usage c)))"
    by (simp add: wf_def)
  moreover have "length (filter (\<lambda>row. sph \<le> free_slots ?n row) (machine_usage c)) =
      card {m. m < length (machines c) \<and> sph \<le> free_slots ?n (machine_usage c ! m)}"
    using assms(1) by (simp add: length_filter_conv_card wf_def)
  ultimately show ?thesis by (simp add: resource_available_def)
qed

text \<open>
  C15: \<open>wait_for_ressource\<close> waits until the machines that have at least \<open>slots_per_host\<close> free
  slots, counted with that many slots each, offer the requested number of processors.
\<close>

theorem resource_available_iff:
  assumes "wf c" and "slots (system_config c) \<noteq> []" and "length (slots (system_config c)) \<le> 2"
    and "0 < sph" and "slot_size (system_config c) = Inr sz"
    and "sz * sph * length (machines c) \<le> size_max"
  shows "resource_available requested sph c = Inr (requested \<le> sz * sph *
    card {m. m < length (machines c) \<and>
      sph \<le> free_slots (length (slots (system_config c))) (machine_usage c ! m)})"
  using assms by (rule resource_available_ok)

theorem resource_available_iff_witness:
  "resource_available 2 1 example_controller = Inr True \<and>
   resource_available 3 1 example_controller = Inr False"
proof -
  have "{m. m < length (machines example_controller) \<and>
      1 \<le> free_slots (length (slots (system_config example_controller)))
        (machine_usage example_controller ! m)} = {1}"
    by (auto simp: example_controller_def example_config_def free_slots_def less_Suc_eq size_max_def)
  moreover have "slot_size (system_config example_controller) = Inr 2"
    "slots (system_config example_controller) \<noteq> []"
    "length (slots (system_config example_controller)) = 2"
    "length (machines example_controller) = 2"
    by (simp_all add: example_controller_def example_config_def slot_size_def)
  ultimately show ?thesis
    using resource_available_iff [OF example_wf, of 1 2] by (simp add: size_max_def)
qed

subsection \<open>The opposing configuration\<close>

text \<open>
  C28: the opposing configuration of a job has, entry by entry, the same machine and the other
  slot, and the opposite of the opposite is the configuration itself. A job that has only one
  slot of each machine does not occupy its opposing configuration.
\<close>

theorem opposing_config_other_slot:
  assumes "wf c" and "is_running c i" and "length (slots (system_config c)) = 2"
  shows "\<exists>cfg. generate_opposing_config c i = Inr cfg \<and> length cfg = length (id_to_config c ! i) \<and>
    (\<forall>k < length cfg. fst (cfg ! k) = fst (id_to_config c ! i ! k) \<and>
       snd (cfg ! k) = 1 - snd (id_to_config c ! i ! k)) \<and>
    generate_opposing_config (c\<lparr>id_to_config := (id_to_config c)[i := cfg]\<rparr>) i =
      Inr (id_to_config c ! i) \<and>
    (distinct (map fst (id_to_config c ! i)) \<longrightarrow>
       (\<forall>p \<in> set cfg. in2 (machine_usage c) p \<and> get2 (machine_usage c) p \<noteq> i))"
proof -
  let ?cfg = "id_to_config c ! i"
  let ?other = "\<lambda>e. (fst e :: nat, wrap64 (snd e + 1) mod 2)"
  note occ = occupied_running [OF wf_occupied [OF assms(1)] assms(2)]
  have sh: "shape 2 (machine_usage c)" using assms(1) by (simp add: wf_def)
  have slot: "snd e = 0 \<or> snd e = 1" if "e \<in> set ?cfg" for e
    using occ(4) [OF that] in2_shape [OF sh] by auto
  have opp: "?other e = (fst e, 1 - snd e)" if "e \<in> set ?cfg" for e
    using slot [OF that] by (auto simp: size_max_def)
  have gen: "generate_opposing_config c i = Inr (map ?other ?cfg)"
    using occ(1) assms(3) by (simp add: generate_opposing_config_def)
  have twice: "map ?other (map ?other ?cfg) = ?cfg"
  proof -
    have "(?other \<circ> ?other) e = e" if "e \<in> set ?cfg" for e
      using slot [OF that] by (auto simp: prod_eq_iff size_max_def)
    then have "map (?other \<circ> ?other) ?cfg = ?cfg" by (rule map_idI)
    then show ?thesis by (simp only: map_map)
  qed
  have again: "generate_opposing_config (c\<lparr>id_to_config := (id_to_config c)[i := map ?other ?cfg]\<rparr>) i =
      Inr ?cfg"
    using occ(1) assms(3) twice by (simp add: generate_opposing_config_def)
  have free: "in2 (machine_usage c) p \<and> get2 (machine_usage c) p \<noteq> i"
    if "distinct (map fst ?cfg)" "p \<in> set (map ?other ?cfg)" for p
  proof -
    from that(2) obtain e where e: "e \<in> set ?cfg" "p = (fst e, 1 - snd e)" using opp by auto
    have "in2 (machine_usage c) p"
      using occ(4) [OF e(1)] slot [OF e(1)] in2_shape [OF sh] e(2) by auto
    moreover have "p \<notin> set ?cfg"
    proof
      assume "p \<in> set ?cfg"
      with that(1) e have "p = e" by (auto simp: distinct_map inj_on_def)
      with e(2) slot [OF e(1)] show False by (cases e) auto
    qed
    moreover have "i \<noteq> size_max" using wf_running_lt [OF assms(1,2)] assms(1) by (simp add: wf_def)
    ultimately show ?thesis
      using occupied_slot(2) [OF wf_occupied [OF assms(1)]] by metis
  qed
  show ?thesis
    using gen again free opp by (intro exI [of _ "map ?other ?cfg"]) (auto simp: nth_mem)
qed

theorem opposing_config_other_slot_witness:
  "\<exists>cfg. generate_opposing_config example_controller 0 = Inr cfg \<and> length cfg = 2 \<and>
     fst (cfg ! 0) = 0 \<and> snd (cfg ! 0) = 1"
proof -
  have "length (slots (system_config example_controller)) = 2"
    "id_to_config example_controller ! 0 = [(0, 0), (1, 0)]"
    by (simp_all add: example_controller_def example_config_def)
  with opposing_config_other_slot [OF example_wf, of 0] example_running [of 0] show ?thesis
    by force
qed

subsection \<open>Suspend and resume messages\<close>

text \<open>A reply the code accepts, whatever container it is read into.\<close>

definition acceptable_reply :: "yaml_lib \<Rightarrow> string \<Rightarrow> bool" where
  "acceptable_reply Y p \<longleftrightarrow> (\<forall>response. \<exists>r x. result_container_from_string Y response p = Inr r \<and>
     front_result r = Inr x \<and> (status x = ''success'' \<or> details x \<noteq> not_running_details))"

definition occupied_elems :: "'z controllerT_scheme \<Rightarrow> execute_config \<Rightarrow> execute_config" where
  "occupied_elems c config = filter (\<lambda>e. get2 (machine_usage c) e \<noteq> size_max) config"

text \<open>The replies \<open>ps\<close>, one for each occupied slot, are what the result topics hold next.\<close>

definition replies_pending ::
  "'z controllerT_scheme \<Rightarrow> execute_config \<Rightarrow> string list \<Rightarrow> (string \<Rightarrow> string list) \<Rightarrow> bool" where
  "replies_pending c es ps rest \<longleftrightarrow> ready (comm c) \<and> length ps = length es \<and>
     (\<forall>e \<in> set es. result_topic (machines c ! fst e) \<in> subscribed (comm c)) \<and>
     (\<forall>t \<in> subscribed (comm c). pending (comm c) t =
        map snd (filter (\<lambda>(e, p). result_topic (machines c ! fst e) = t) (zip es ps)) @ rest t)"

lemma suspend_resume_ok:
  assumes cfg: "\<And>e. e \<in> set config \<Longrightarrow> in2 (machine_usage c) e \<and> fst e < length (machines c)"
    and dom: "\<And>e. e \<in> set (occupied_elems c config) \<Longrightarrow> domain_name V e c = Inr (dn e)"
    and node: "\<And>e. emit_task_container (new_task_container\<lparr>tasks := [mk (dn e)]\<rparr>) = Inr (nd e)"
    and replies: "replies_pending c (occupied_elems c config) ps rest"
    and accept: "\<And>p. p \<in> set ps \<Longrightarrow> acceptable_reply Y p"
  shows "\<exists>m. suspend_resume_config Y V mk config c = Inr (c\<lparr>comm := m\<rparr>) \<and> ready m \<and>
    subscribed m = subscribed (comm c) \<and>
    published m = published (comm c) @ map (\<lambda>e. (task_topic (machines c ! fst e), to_string Y (nd e)))
      (occupied_elems c config) \<and>
    (\<forall>t \<in> subscribed (comm c). pending m t = rest t)"
proof -
  let ?occ = "occupied_elems c config"
  let ?P = "\<lambda>e. get2 (machine_usage c) e \<noteq> size_max"
  let ?send = "\<lambda>e. send_message (to_string Y (nd e)) (task_topic (machines c ! fst e))"
  let ?use = "\<lambda>e p response. rbind (result_container_from_string Y response p) (\<lambda>response.
      rbind (front_result response) (\<lambda>r.
      if status r \<noteq> ''success''
      then rbind (assert_that (details r \<noteq> not_running_details) ''domain is not running'')
        (\<lambda>_. Inr response)
      else Inr response))"
  let ?f = "\<lambda>(e :: execute_config_elemT) p response. projr (result_container_from_string Y response p)"
  let ?recv = "\<lambda>e (r, m). rbind (get_message (result_topic (machines c ! fst e)) m) (\<lambda>(p, m').
      rbind (?use e p r) (\<lambda>r'. Inr (r', m')))"
  have occ: "e \<in> set config" "?P e" if "e \<in> set ?occ" for e
    using that by (auto simp: occupied_elems_def)
  have "for_each (request_of Y V mk c) config (comm c) = for_each ?send ?occ (comm c)"
    unfolding occupied_elems_def
  proof (rule for_each_filter)
    fix e m assume e: "e \<in> set config"
    note in_e = cfg [OF e]
    show "request_of Y V mk c e m = (if ?P e then ?send e m else Inr m)"
    proof (cases "?P e")
      case True
      with e have "e \<in> set ?occ" by (simp add: occupied_elems_def)
      from dom [OF this] node [of e] in_e True show ?thesis
        by (simp add: request_of_def at2_in vec_at_in task_container_to_string_def)
    qed (use in_e in \<open>simp add: request_of_def at2_in\<close>)
  qed
  moreover obtain m1 where m1: "for_each ?send ?occ (comm c) = Inr m1" "ready m1"
    "subscribed m1 = subscribed (comm c)" "pending m1 = pending (comm c)"
    "published m1 = published (comm c) @
      map (\<lambda>e. (task_topic (machines c ! fst e), to_string Y (nd e))) ?occ"
    using mb.send_each [of "comm c" ?occ "\<lambda>e. task_topic (machines c ! fst e)" "\<lambda>e. to_string Y (nd e)"]
      replies by (auto simp: replies_pending_def task_topic_def)
  moreover have "for_each (reply_of Y c) config (r, m) = for_each ?recv ?occ (r, m)" for r m
    unfolding occupied_elems_def
  proof (rule for_each_filter)
    fix e st assume e: "e \<in> set config"
    note in_e = cfg [OF e]
    show "reply_of Y c e st = (if ?P e then ?recv e st else Inr st)"
      using in_e by (cases st) (auto simp: reply_of_def at2_in vec_at_in rbind_assoc split_def
          intro!: rbind_cong)
  qed
  moreover have "\<exists>m2. for_each ?recv ?occ (r, m1) = Inr (fold (\<lambda>(x, p). ?f x p) (zip ?occ ps) r, m2) \<and>
      ready m2 \<and> subscribed m2 = subscribed m1 \<and> published m2 = published m1 \<and>
      (\<forall>t \<in> subscribed m1. pending m2 t = rest t)" for r
  proof (rule mb.recv_each [OF m1(2)])
    fix e p response assume "(e, p) \<in> set (zip ?occ ps)"
    then have "acceptable_reply Y p" using accept by (auto dest: set_zip_rightD)
    then obtain q x where "result_container_from_string Y response p = Inr q"
      "front_result q = Inr x" "status x = ''success'' \<or> details x \<noteq> not_running_details"
      unfolding acceptable_reply_def by blast
    then show "?use e p response = Inr (?f e p response)" by auto
  qed (use replies m1 in \<open>auto simp: replies_pending_def\<close>)
  then obtain m2 where "for_each ?recv ?occ (new_result_container, m1) =
      Inr (fold (\<lambda>(x, p). ?f x p) (zip ?occ ps) new_result_container, m2)"
    "ready m2" "subscribed m2 = subscribed m1" "published m2 = published m1"
    "\<forall>t \<in> subscribed m1. pending m2 t = rest t" by blast
  ultimately show ?thesis
    by (intro exI [of _ m2]) (simp add: suspend_resume_config_def)
qed

text \<open>
  Freezing the jobs opposite to a running job sends one suspend message for every occupied
  slot of the opposing configuration, in its order, to the machine of that slot and for the
  domain that runs in it, skips the empty slots, and takes exactly one reply for each message;
  the bookkeeping and the timers stay as they are.
\<close>

lemma freeze_opposing_ok:
  assumes "wf c" and "is_running c i" and "generate_opposing_config c i = Inr cfg"
    and "\<forall>e \<in> set (occupied_elems c cfg). domain_name V e c = Inr (dn e)"
    and "\<forall>e. emit_task_container (new_task_container\<lparr>tasks := [suspend_task (dn e)]\<rparr>) = Inr (nd e)"
    and "replies_pending c (occupied_elems c cfg) ps rest"
    and "\<forall>p \<in> set ps. acceptable_reply Y p"
  shows "\<exists>m. freeze_opposing Y V i c = Inr (c\<lparr>comm := m\<rparr>) \<and>
    published m = published (comm c) @ map (\<lambda>e. (task_topic (machines c ! fst e), to_string Y (nd e)))
      (occupied_elems c cfg) \<and>
    (\<forall>t \<in> subscribed (comm c). pending m t = rest t)"
proof -
  have "in2 (machine_usage c) e \<and> fst e < length (machines c)" if "e \<in> set cfg" for e
  proof -
    have two: "length (slots (system_config c)) = 2"
      and cfg: "cfg = map (\<lambda>e. (fst e, wrap64 (snd e + 1) mod 2)) (id_to_config c ! i)"
      using assms(3) by (auto simp: generate_opposing_config_def)
    from that cfg obtain e' where e: "e' \<in> set (id_to_config c ! i)"
      "e = (fst e', wrap64 (snd e' + 1) mod 2)" by auto
    then have e': "e' \<in> set (id_to_config c ! i)" "fst e = fst e'" "snd e < 2" by simp_all
    have sh: "shape 2 (machine_usage c)" "length (machine_usage c) = length (machines c)"
      using assms(1) by (simp_all add: wf_def)
    from occupied_running(4) [OF wf_occupied [OF assms(1)] assms(2) e'(1)]
    show ?thesis using in2_shape [OF sh(1)] sh(2) e'(2,3) by auto
  qed
  from suspend_resume_ok [OF this, of cfg V dn "\<lambda>d. suspend_task d" nd ps rest Y] assms(3-7)
  show ?thesis by (auto simp: freeze_opposing_def)
qed

end
