(* ===== verification/Controller_Cgroup.thy ===== *)
theory Controller_Cgroup
  imports Controller_Properties "HOL-Library.Multiset"
begin

section \<open>The controller for control groups\<close>

text \<open>
  \<open>cgroup_controller\<close> (\<open>src/controller_cgroup.cpp\<close>): a job's domain is a control group on
  each of its machines, created before the job starts and deleted when it ends. The tasks for
  the machines are collected in an unordered map from machine index to message, here an
  association list; \<open>order\<close> is the order in which the map is traversed, which the language
  leaves open. The hosts file of a job is an entry of \<open>files\<close>; that it can be opened is
  taken for granted. The sorted copy of the configuration that \<open>generate_command\<close> makes is
  never read and is left out.
\<close>

subsection \<open>Creating and deleting the groups\<close>

definition start_of_slot :: "string \<Rightarrow> slotT \<Rightarrow> Start" where
  "start_of_slot name slot = new_start
     \<lparr>start_vm_name := set_value (start_vm_name new_start) name,
      start_vcpu_map := set_value (start_vcpu_map new_start) [cpus slot],
      start_memnode_map := set_value (start_memnode_map new_start) [mems slot]\<rparr>"

text \<open>A machine that has an entry already: append to the first list of both maps.\<close>

definition append_slot :: "slotT \<Rightarrow> Start \<Rightarrow> Start result" where
  "append_slot slot s =
     rbind (get_value (start_vcpu_map s)) (\<lambda>vm.
     rbind (vec_at vm 0) (\<lambda>cs.
     rbind (get_value (start_memnode_map s)) (\<lambda>mm.
     rbind (vec_at mm 0) (\<lambda>ns.
     Inr (s\<lparr>start_vcpu_map := set_value (start_vcpu_map s) (vm[0 := cs @ cpus slot]),
            start_memnode_map := set_value (start_memnode_map s) (mm[0 := ns @ mems slot])\<rparr>)))))"

type_synonym task_map = "(nat \<times> Task_container) list"

definition append_to_container :: "slotT \<Rightarrow> Task_container \<Rightarrow> Task_container result" where
  "append_to_container slot tc =
     (case tasks tc of
        Start_task s # ts \<Rightarrow>
          rbind (append_slot slot s) (\<lambda>s. Inr (tc\<lparr>tasks := Start_task s # ts\<rparr>))
      | _ \<Rightarrow> Inl (Undefined_behaviour ''first task is not a start task''))"

definition add_start ::
  "system_configT \<Rightarrow> string \<Rightarrow> execute_config_elemT \<Rightarrow> task_map \<Rightarrow> task_map result" where
  "add_start sc name e m =
     rbind (slot_conf sc (snd e)) (\<lambda>slot.
     case map_of m (fst e) of
       Some tc \<Rightarrow> rbind (append_to_container slot tc) (\<lambda>tc. Inr (AList.update (fst e) tc m))
     | None \<Rightarrow>
         Inr (emplace (fst e)
           (new_task_container\<lparr>tasks := [Start_task (start_of_slot name slot)]\<rparr>) m))"

definition traverse :: "(nat list \<Rightarrow> nat list) \<Rightarrow> task_map \<Rightarrow> task_map" where
  "traverse order m = map (\<lambda>k. (k, the (map_of m k))) (order (map fst m))"

definition send_tasks ::
  "yaml_lib \<Rightarrow> string list \<Rightarrow> task_map \<Rightarrow> mqtt \<Rightarrow> mqtt result" where
  "send_tasks Y ms = for_each (\<lambda>(k, tc) cm.
     rbind (vec_at ms k) (\<lambda>mach.
     rbind (task_container_to_string Y tc) (\<lambda>msg.
     send_message msg (task_topic mach) cm)))"

definition all_success :: "Result list \<Rightarrow> unit result" where
  "all_success rs =
     for_each (\<lambda>r _. assert_that (status r = ''success'') ''result.status == success'') rs ()"

definition await_success ::
  "yaml_lib \<Rightarrow> string list \<Rightarrow> task_map \<Rightarrow> Result_container \<times> mqtt \<Rightarrow>
     (Result_container \<times> mqtt) result" where
  "await_success Y ms = for_each (\<lambda>(k, tc) (response, cm).
     rbind (vec_at ms k) (\<lambda>mach.
     rbind (get_message (result_topic mach) cm) (\<lambda>(msg, cm).
     rbind (result_container_from_string Y response msg) (\<lambda>response.
     rbind (all_success (results response)) (\<lambda>_. Inr (response, cm))))))"

definition exchange_tasks ::
  "yaml_lib \<Rightarrow> string list \<Rightarrow> task_map \<Rightarrow> mqtt \<Rightarrow> mqtt result" where
  "exchange_tasks Y ms tm cm =
     rbind (send_tasks Y ms tm cm) (\<lambda>cm.
     rbind (await_success Y ms tm (new_result_container, cm)) (\<lambda>(_, cm). Inr cm))"

definition cgroup_create_domain ::
  "yaml_lib \<Rightarrow> (nat list \<Rightarrow> nat list) \<Rightarrow> nat \<Rightarrow> controllerT \<Rightarrow> controllerT result" where
  "cgroup_create_domain Y order i c =
     rbind (vec_at (id_to_config c) i) (\<lambda>config.
     rbind (for_each (add_start (system_config c) (cmd_name_from_id i)) config []) (\<lambda>tm.
     rbind (exchange_tasks Y (machines c) (traverse order tm) (comm c)) (\<lambda>cm.
     Inr (c\<lparr>comm := cm\<rparr>))))"

definition stop_of_group :: "string \<Rightarrow> Stop" where
  "stop_of_group name = new_stop\<lparr>stop_vm_name := set_value (stop_vm_name new_stop) name\<rparr>"

definition add_stop :: "string \<Rightarrow> execute_config_elemT \<Rightarrow> task_map \<Rightarrow> task_map" where
  "add_stop name e m =
     emplace (fst e) (new_task_container\<lparr>tasks := [Stop_task (stop_of_group name)]\<rparr>) m"

definition cgroup_delete_domain ::
  "yaml_lib \<Rightarrow> (nat list \<Rightarrow> nat list) \<Rightarrow> nat \<Rightarrow> controllerT \<Rightarrow> controllerT result" where
  "cgroup_delete_domain Y order i c =
     rbind (vec_at (id_to_config c) i) (\<lambda>config.
     let tm = fold (add_stop (cmd_name_from_id i)) config [] in
     rbind (exchange_tasks Y (machines c) (traverse order tm) (comm c)) (\<lambda>cm.
     Inr (c\<lparr>comm := cm\<rparr>)))"

definition cgroup_domain_name :: "execute_config_elemT \<Rightarrow> controllerT \<Rightarrow> string result" where
  "cgroup_domain_name e c =
     rbind (at2 (machine_usage c) (fst e) (snd e)) (\<lambda>i. Inr (cmd_name_from_id i))"

definition cgroup_update_config ::
  "nat \<Rightarrow> execute_config \<Rightarrow> controllerT \<Rightarrow> controllerT result" where
  "cgroup_update_config i new_config c = Inl (Assertion ''false'')"

subsection \<open>The command\<close>

text \<open>
  The host lists: index \<open>s\<close> holds the machines of which the job has slot \<open>s\<close> alone, index
  \<open>slots\<close> those of which two neighbouring entries of the configuration name the same machine.
\<close>

type_synonym host_table = "string list list \<times> nat list"

definition add_hosts :: "nat \<Rightarrow> string list \<Rightarrow> host_table \<Rightarrow> host_table result" where
  "add_hosts idx hosts tbl =
     (case tbl of (host_lists, hosts_per_slot) \<Rightarrow>
        rbind (vec_at host_lists idx) (\<lambda>hs.
        rbind (vec_set host_lists idx (hs @ hosts)) (\<lambda>host_lists.
        rbind (vec_at hosts_per_slot idx) (\<lambda>n.
        rbind (vec_set hosts_per_slot idx (n + length hosts)) (\<lambda>hosts_per_slot.
        Inr (host_lists, hosts_per_slot))))))"

fun assign_hosts ::
  "nat \<Rightarrow> string list \<Rightarrow> execute_config \<Rightarrow> host_table \<Rightarrow> host_table result" where
  "assign_hosts n ms [] tbl = Inr tbl"
| "assign_hosts n ms [e] tbl =
     rbind (vec_at ms (fst e)) (\<lambda>mach. add_hosts (snd e) [mach] tbl)"
| "assign_hosts n ms (e # e' # es) tbl =
     rbind (vec_at ms (fst e)) (\<lambda>mach.
     if fst e = fst e'
     then rbind (add_hosts n [mach, mach] tbl) (assign_hosts n ms es)
     else rbind (add_hosts (snd e) [mach] tbl) (assign_hosts n ms (e' # es)))"

definition wrapper_command :: "nat \<Rightarrow> jobT \<Rightarrow> string" where
  "wrapper_command i job = '' ./cgroup_wrapper.sh '' @ cmd_name_from_id i @ '' '' @ command job"

definition hosts_text :: "nat \<Rightarrow> host_table \<Rightarrow> string" where
  "hosts_text process_per_slot tbl =
     concat (map (\<lambda>(hosts, k). if k = 0 then []
       else concat (map (\<lambda>host. host @ '':'' @ show_nat process_per_slot @ newline) hosts))
       (zip (fst tbl) (snd tbl)))"

text \<open>The groups of the command line, a colon between two of them.\<close>

fun join_groups :: "string \<Rightarrow> string list \<Rightarrow> string" where
  "join_groups sep [] = ''''"
| "join_groups sep [g] = g"
| "join_groups sep (g # h # gs) = g @ sep @ join_groups sep (h # gs)"

definition group_text :: "nat \<Rightarrow> string \<Rightarrow> nat \<Rightarrow> string" where
  "group_text process_per_slot cmd k = '' -np '' @ show_nat (wrap64 (process_per_slot * k)) @ '' '' @ cmd"

definition cgroup_generate_command ::
  "jobT \<Rightarrow> nat \<Rightarrow> execute_config \<Rightarrow> controllerT \<Rightarrow> (string \<times> controllerT) result" where
  "cgroup_generate_command job i config c =
     (let n = length (slots (system_config c)) in
      rbind (assign_hosts n (machines c) config (replicate (n + 1) [], replicate (n + 1) 0)) (\<lambda>tbl.
      rbind (slot_size (system_config c)) (\<lambda>sz.
      rbind (assert_that (req_cpus job \<le> wrap64 (sum_list (snd tbl) * sz))
               ''job.req_cpus() <= hosts * slot_size()'') (\<lambda>_.
      rbind (if threads_per_proc job = 0 then Inl (Undefined_behaviour ''division by zero'') else Inr ()) (\<lambda>_.
      let process_per_slot = sz div threads_per_proc job in
      rbind (assert_that (sz mod threads_per_proc job = 0)
               ''slot_size() % threads_per_proc == 0'') (\<lambda>_.
      let hosts_filename = cmd_name_from_id i @ ''.hosts'';
          groups = map (group_text process_per_slot (wrapper_command i job))
            (filter (\<lambda>k. k \<noteq> 0) (snd tbl)) in
      Inr (''mpiexec '' @ ''-f '' @ hosts_filename @ '' -genv OMP_NUM_THREADS '' @
             show_nat (threads_per_proc job) @ join_groups '' : '' groups,
           c\<lparr>files := files c @ [(hosts_filename, hosts_text process_per_slot tbl)]\<rparr>)))))))"

definition cgroup_virtuals ::
  "yaml_lib \<Rightarrow> (nat list \<Rightarrow> nat list) \<Rightarrow> controllerT virtuals" where
  "cgroup_virtuals Y order =
     \<lparr>create_domain = cgroup_create_domain Y order, delete_domain = cgroup_delete_domain Y order,
      generate_command = cgroup_generate_command, domain_name = cgroup_domain_name,
      update_config = cgroup_update_config, update_supported = False,
      init = (\<lambda>c. Inr c), dismantle = (\<lambda>c. Inr c)\<rparr>"

subsection \<open>The contract of the base class\<close>

lemma cgroup_create_book: "cgroup_create_domain Y order i c = Inr c' \<Longrightarrow> book c' = book c"
  by (auto simp: cgroup_create_domain_def)

lemma cgroup_delete_book: "cgroup_delete_domain Y order i c = Inr c' \<Longrightarrow> book c' = book c"
  by (auto simp: cgroup_delete_domain_def Let_def)

lemma cgroup_command_book:
  "cgroup_generate_command job i cfg c = Inr (cmd, c') \<Longrightarrow> book c' = book c"
  by (auto simp: cgroup_generate_command_def Let_def split: if_splits)

interpretation cg: controller_interface "cgroup_virtuals Y order" for Y order
  by unfold_locales
    (auto simp: cgroup_virtuals_def cgroup_update_config_def
      dest: cgroup_create_book cgroup_delete_book cgroup_command_book)

subsection \<open>One message to every machine, one reply from each\<close>

definition success_reply :: "yaml_lib \<Rightarrow> string \<Rightarrow> bool" where
  "success_reply Y p \<longleftrightarrow> (\<forall>response. \<exists>r. result_container_from_string Y response p = Inr r \<and>
     all_success (results r) = Inr ())"

lemma filter_zip_one:
  "distinct (map f ks) \<Longrightarrow>
     map snd (filter (\<lambda>(k, p). f k = t) (zip ks (map g ks))) =
       (case filter (\<lambda>k. f k = t) ks of [] \<Rightarrow> [] | k # _ \<Rightarrow> [g k])"
proof (induction ks)
  case (Cons k ks)
  show ?case
  proof (cases "f k = t")
    case True
    with Cons.prems have "f k \<notin> f ` set ks" by simp
    then have none: "filter (\<lambda>x. f x = t) ks = []"
      unfolding True by (auto simp: filter_empty_conv)
    with Cons have "map snd (filter (\<lambda>(k, p). f k = t) (zip ks (map g ks))) = []" by simp
    with True show ?thesis by simp
  qed (use Cons in simp)
qed simp

lemma replies_one_each:
  assumes "distinct (map f ks)" and "\<And>k. k \<in> set ks \<Longrightarrow> w (f k) = g k # rest (f k)"
    and "\<And>t. t \<notin> f ` set ks \<Longrightarrow> w t = rest t"
  shows "w t = map snd (filter (\<lambda>(k, p). f k = t) (zip ks (map g ks))) @ rest t"
proof (cases "filter (\<lambda>k. f k = t) ks")
  case Nil
  then have "t \<notin> f ` set ks" by (auto simp: filter_empty_conv)
  with Nil assms(3) show ?thesis by (simp add: filter_zip_one [OF assms(1)])
next
  case (Cons k ys)
  then have "k \<in> set (filter (\<lambda>k. f k = t) ks)" by simp
  then have "k \<in> set ks" "f k = t" by auto
  with Cons assms(2) [of k] show ?thesis by (simp add: filter_zip_one [OF assms(1)])
qed

text \<open>The state of the mail when a set of machines is about to be asked.\<close>

definition mail_ready ::
  "yaml_lib \<Rightarrow> string list \<Rightarrow> nat list \<Rightarrow> mqtt \<Rightarrow> (string \<Rightarrow> string list) \<Rightarrow> bool" where
  "mail_ready Y ms ks cm rest \<longleftrightarrow> ready cm \<and> distinct ms \<and>
     (\<forall>k \<in> set ks. k < length ms \<and> result_topic (ms ! k) \<in> subscribed cm \<and>
        (\<exists>p. success_reply Y p \<and> pending cm (result_topic (ms ! k)) = p # rest (result_topic (ms ! k)))) \<and>
     (\<forall>t. t \<notin> (\<lambda>k. result_topic (ms ! k)) ` set ks \<longrightarrow> pending cm t = rest t)"

lemma result_topic_inject [simp]: "result_topic a = result_topic b \<longleftrightarrow> a = b"
  by (simp add: result_topic_def)

lemma exchange_tasks_ok:
  assumes mail: "mail_ready Y ms ks cm rest" and ks: "distinct ks"
    and node: "\<And>k. k \<in> set ks \<Longrightarrow> emit_task_container (tc k) = Inr (nd k)"
  shows "\<exists>m. exchange_tasks Y ms (map (\<lambda>k. (k, tc k)) ks) cm = Inr m \<and> ready m \<and>
    subscribed m = subscribed cm \<and>
    published m = published cm @ map (\<lambda>k. (task_topic (ms ! k), to_string Y (nd k))) ks \<and>
    (\<forall>t \<in> subscribed cm. pending m t = rest t)"
proof -
  let ?topic = "\<lambda>k. result_topic (ms ! k)"
  let ?send = "\<lambda>k. send_message (to_string Y (nd k)) (task_topic (ms ! k))"
  let ?use = "\<lambda>(k :: nat) p response. rbind (result_container_from_string Y response p) (\<lambda>response.
      rbind (all_success (results response)) (\<lambda>_. Inr response))"
  let ?f = "\<lambda>(k :: nat) p response. projr (result_container_from_string Y response p)"
  from mail have rdy: "ready cm" and dist: "distinct ms" and lt: "\<And>k. k \<in> set ks \<Longrightarrow> k < length ms"
    and sub: "\<And>k. k \<in> set ks \<Longrightarrow> ?topic k \<in> subscribed cm"
    and rest: "\<And>t. t \<notin> ?topic ` set ks \<Longrightarrow> pending cm t = rest t"
    and "\<forall>k \<in> set ks. \<exists>p. success_reply Y p \<and> pending cm (?topic k) = p # rest (?topic k)"
    by (auto simp: mail_ready_def)
  then obtain g where g: "\<And>k. k \<in> set ks \<Longrightarrow> success_reply Y (g k)"
    "\<And>k. k \<in> set ks \<Longrightarrow> pending cm (?topic k) = g k # rest (?topic k)" by metis
  have dt: "distinct (map ?topic ks)"
    using ks dist lt by (auto simp: distinct_map inj_on_def nth_eq_iff_index_eq)
  have "send_tasks Y ms (map (\<lambda>k. (k, tc k)) ks) cm = for_each ?send ks cm"
    unfolding send_tasks_def
    using lt node
  proof (induction ks arbitrary: cm)
    case (Cons k ks)
    then show ?case
      by (auto simp: vec_at_in task_container_to_string_def intro!: rbind_cong)
  qed simp
  moreover obtain m1 where m1: "for_each ?send ks cm = Inr m1" "ready m1"
    "subscribed m1 = subscribed cm" "pending m1 = pending cm"
    "published m1 = published cm @ map (\<lambda>k. (task_topic (ms ! k), to_string Y (nd k))) ks"
    using mb.send_each [OF rdy, of ks "\<lambda>k. task_topic (ms ! k)" "\<lambda>k. to_string Y (nd k)"]
    by (auto simp: task_topic_def)
  moreover have "await_success Y ms (map (\<lambda>k. (k, tc k)) ks) (r, m) =
      for_each (\<lambda>k (r, m). rbind (get_message (?topic k) m) (\<lambda>(p, m').
        rbind (?use k p r) (\<lambda>r'. Inr (r', m')))) ks (r, m)" for r m
    unfolding await_success_def
    using lt
  proof (induction ks arbitrary: r m)
    case (Cons k ks)
    then show ?case
      by (auto simp: vec_at_in rbind_assoc split_def intro!: rbind_cong)
  qed simp
  moreover have "\<exists>m2. for_each (\<lambda>k (r, m). rbind (get_message (?topic k) m) (\<lambda>(p, m').
        rbind (?use k p r) (\<lambda>r'. Inr (r', m')))) ks (r, m1) =
      Inr (fold (\<lambda>(x, p). ?f x p) (zip ks (map g ks)) r, m2) \<and>
      ready m2 \<and> subscribed m2 = subscribed m1 \<and> published m2 = published m1 \<and>
      (\<forall>t \<in> subscribed m1. pending m2 t = rest t)" for r
  proof (rule mb.recv_each [OF m1(2)])
    fix t
    show "pending m1 t = map snd (filter (\<lambda>(k, p). ?topic k = t) (zip ks (map g ks))) @ rest t"
      unfolding m1(4)
      by (rule replies_one_each [where f = ?topic and g = g and w = "pending cm"])
        (use dt g(2) rest in auto)
  next
    fix k p response assume "(k, p) \<in> set (zip ks (map g ks))"
    then have "success_reply Y p" using g(1) by (auto simp: set_zip)
    then obtain q where "result_container_from_string Y response p = Inr q"
      "all_success (results q) = Inr ()" unfolding success_reply_def by blast
    then show "?use k p response = Inr (?f k p response)" by simp
  qed (use sub m1 in auto)
  then obtain m2 where "for_each (\<lambda>k (r, m). rbind (get_message (?topic k) m) (\<lambda>(p, m').
        rbind (?use k p r) (\<lambda>r'. Inr (r', m')))) ks (new_result_container, m1) =
      Inr (fold (\<lambda>(x, p). ?f x p) (zip ks (map g ks)) new_result_container, m2)"
    "ready m2" "subscribed m2 = subscribed m1" "published m2 = published m1"
    "\<forall>t \<in> subscribed m1. pending m2 t = rest t" by blast
  ultimately show ?thesis
    by (intro exI [of _ m2]) (simp add: exchange_tasks_def)
qed

subsection \<open>The messages that create a group\<close>

text \<open>The group of one machine: the processors and memory nodes of all its slots, in order.\<close>

definition group_start :: "system_configT \<Rightarrow> string \<Rightarrow> execute_config \<Rightarrow> Start" where
  "group_start sc name es = new_start
     \<lparr>start_vm_name := with_value ''vm-name'' name,
      start_vcpu_map := with_value ''vcpu-map'' [concat (map (\<lambda>e. cpus (slots sc ! snd e)) es)],
      start_memnode_map := with_value ''memnode-map'' [concat (map (\<lambda>e. mems (slots sc ! snd e)) es)]\<rparr>"

definition on_machine :: "nat \<Rightarrow> execute_config \<Rightarrow> execute_config" where
  "on_machine k es = filter (\<lambda>e. fst e = k) es"

definition group_container :: "system_configT \<Rightarrow> string \<Rightarrow> execute_config \<Rightarrow> Task_container" where
  "group_container sc name es = new_task_container\<lparr>tasks := [Start_task (group_start sc name es)]\<rparr>"

definition starts_of :: "system_configT \<Rightarrow> string \<Rightarrow> execute_config \<Rightarrow> task_map \<Rightarrow> bool" where
  "starts_of sc name es m \<longleftrightarrow> distinct (map fst m) \<and>
     (\<forall>k. map_of m k = (if k \<in> fst ` set es
        then Some (group_container sc name (on_machine k es)) else None))"

lemma add_start_step:
  assumes "starts_of sc name es m" and "snd e < length (slots sc)"
  shows "\<exists>m'. add_start sc name e m = Inr m' \<and> starts_of sc name (es @ [e]) m'"
proof (cases "fst e \<in> fst ` set es")
  case True
  let ?es = "on_machine (fst e) es"
  have look: "map_of m (fst e) = Some (group_container sc name ?es)"
    using assms(1) True by (simp add: starts_of_def)
  have add: "append_to_container (slots sc ! snd e) (group_container sc name ?es) =
      Inr (group_container sc name (?es @ [e]))"
    by (simp add: append_to_container_def group_container_def append_slot_def group_start_def
        with_value_def set_value_def get_value_def vec_at_in)
  have "add_start sc name e m =
      Inr (AList.update (fst e) (group_container sc name (?es @ [e])) m)"
    using assms(2) look add by (simp add: add_start_def slot_conf_def vec_at_in)
  moreover have "starts_of sc name (es @ [e])
      (AList.update (fst e) (group_container sc name (?es @ [e])) m)"
    using assms(1) True look by (auto simp: starts_of_def update_conv' on_machine_def)
  ultimately show ?thesis by blast
next
  case False
  then have look: "map_of m (fst e) = None" using assms(1) by (simp add: starts_of_def)
  have none: "on_machine (fst e) es = []"
    using False by (metis (mono_tags, lifting) on_machine_def filter_empty_conv image_eqI)
  have start: "start_of_slot name (slots sc ! snd e) = group_start sc name [e]"
    by (simp add: start_of_slot_def group_start_def with_value_def set_value_def no_value_def)
  have fresh: "fst e \<notin> fst ` set m" using look by (simp add: map_of_eq_None_iff)
  have "add_start sc name e m = Inr (m @ [(fst e, group_container sc name [e])])"
    using assms(2) look
    by (simp add: add_start_def slot_conf_def vec_at_in emplace_def group_container_def start)
  moreover have "starts_of sc name (es @ [e]) (m @ [(fst e, group_container sc name [e])])"
    using assms(1) False look none fresh
    by (auto simp: starts_of_def on_machine_def map_add_def split: option.splits)
  ultimately show ?thesis by blast
qed

lemma add_start_all:
  assumes "\<forall>e \<in> set es. snd e < length (slots sc)"
  shows "\<exists>m. for_each (add_start sc name) es [] = Inr m \<and> starts_of sc name es m"
proof (rule for_each_total)
  show "starts_of sc name [] []" by (simp add: starts_of_def)
next
  fix pre e post s assume "es = pre @ e # post" "starts_of sc name pre s"
  with add_start_step [of sc name pre s e] assms
  show "\<exists>s'. add_start sc name e s = Inr s' \<and> starts_of sc name (pre @ [e]) s'" by simp
qed

definition start_message :: "Start \<Rightarrow> yaml" where
  "start_message s = set_key (set_key Null ''task'' (Scalar ''start vm''))
     ''vm-configurations'' (Seq [emit_start s])"

lemma emit_start_message:
  "emit_task_container (new_task_container\<lparr>tasks := [Start_task s]\<rparr>) = Inr (start_message s)"
  by (simp add: emit_task_container_def container_type_def new_task_container_def no_value_def
      start_message_def encode_seq_def optional_emit_def merge_node_def set_key_def)

lemma traverse_map:
  assumes "\<And>xs. mset (order xs) = mset xs" and "distinct (map fst m)"
    and "\<And>k. map_of m k = (if k \<in> A then Some (f k) else None)"
  shows "\<exists>ks. distinct ks \<and> set ks = A \<and> traverse order m = map (\<lambda>k. (k, f k)) ks"
proof -
  let ?ks = "order (map fst m)"
  have "distinct ?ks" using mset_eq_imp_distinct_iff [OF assms(1)] assms(2) by simp
  moreover have set: "set ?ks = fst ` set m" using mset_eq_setD [OF assms(1)] by simp
  moreover have mem: "k \<in> fst ` set m \<longleftrightarrow> k \<in> A" for k
    using assms(3) [of k] map_of_eq_None_iff [of m k] by (auto split: if_splits)
  moreover have "traverse order m = map (\<lambda>k. (k, f k)) ?ks"
    using assms(3) set mem by (simp add: traverse_def)
  moreover have "fst ` set m = A" using mem by blast
  ultimately show ?thesis by (intro exI [of _ ?ks]) simp
qed

lemma create_domain_ok:
  assumes "\<And>xs. mset (order xs) = mset xs" and "i < length (id_to_config c)"
    and "\<forall>e \<in> set (id_to_config c ! i). snd e < length (slots (system_config c))"
    and "mail_ready Y (machines c) (map fst (id_to_config c ! i)) (comm c) rest"
  shows "\<exists>m ks. cgroup_create_domain Y order i c = Inr (c\<lparr>comm := m\<rparr>) \<and> distinct ks \<and>
    set ks = fst ` set (id_to_config c ! i) \<and>
    published m = published (comm c) @ map (\<lambda>k. (task_topic (machines c ! k), to_string Y
      (start_message (group_start (system_config c) (cmd_name_from_id i)
        (on_machine k (id_to_config c ! i)))))) ks \<and>
    (\<forall>t \<in> subscribed (comm c). pending m t = rest t) \<and>
    ready m \<and> subscribed m = subscribed (comm c)"
proof -
  let ?cfg = "id_to_config c ! i" and ?sc = "system_config c" and ?name = "cmd_name_from_id i"
  let ?tc = "\<lambda>k. group_container ?sc ?name (on_machine k ?cfg)"
  let ?nd = "\<lambda>k. start_message (group_start ?sc ?name (on_machine k ?cfg))"
  from add_start_all [OF assms(3)] obtain tm where
    tm: "for_each (add_start ?sc ?name) ?cfg [] = Inr tm" "starts_of ?sc ?name ?cfg tm" by blast
  from traverse_map [of order tm "fst ` set ?cfg" ?tc] assms(1) tm(2) obtain ks where
    ks: "distinct ks" "set ks = fst ` set ?cfg" "traverse order tm = map (\<lambda>k. (k, ?tc k)) ks"
    unfolding starts_of_def by blast
  have "mail_ready Y (machines c) ks (comm c) rest" using assms(4) ks(2) by (simp add: mail_ready_def)
  from exchange_tasks_ok [OF this ks(1), of ?tc ?nd]
  obtain m where "exchange_tasks Y (machines c) (map (\<lambda>k. (k, ?tc k)) ks) (comm c) = Inr m"
    "published m = published (comm c) @ map (\<lambda>k. (task_topic (machines c ! k), to_string Y (?nd k))) ks"
    "\<forall>t \<in> subscribed (comm c). pending m t = rest t" "ready m" "subscribed m = subscribed (comm c)"
    by (auto simp: group_container_def emit_start_message)
  with tm(1) ks assms(2) show ?thesis
    by (intro exI [of _ m] exI [of _ ks]) (simp add: cgroup_create_domain_def vec_at_in)
qed

text \<open>
  C29: before a job starts, its control group is created on every machine of its configuration
  with exactly one message per machine, however many slots it has there: the group is named
  after the job and gets the processors and memory nodes of all its slots on that machine, in
  the order of the configuration. One reply per machine is consumed, no other message is
  touched, and nothing else of the controller changes.
\<close>

theorem create_domain_one_group_per_machine:
  assumes "\<And>xs. mset (order xs) = mset xs" and "i < length (id_to_config c)"
    and "\<forall>e \<in> set (id_to_config c ! i). snd e < length (slots (system_config c))"
    and "mail_ready Y (machines c) (map fst (id_to_config c ! i)) (comm c) rest"
  shows "\<exists>m ks. cgroup_create_domain Y order i c = Inr (c\<lparr>comm := m\<rparr>) \<and> distinct ks \<and>
    set ks = fst ` set (id_to_config c ! i) \<and>
    published m = published (comm c) @ map (\<lambda>k. (task_topic (machines c ! k), to_string Y
      (start_message (group_start (system_config c) (cmd_name_from_id i)
        (on_machine k (id_to_config c ! i)))))) ks \<and>
    (\<forall>t \<in> subscribed (comm c). pending m t = rest t)"
  using create_domain_ok [OF assms] by blast

definition example_yaml :: yaml_lib where
  "example_yaml = \<lparr>dump = (\<lambda>_. ''''),
     parse = (\<lambda>_. Inr (list_reply ''vm started'' [(''poncos_0'', ''success'')]))\<rparr>"

lemma success_reply_example: "success_reply example_yaml p"
  by (simp add: success_reply_def result_container_from_string_def from_string_def example_yaml_def
      load_list_reply all_success_def result_of_def)

lemma ready_example: "ready (comm example_controller)"
  by (simp add: example_controller_def ready_def in_service_def plain_topic_def
      pattern_of_char_def regex_operators_def no_disconnect_def)

lemma pending_example:
  "pending (comm example_controller) t =
     (if t = ''fast/migfra/n1/result'' \<or> t = ''fast/migfra/n2/result'' then [''ok''] else [])"
  "subscribed (comm example_controller) = {''fast/migfra/n1/result'', ''fast/migfra/n2/result''}"
proof -
  show "subscribed (comm example_controller) = {''fast/migfra/n1/result'', ''fast/migfra/n2/result''}"
    by (auto simp: example_controller_def subscribed_def split: if_splits)
  then show "pending (comm example_controller) t =
     (if t = ''fast/migfra/n1/result'' \<or> t = ''fast/migfra/n2/result'' then [''ok''] else [])"
    by (simp add: pending_def) (auto simp: example_controller_def queue_of_def)
qed

theorem create_domain_one_group_per_machine_witness:
  "\<exists>m. cgroup_create_domain example_yaml id 1
         (example_controller\<lparr>id_to_config := [[], [(0, 0), (0, 1)]]\<rparr>) =
       Inr (example_controller\<lparr>id_to_config := [[], [(0, 0), (0, 1)]], comm := m\<rparr>) \<and>
     published m = [(''fast/migfra/n1/task'', to_string example_yaml (start_message
       (group_start example_config ''poncos_1'' [(0, 0), (0, 1)])))]"
proof -
  let ?c = "example_controller\<lparr>id_to_config := [[], [(0, 0), (0, 1)]]\<rparr>"
  have conf: "machines example_controller = [''n1'', ''n2'']"
    "system_config example_controller = example_config" "published (comm example_controller) = []"
    by (simp_all add: example_controller_def)
  have "mail_ready example_yaml (machines ?c) (map fst (id_to_config ?c ! 1)) (comm ?c)
      (\<lambda>t. if t = ''fast/migfra/n2/result'' then [''ok''] else [])"
    using success_reply_example ready_example
    by (simp add: mail_ready_def conf pending_example result_topic_def)
  from create_domain_one_group_per_machine [OF _ _ _ this, of id] conf
  obtain m ks where m: "cgroup_create_domain example_yaml id 1 ?c = Inr (?c\<lparr>comm := m\<rparr>)"
    "distinct ks" "set ks = {0}"
    "published m = map (\<lambda>k. (task_topic (machines ?c ! k), to_string example_yaml
      (start_message (group_start (system_config ?c) (cmd_name_from_id 1)
        (on_machine k (id_to_config ?c ! 1)))))) ks"
    by (auto simp: example_config_def)
  from m(2,3) have "ks = [0]" by (cases ks; cases "tl ks") auto
  with m show ?thesis
    by (intro exI [of _ m]) (simp add: conf task_topic_def on_machine_def cmd_name_from_id_def show_nat.simps
        digit_char_def)
qed

subsection \<open>The hosts file and the process groups\<close>

text \<open>Every list of hosts goes with its length, and together they are the machines added.\<close>

definition hosts_of :: "nat \<Rightarrow> string list \<Rightarrow> host_table \<Rightarrow> bool" where
  "hosts_of n hs tbl \<longleftrightarrow> length (fst tbl) = Suc n \<and> snd tbl = map length (fst tbl) \<and>
     mset (concat (fst tbl)) = mset hs"

lemma mset_concat_update:
  "i < length xss \<Longrightarrow> mset (concat (xss[i := xss ! i @ ys])) = mset (concat xss) + mset ys"
  by (induction xss arbitrary: i) (auto split: nat.splits)

lemma add_hosts_step:
  assumes "hosts_of n hs tbl" and "idx \<le> n"
  shows "\<exists>tbl'. add_hosts idx ys tbl = Inr tbl' \<and> hosts_of n (hs @ ys) tbl'"
proof (cases tbl)
  case (Pair hl ks)
  let ?tbl = "(hl[idx := hl ! idx @ ys], ks[idx := ks ! idx + length ys])"
  from assms Pair have "add_hosts idx ys tbl = Inr ?tbl"
    by (auto simp: add_hosts_def hosts_of_def vec_at_in vec_set_in)
  moreover have "hosts_of n (hs @ ys) ?tbl"
    using assms Pair by (auto simp: hosts_of_def mset_concat_update map_update)
  ultimately show ?thesis by blast
qed

lemma assign_hosts_ok:
  assumes "\<forall>e \<in> set es. fst e < length ms \<and> snd e < n" and "hosts_of n hs tbl"
  shows "\<exists>tbl'. assign_hosts n ms es tbl = Inr tbl' \<and> hosts_of n (hs @ map (\<lambda>e. ms ! fst e) es) tbl'"
  using assms
proof (induction n ms es tbl arbitrary: hs rule: assign_hosts.induct)
  case (2 n ms e tbl)
  with add_hosts_step [of n hs tbl "snd e" "[ms ! fst e]"] show ?case by (auto simp: vec_at_in)
next
  case (3 n ms e e' es tbl)
  show ?case
  proof (cases "fst e = fst e'")
    case True
    from add_hosts_step [OF 3(4), of n "[ms ! fst e, ms ! fst e]"] obtain t1 where
      t1: "add_hosts n [ms ! fst e, ms ! fst e] tbl = Inr t1"
        "hosts_of n (hs @ [ms ! fst e, ms ! fst e]) t1" by auto
    from 3(1) [OF _ True t1(1) _ t1(2)] 3(3) t1(1) True show ?thesis
      by (auto simp: vec_at_in)
  next
    case False
    from add_hosts_step [OF 3(4), of "snd e" "[ms ! fst e]"] 3(3) obtain t1 where
      t1: "add_hosts (snd e) [ms ! fst e] tbl = Inr t1" "hosts_of n (hs @ [ms ! fst e]) t1" by auto
    from 3(2) [OF _ False t1(1) _ t1(2)] 3(3) t1(1) False show ?thesis
      by (auto simp: vec_at_in)
  qed
qed auto

definition host_line :: "nat \<Rightarrow> string \<Rightarrow> string" where
  "host_line pps host = host @ '':'' @ show_nat pps @ newline"

lemma hosts_text_lines:
  assumes "snd tbl = map length (fst tbl)"
  shows "hosts_text pps tbl = concat (map (host_line pps) (concat (fst tbl)))"
proof -
  have "hosts_text pps (hl, map length hl) = concat (map (host_line pps) (concat hl))" for hl
    by (induction hl) (auto simp: hosts_text_def host_line_def comp_def)
  with assms show ?thesis by (cases tbl) simp
qed

lemma generate_command_ok:
  assumes "\<forall>e \<in> set config. fst e < length (machines c) \<and> snd e < length (slots (system_config c))"
    and "slot_size (system_config c) = Inr sz" and "0 < threads_per_proc job"
    and "sz mod threads_per_proc job = 0" and "length config * sz \<le> size_max"
    and "req_cpus job \<le> length config * sz"
  shows "\<exists>hs ks. cgroup_generate_command job i config c =
      Inr (''mpiexec -f '' @ cmd_name_from_id i @ ''.hosts -genv OMP_NUM_THREADS '' @
        show_nat (threads_per_proc job) @ join_groups '' : ''
          (map (\<lambda>k. '' -np '' @ show_nat (sz div threads_per_proc job * k) @ '' '' @
             wrapper_command i job) ks),
        c\<lparr>files := files c @ [(cmd_name_from_id i @ ''.hosts'',
          concat (map (host_line (sz div threads_per_proc job)) hs))]\<rparr>) \<and>
    mset hs = mset (map (\<lambda>e. machines c ! fst e) config) \<and> sum_list ks = length config \<and>
    (\<forall>k \<in> set ks. 0 < k) \<and>
    (nprocs job * threads_per_proc job \<le> size_max \<longrightarrow>
       nprocs job \<le> sz div threads_per_proc job * sum_list ks)"
proof -
  let ?n = "length (slots (system_config c))" and ?t = "threads_per_proc job"
  have "hosts_of ?n [] (replicate (?n + 1) [], replicate (?n + 1) 0)"
    by (simp add: hosts_of_def map_replicate_const)
  from assign_hosts_ok [OF assms(1) this] obtain tbl where
    tbl: "assign_hosts ?n (machines c) config (replicate (?n + 1) [], replicate (?n + 1) 0) = Inr tbl"
      "hosts_of ?n (map (\<lambda>e. machines c ! fst e) config) tbl" by auto
  let ?ks = "filter (\<lambda>k. k \<noteq> 0) (snd tbl)" and ?hs = "concat (fst tbl)"
  have total: "sum_list (snd tbl) = length config"
  proof -
    have "sum_list (snd tbl) = length ?hs" using tbl(2) by (simp add: hosts_of_def length_concat)
    also have "\<dots> = length config" using tbl(2) by (metis hosts_of_def mset_eq_length length_map)
    finally show ?thesis .
  qed
  have sum: "sum_list ?ks = length config"
  proof -
    have "sum_list (filter (\<lambda>k. k \<noteq> 0) xs) = sum_list xs" for xs :: "nat list" by (induction xs) auto
    with total show ?thesis by simp
  qed
  have bound: "sz div ?t * k \<le> size_max" if "k \<in> set (snd tbl)" for k
  proof -
    have "k \<le> length config" using that total member_le_sum_list [of k "snd tbl"] by simp
    then have "sz div ?t * k \<le> sz * length config" by (intro mult_le_mono) auto
    with assms(5) show ?thesis by (simp add: mult.commute)
  qed
  have groups: "map (group_text (sz div ?t) (wrapper_command i job)) ?ks = map (\<lambda>k. '' -np '' @
      show_nat (sz div ?t * k) @ '' '' @ wrapper_command i job) ?ks"
    using bound by (auto simp: group_text_def)
  have "nprocs job \<le> sz div ?t * sum_list ?ks" if "nprocs job * ?t \<le> size_max"
  proof -
    have "nprocs job * ?t \<le> length config * sz" using assms(6) that by (simp add: req_cpus_def)
    also have "\<dots> = sz div ?t * length config * ?t" using assms(4) by (auto simp: mult_ac)
    finally show ?thesis using assms(3) sum by simp
  qed
  moreover have "mset ?hs = mset (map (\<lambda>e. machines c ! fst e) config)"
    using tbl(2) by (simp add: hosts_of_def)
  moreover have "cgroup_generate_command job i config c = Inr (''mpiexec -f '' @ cmd_name_from_id i @
      ''.hosts -genv OMP_NUM_THREADS '' @ show_nat ?t @ join_groups '' : ''
        (map (group_text (sz div ?t) (wrapper_command i job)) ?ks),
      c\<lparr>files := files c @ [(cmd_name_from_id i @ ''.hosts'',
        concat (map (host_line (sz div ?t)) ?hs))]\<rparr>)"
    using tbl assms(2-6) total
    by (simp add: cgroup_generate_command_def Let_def hosts_text_lines hosts_of_def)
  ultimately show ?thesis unfolding groups using sum by (intro exI [of _ ?hs] exI [of _ ?ks]) simp
qed

text \<open>
  C31: the command of a job starts, in groups for the slots used alone and for the machines used
  as a whole, \<open>slot_size / threads_per_proc\<close> processes for every entry of its configuration, and
  the hosts file has one line for every entry, naming its machine and that number; the groups
  hold at least the processes the job asks for, and they may hold more, since \<open>nprocs\<close> itself
  is not passed on.
\<close>

theorem command_covers_job:
  assumes "\<forall>e \<in> set config. fst e < length (machines c) \<and> snd e < length (slots (system_config c))"
    and "slot_size (system_config c) = Inr sz" and "0 < threads_per_proc job"
    and "sz mod threads_per_proc job = 0" and "length config * sz \<le> size_max"
    and "req_cpus job \<le> length config * sz"
  shows "\<exists>hs ks. cgroup_generate_command job i config c =
      Inr (''mpiexec -f '' @ cmd_name_from_id i @ ''.hosts -genv OMP_NUM_THREADS '' @
        show_nat (threads_per_proc job) @ join_groups '' : ''
          (map (\<lambda>k. '' -np '' @ show_nat (sz div threads_per_proc job * k) @ '' '' @
             wrapper_command i job) ks),
        c\<lparr>files := files c @ [(cmd_name_from_id i @ ''.hosts'',
          concat (map (host_line (sz div threads_per_proc job)) hs))]\<rparr>) \<and>
    mset hs = mset (map (\<lambda>e. machines c ! fst e) config) \<and> sum_list ks = length config \<and>
    (\<forall>k \<in> set ks. 0 < k) \<and>
    (nprocs job * threads_per_proc job \<le> size_max \<longrightarrow>
       nprocs job \<le> sz div threads_per_proc job * sum_list ks)"
  using assms by (rule generate_command_ok)

theorem command_covers_job_witness:
  "\<exists>cmd hs. cgroup_generate_command example_job 0 [(0, 0), (1, 0)] example_controller = Inr (cmd,
     example_controller\<lparr>files := [(''poncos_0.hosts'', concat (map (host_line 2) hs))]\<rparr>) \<and>
     mset hs = {#''n1'', ''n2''#}"
proof -
  have conf: "machines example_controller = [''n1'', ''n2'']" "files example_controller = []"
    "system_config example_controller = example_config" by (simp_all add: example_controller_def)
  have "slot_size example_config = Inr 2" by (simp add: example_config_def slot_size_def)
  with command_covers_job [of "[(0, 0), (1, 0)]" example_controller 2 example_job 0] conf show ?thesis
    by (auto simp: example_job_def example_config_def req_cpus_def size_max_def cmd_name_from_id_def
        show_nat.simps digit_char_def)
qed

subsection \<open>A job from its start to its end\<close>

text \<open>The state after \<open>execute\<close>: what it has in mind for the job, its mail, its files.\<close>

definition launched ::
  "jobT \<Rightarrow> execute_config \<Rightarrow> string \<Rightarrow> mqtt \<Rightarrow> (string \<times> string) list \<Rightarrow> controllerT \<Rightarrow> controllerT" where
  "launched job cfg cmd m fs c =
     c\<lparr>id_to_tpool := id_to_tpool c @ [length (thread_pool c)], id_to_config := id_to_config c @ [cfg],
       id_to_job := id_to_job c @ [job],
       machine_usage := put_all cfg (cmd_counter c) (machine_usage c), comm := m, files := fs,
       thread_pool := thread_pool c @
         [\<lparr>worker_command = cmd, worker_id = cmd_counter c, worker_state = Running\<rparr>],
       cmd_counter := Suc (cmd_counter c)\<rparr>"

lemma execute_cgroup:
  assumes "wf c" and "lock_owned c" and "cmd_counter c < size_max" and "cfg \<noteq> []" and "distinct cfg"
    and "\<forall>p \<in> set cfg. in2 (machine_usage c) p \<and> get2 (machine_usage c) p = size_max"
    and "length (slots (system_config c)) = 2" and "\<And>xs. mset (order xs) = mset xs"
    and "mail_ready Y (machines c) (map fst cfg) (comm c) rest"
    and "slot_size (system_config c) = Inr sz" and "0 < threads_per_proc job"
    and "sz mod threads_per_proc job = 0" and "length cfg * sz \<le> size_max"
    and "req_cpus job \<le> length cfg * sz"
  shows "\<exists>m cmd fs.
    execute (cgroup_virtuals Y order) job cfg c = Inr (cmd_counter c, launched job cfg cmd m fs c) \<and>
    ready m \<and> subscribed m = subscribed (comm c) \<and> (\<forall>t \<in> subscribed (comm c). pending m t = rest t)"
proof -
  let ?i = "cmd_counter c"
  let ?u = "put_all cfg ?i (machine_usage c)"
  let ?c = "c\<lparr>id_to_tpool := id_to_tpool c @ [length (thread_pool c)],
    id_to_config := id_to_config c @ [cfg], id_to_job := id_to_job c @ [job], machine_usage := ?u\<rparr>"
  have n: "length (id_to_config c) = ?i" "length (machine_usage c) = length (machines c)"
    "shape 2 (machine_usage c)" using assms(1) by (simp_all add: wf_def)
  have range: "\<forall>e \<in> set cfg. fst e < length (machines c) \<and> snd e < length (slots (system_config c))"
    using assms(6,7) n(2) in2_shape [OF n(3)] by auto
  have occ: "for_each (occupy_slot ?i) cfg (machine_usage c) = Inr ?u"
    using occupy_loop [of ?i cfg "machine_usage c" ?u] assms(3,5,6) by auto
  have elem: "id_to_config ?c ! ?i = cfg" using n(1) by (simp add: nth_append)
  from create_domain_ok [of order ?i ?c Y rest, OF assms(8)] n(1) range assms(9) elem obtain m where
    m: "cgroup_create_domain Y order ?i ?c = Inr (?c\<lparr>comm := m\<rparr>)" "ready m"
      "subscribed m = subscribed (comm c)" "\<forall>t \<in> subscribed (comm c). pending m t = rest t" by auto
  from generate_command_ok [of cfg "?c\<lparr>comm := m\<rparr>" sz job ?i] range assms(10-14) obtain cmd fs where
    cmd: "cgroup_generate_command job ?i cfg (?c\<lparr>comm := m\<rparr>) = Inr (cmd, ?c\<lparr>comm := m, files := fs\<rparr>)"
    by auto
  have "execute (cgroup_virtuals Y order) job cfg c = Inr (?i, launched job cfg cmd m fs c)"
    using assms(2-4) occ m(1) cmd by (simp add: execute_def Let_def cgroup_virtuals_def launched_def)
  with m(2-4) show ?thesis by blast
qed

text \<open>
  C13: a job whose slots are free and whose replies come is started: it gets the next id, all its
  slots and no others become its own, its worker runs, and the table still agrees with the
  configurations.
\<close>

theorem execute_starts_job:
  assumes "wf c" and "lock_owned c" and "cmd_counter c < size_max" and "cfg \<noteq> []" and "distinct cfg"
    and "\<forall>p \<in> set cfg. in2 (machine_usage c) p \<and> get2 (machine_usage c) p = size_max"
    and "length (slots (system_config c)) = 2" and "\<And>xs. mset (order xs) = mset xs"
    and "mail_ready Y (machines c) (map fst cfg) (comm c) rest"
    and "slot_size (system_config c) = Inr sz" and "0 < threads_per_proc job"
    and "sz mod threads_per_proc job = 0" and "length cfg * sz \<le> size_max"
    and "req_cpus job \<le> length cfg * sz"
  shows "\<exists>c'. execute (cgroup_virtuals Y order) job cfg c = Inr (cmd_counter c, c') \<and> wf c' \<and>
    is_running c' = (\<lambda>j. j = cmd_counter c \<or> is_running c j) \<and>
    id_to_config c' = id_to_config c @ [cfg] \<and>
    (\<forall>p. get2 (machine_usage c') p =
       (if p \<in> set cfg then cmd_counter c else get2 (machine_usage c) p))"
proof -
  from execute_cgroup [OF assms] obtain c' where
    ex: "execute (cgroup_virtuals Y order) job cfg c = Inr (cmd_counter c, c')" by blast
  note run = cg.execute_started [OF assms(1,3) ex]
  have "get2 (machine_usage c') p = (if p \<in> set cfg then cmd_counter c else get2 (machine_usage c) p)"
    for p unfolding run(7) using assms(6) by (intro get2_put_all) blast
  with ex run show ?thesis by blast
qed

lemma example_fields:
  "machines example_controller = [''n1'', ''n2'']" "system_config example_controller = example_config"
  "machine_usage example_controller = [[0, 1], [0, size_max]]" "cmd_counter example_controller = 2"
  "lock_owned example_controller" "length (slots example_config) = 2" "slot_size example_config = Inr 2"
  "id_to_config example_controller = [[(0, 0), (1, 0)], [(0, 1)]]"
  by (simp_all add: example_controller_def example_config_def slot_size_def)

theorem execute_starts_job_witness:
  "\<exists>c'. execute (cgroup_virtuals example_yaml id) (example_job\<lparr>nprocs := 2\<rparr>) [(1, 1)]
      example_controller = Inr (2, c') \<and> wf c' \<and> is_running c' 2 \<and>
      get2 (machine_usage c') (1, 1) = 2"
proof -
  have "mail_ready example_yaml (machines example_controller) (map fst [(1, 1 :: nat)])
      (comm example_controller) (\<lambda>t. if t = ''fast/migfra/n1/result'' then [''ok''] else [])"
    using success_reply_example ready_example
    by (simp add: mail_ready_def example_fields pending_example result_topic_def)
  from execute_starts_job [OF example_wf example_fields(5) _ _ _ _ _ _ this, of id 2
      "example_job\<lparr>nprocs := 2\<rparr>"] show ?thesis
    by (auto simp: example_fields in2_def get2_def example_job_def req_cpus_def size_max_def)
qed

subsection \<open>The messages that remove a group\<close>

definition stop_container :: "string \<Rightarrow> Task_container" where
  "stop_container name = new_task_container\<lparr>tasks := [Stop_task (stop_of_group name)]\<rparr>"

definition stop_message :: "string \<Rightarrow> yaml" where
  "stop_message name = set_key (set_key Null ''task'' (Scalar ''stop vm''))
     ''list'' (Seq [emit_stop (stop_of_group name)])"

lemma emit_stop_message: "emit_task_container (stop_container name) = Inr (stop_message name)"
  by (simp add: emit_task_container_def container_type_def new_task_container_def no_value_def
      stop_container_def stop_message_def encode_seq_def optional_emit_def merge_node_def set_key_def)

lemma fold_add_stop:
  assumes "distinct (map fst m)"
    and "\<And>k. map_of m k = (if k \<in> A then Some (stop_container name) else None)"
  shows "distinct (map fst (fold (add_stop name) es m)) \<and> map_of (fold (add_stop name) es m) k =
    (if k \<in> A \<union> fst ` set es then Some (stop_container name) else None)"
  using assms
proof (induction es arbitrary: m A)
  case Nil
  then show ?case by simp
next
  case (Cons e es)
  let ?m = "add_stop name e m"
  have fresh: "fst e \<notin> A \<Longrightarrow> fst e \<notin> fst ` set m"
    using Cons.prems(2) [of "fst e"] by (simp add: map_of_eq_None_iff)
  have "distinct (map fst ?m)"
    using Cons.prems(1) fresh Cons.prems(2) [of "fst e"]
    by (auto simp: add_stop_def emplace_def split: option.splits)
  moreover have "map_of ?m j = (if j \<in> insert (fst e) A then Some (stop_container name) else None)" for j
    using Cons.prems(2) [of j] Cons.prems(2) [of "fst e"]
    by (auto simp: add_stop_def emplace_def stop_container_def map_add_def split: option.splits)
  ultimately have "distinct (map fst (fold (add_stop name) es ?m)) \<and>
      map_of (fold (add_stop name) es ?m) k =
      (if k \<in> insert (fst e) A \<union> fst ` set es then Some (stop_container name) else None)"
    by (rule Cons.IH)
  then show ?case by auto
qed

lemma delete_domain_ok:
  assumes "\<And>xs. mset (order xs) = mset xs" and "i < length (id_to_config c)"
    and "mail_ready Y (machines c) (map fst (id_to_config c ! i)) (comm c) rest"
  shows "\<exists>m ks. cgroup_delete_domain Y order i c = Inr (c\<lparr>comm := m\<rparr>) \<and> distinct ks \<and>
    set ks = fst ` set (id_to_config c ! i) \<and>
    published m = published (comm c) @ map (\<lambda>k. (task_topic (machines c ! k),
      to_string Y (stop_message (cmd_name_from_id i)))) ks \<and>
    (\<forall>t \<in> subscribed (comm c). pending m t = rest t)"
proof -
  let ?cfg = "id_to_config c ! i" and ?name = "cmd_name_from_id i"
  let ?m = "fold (add_stop ?name) ?cfg []"
  have tm: "distinct (map fst ?m)"
    "\<And>k. map_of ?m k = (if k \<in> fst ` set ?cfg then Some (stop_container ?name) else None)"
    using fold_add_stop [of "[]" "{}" ?name ?cfg] by simp_all
  from traverse_map [of order ?m, OF assms(1) tm] obtain ks where
    ks: "distinct ks" "set ks = fst ` set ?cfg"
      "traverse order ?m = map (\<lambda>k. (k, stop_container ?name)) ks" by blast
  have "mail_ready Y (machines c) ks (comm c) rest" using assms(3) ks(2) by (simp add: mail_ready_def)
  from exchange_tasks_ok [OF this ks(1), of "\<lambda>_. stop_container ?name" "\<lambda>_. stop_message ?name"]
  obtain m where "exchange_tasks Y (machines c) (map (\<lambda>k. (k, stop_container ?name)) ks) (comm c) = Inr m"
    "published m = published (comm c) @ map (\<lambda>k. (task_topic (machines c ! k),
      to_string Y (stop_message ?name))) ks"
    "\<forall>t \<in> subscribed (comm c). pending m t = rest t"
    by (auto simp: emit_stop_message)
  with ks assms(2) show ?thesis
    by (intro exI [of _ m] exI [of _ ks]) (simp add: cgroup_delete_domain_def vec_at_in)
qed

lemma tick_comm: "tick_timestamp n c = Inr c' \<Longrightarrow> comm c' = comm c"
  by (auto simp: tick_timestamp_def read_clock_def)

lemma tock_comm: "tock_timestamp n c = Inr c' \<Longrightarrow> comm c' = comm c"
  by (auto simp: tock_timestamp_def read_clock_def)

lemma worker_ends:
  assumes "wf c" and "is_running c t" and "job_timer t \<notin> timer_names (timestamps c)"
    and "\<And>cmd. system_call c cmd \<noteq> -1" and "\<And>xs. mset (order xs) = mset xs"
    and "mail_ready Y (machines c) (map fst (id_to_config c ! t)) (comm c) rest"
    and "\<And>c. callback t c s = Inr (k s)"
  shows "\<exists>c' ks. run_thread (cgroup_virtuals Y order) callback t (c, s) = Inr (c', k s) \<and> wf c' \<and>
    is_running c' = (\<lambda>j. is_running c j \<and> j \<noteq> t) \<and>
    (\<forall>p. get2 (machine_usage c') p =
       (if p \<in> set (id_to_config c ! t) then size_max else get2 (machine_usage c) p)) \<and>
    distinct ks \<and> set ks = fst ` set (id_to_config c ! t) \<and>
    published (comm c') = published (comm c) @ map (\<lambda>k. (task_topic (machines c ! k),
      to_string Y (stop_message (cmd_name_from_id t)))) ks \<and>
    id_to_config c' = id_to_config c \<and> machines c' = machines c"
proof -
  let ?V = "cgroup_virtuals Y order"
  have t: "t < cmd_counter c" using wf_running_lt [OF assms(1,2)] .
  have wid: "worker_id (thread_pool c ! t) = t" using assms(1) t by (simp add: wf_def)
  from tick_timestamp_total [OF assms(3)] obtain c1 where c1: "tick_timestamp (job_timer t) c = Inr c1"
    "enabled (timestamps c1) \<Longrightarrow> job_timer t \<in> timer_names (timestamps c1)"
    by (auto split: if_splits)
  from tock_timestamp_total [OF c1(2)] obtain c2 where c2: "tock_timestamp (job_timer t) c1 = Inr c2"
    by auto
  have book2: "book c2 = book c" using book_tick [OF c1(1)] book_tock [OF c2] by simp
  note fields2 = book_fields [OF book2]
  have comm2: "comm c2 = comm c" using tick_comm [OF c1(1)] tock_comm [OF c2] by simp
  have tl: "t < length (id_to_config c)" using assms(1) t by (simp add: wf_def)
  from delete_domain_ok [of order t c2 Y rest, OF assms(5)] tl assms(6) fields2 comm2 obtain m ks where
    m: "cgroup_delete_domain Y order t c2 = Inr (c2\<lparr>comm := m\<rparr>)" "distinct ks"
      "set ks = fst ` set (id_to_config c ! t)"
      "published m = published (comm c) @ map (\<lambda>k. (task_topic (machines c ! k),
        to_string Y (stop_message (cmd_name_from_id t)))) ks" by auto
  let ?c3 = "c2\<lparr>comm := m\<rparr>"
  have wf3: "wf ?c3" "is_running ?c3 t"
    using assms(1,2) book_wf [OF book2] is_running_cong [of ?c3 c] fields2 by simp_all
  let ?u = "put_all (id_to_config c ! t) size_max (machine_usage c)"
  let ?c' = "set_thread_state t Finished (?c3\<lparr>machine_usage := ?u\<rparr>)"
  have del: "delete_domain ?V t c2 = Inr ?c3" using m(1) by (simp add: cgroup_virtuals_def)
  have rel: "for_each release_slot (id_to_config c ! t) (machine_usage c) = Inr ?u"
    using release_running [OF assms(1,2)] .
  have run: "run_thread ?V callback t (c, s) = Inr (?c', k s)"
    using assms(2) wid c1(1) c2 del rel assms(4,7) tl fields2 book_fields(12) [OF book_tick [OF c1(1)]]
    by (simp add: run_thread_def execute_command_internal_def Let_def vec_at_in)
  note fin = cg.run_thread_finished [OF assms(1,2) run]
  note occ = occupied_running(4) [OF wf_occupied [OF assms(1)] assms(2)]
  have "get2 (machine_usage ?c') p = (if p \<in> set (id_to_config c ! t) then size_max
      else get2 (machine_usage c) p)" for p
    unfolding fin(3) using occ by (intro get2_put_all) blast
  moreover have "comm ?c' = m" "id_to_config ?c' = id_to_config c" "machines ?c' = machines c"
    using fields2 by (simp_all add: set_thread_state_def)
  ultimately show ?thesis using run fin(1,2) m(2-4) by (intro exI [of _ ?c'] exI [of _ ks]) simp
qed

text \<open>
  C14: when the command of a running job has ended, its worker removes the group of the job with
  one message to each of its machines and then frees all slots of the job and no others; the
  job no longer runs and the table still agrees with the configurations.
\<close>

theorem job_end_frees_slots:
  assumes "wf c" and "is_running c t" and "job_timer t \<notin> timer_names (timestamps c)"
    and "\<And>cmd. system_call c cmd \<noteq> -1" and "\<And>xs. mset (order xs) = mset xs"
    and "mail_ready Y (machines c) (map fst (id_to_config c ! t)) (comm c) rest"
    and "\<And>c. callback t c s = Inr (k s)"
  shows "\<exists>c' ks. run_thread (cgroup_virtuals Y order) callback t (c, s) = Inr (c', k s) \<and> wf c' \<and>
    is_running c' = (\<lambda>j. is_running c j \<and> j \<noteq> t) \<and>
    (\<forall>p. get2 (machine_usage c') p =
       (if p \<in> set (id_to_config c ! t) then size_max else get2 (machine_usage c) p)) \<and>
    distinct ks \<and> set ks = fst ` set (id_to_config c ! t) \<and>
    published (comm c') = published (comm c) @ map (\<lambda>k. (task_topic (machines c ! k),
      to_string Y (stop_message (cmd_name_from_id t)))) ks"
  using worker_ends [of c t order Y rest callback s k] assms by blast

theorem job_end_frees_slots_witness:
  "\<exists>c'. run_thread (cgroup_virtuals example_yaml id) (\<lambda>_ _. Inr) 0 (example_controller, ()) =
      Inr (c', ()) \<and> wf c' \<and> \<not> is_running c' 0 \<and> is_running c' 1 \<and>
      get2 (machine_usage c') (1, 0) = size_max \<and> get2 (machine_usage c') (0, 1) = 1"
proof -
  have "mail_ready example_yaml (machines example_controller)
      (map fst (id_to_config example_controller ! 0)) (comm example_controller) (\<lambda>_. [])"
    using success_reply_example ready_example
    by (simp add: mail_ready_def example_fields pending_example result_topic_def)
  moreover have "job_timer 0 \<notin> timer_names (timestamps example_controller)"
    "\<And>cmd. system_call example_controller cmd \<noteq> -1"
    by (simp_all add: example_controller_def new_time_measurement_def timer_names_def)
  ultimately show ?thesis
    using job_end_frees_slots [OF example_wf, of 0 id example_yaml "\<lambda>_. []" "\<lambda>_ _. Inr" "()" id]
    by (auto simp: example_running example_fields get2_def)
qed

subsection \<open>Freezing control groups\<close>

definition suspend_message :: "string \<Rightarrow> yaml" where
  "suspend_message name = set_key (set_key Null ''task'' (Scalar ''suspend vm''))
     ''list'' (Seq [emit_suspend (suspend_vm name True)])"

lemma emit_suspend_message:
  "emit_task_container (new_task_container\<lparr>tasks := [suspend_task name]\<rparr>) = Inr (suspend_message name)"
  by (simp add: emit_task_container_def container_type_def new_task_container_def no_value_def
      suspend_message_def encode_seq_def optional_emit_def merge_node_def set_key_def)

lemma acceptable_reply_example: "acceptable_reply example_yaml p"
  by (simp add: acceptable_reply_def result_container_from_string_def from_string_def
      example_yaml_def load_list_reply front_result_def result_of_def)

text \<open>
  C30: freezing the neighbours of a running job suspends exactly the groups of the jobs in the
  opposite slots: for each occupied slot of the opposing configuration, in its order, one
  suspend message goes to the machine of that slot and names the job that runs in it; empty
  slots get no message. One reply per message is consumed, and bookkeeping and timers stay.
\<close>

theorem freeze_opposing_suspends_neighbours:
  assumes "wf c" and "is_running c i" and "generate_opposing_config c i = Inr cfg"
    and "replies_pending c (occupied_elems c cfg) ps rest"
    and "\<forall>p \<in> set ps. acceptable_reply Y p"
  shows "\<exists>m. freeze_opposing Y (cgroup_virtuals Y order) i c = Inr (c\<lparr>comm := m\<rparr>) \<and>
    published m = published (comm c) @ map (\<lambda>e. (task_topic (machines c ! fst e),
      to_string Y (suspend_message (cmd_name_from_id (get2 (machine_usage c) e)))))
      (occupied_elems c cfg) \<and>
    (\<forall>t \<in> subscribed (comm c). pending m t = rest t)"
proof (rule freeze_opposing_ok [OF assms(1-3)])
  show "\<forall>e \<in> set (occupied_elems c cfg). domain_name (cgroup_virtuals Y order) e c =
      Inr (cmd_name_from_id (get2 (machine_usage c) e))"
  proof
    fix e assume "e \<in> set (occupied_elems c cfg)"
    then have "e \<in> set cfg" by (simp add: occupied_elems_def)
    then obtain e' where e': "e' \<in> set (id_to_config c ! i)" "fst e = fst e'" "snd e < 2"
      using assms(3) by (auto simp: generate_opposing_config_def)
    have sh: "shape 2 (machine_usage c)" using assms(1) by (simp add: wf_def)
    from occupied_running(4) [OF wf_occupied [OF assms(1)] assms(2) e'(1)] e' sh
    have "in2 (machine_usage c) e" by (simp add: in2_shape)
    then show "domain_name (cgroup_virtuals Y order) e c =
        Inr (cmd_name_from_id (get2 (machine_usage c) e))"
      by (simp add: cgroup_virtuals_def cgroup_domain_name_def at2_in)
  qed
qed (use assms in \<open>simp_all add: emit_suspend_message\<close>)

theorem freeze_opposing_suspends_neighbours_witness:
  "\<exists>m. freeze_opposing example_yaml (cgroup_virtuals example_yaml id) 0 example_controller =
      Inr (example_controller\<lparr>comm := m\<rparr>) \<and>
    published m = [(''fast/migfra/n1/task'', to_string example_yaml (suspend_message ''poncos_1''))]"
proof -
  let ?c = example_controller
  have cfg: "generate_opposing_config ?c 0 = Inr [(0, 1), (1, 1)]"
    by (simp add: generate_opposing_config_def example_fields size_max_def)
  have occ: "occupied_elems ?c [(0, 1), (1, 1)] = [(0, 1)]"
    by (simp add: occupied_elems_def example_fields get2_def size_max_def)
  have "replies_pending ?c [(0, 1)] [''ok'']
      (\<lambda>t. if t = ''fast/migfra/n2/result'' then [''ok''] else [])"
    using ready_example
    by (simp add: replies_pending_def pending_example example_fields result_topic_def)
  moreover have "published (comm ?c) = []" by (simp add: example_controller_def)
  ultimately obtain m where
    "freeze_opposing example_yaml (cgroup_virtuals example_yaml id) 0 ?c = Inr (?c\<lparr>comm := m\<rparr>)"
    "published m = [(task_topic (machines ?c ! 0), to_string example_yaml
      (suspend_message (cmd_name_from_id (get2 (machine_usage ?c) (0, 1)))))]"
    using freeze_opposing_suspends_neighbours [OF example_wf _ cfg, unfolded occ,
        of "[''ok'']" "\<lambda>t. if t = ''fast/migfra/n2/result'' then [''ok''] else []" example_yaml id]
    by (auto simp: example_running acceptable_reply_example simp del: One_nat_def)
  moreover have "cmd_name_from_id (get2 (machine_usage ?c) (0, 1)) = ''poncos_1''"
    "task_topic (machines ?c ! 0) = ''fast/migfra/n1/task''"
    by (simp_all add: example_fields get2_def cmd_name_from_id_def task_topic_def show_nat.simps
        digit_char_def)
  ultimately show ?thesis by (metis (no_types))
qed

subsection \<open>Freezing a job twice\<close>

lemma suspend_resume_timestamps:
  "suspend_resume_config Y V mk cfg c = Inr c' \<Longrightarrow>
     timestamps c' = timestamps c \<and> id_to_config c' = id_to_config c"
  by (auto simp: suspend_resume_config_def split: prod.splits)

text \<open>
  C32: a job can be frozen once: the timer that freezing starts has the same name every time and
  thawing does not remove it, so freezing the job again throws.
\<close>

theorem freeze_again_throws:
  assumes "enabled (timestamps c)" and "freeze Y V i c = Inr c1" and "thaw Y V i c1 = Inr c2"
  shows "freeze Y V i c2 =
    Inl (Exception (''Timer with name '' @ freeze_timer i @ '' already exists.''))"
proof -
  from assms(2) obtain d1 where d1: "tick_timestamp (freeze_timer i) c = Inr d1"
    "suspend_resume_config Y V (\<lambda>d. suspend_task d) (id_to_config d1 ! i) d1 = Inr c1"
    "i < length (id_to_config c)"
    by (auto simp: freeze_def)
  have tm1: "timestamps c1 = timestamps d1" "id_to_config c1 = id_to_config c"
    using suspend_resume_timestamps [OF d1(2)] book_fields(3) [OF book_tick [OF d1(1)]] by auto
  from assms(3) obtain d2 where d2:
    "suspend_resume_config Y V (\<lambda>d. resume_task d) (id_to_config c1 ! i) c1 = Inr d2"
    "tock_timestamp (freeze_timer i) d2 = Inr c2"
    by (auto simp: thaw_def)
  have tm2: "timestamps d2 = timestamps d1" "id_to_config d2 = id_to_config c"
    using suspend_resume_timestamps [OF d2(1)] tm1 by auto
  have "enabled (timestamps d1)" "map_of (timers (timestamps d1)) (freeze_timer i) \<noteq> None"
    using d1(1) assms(1)
    by (auto simp: tick_timestamp_def read_clock_def tick_def update_conv' split: if_splits)
  then have "enabled (timestamps c2)" "map_of (timers (timestamps c2)) (freeze_timer i) \<noteq> None"
    using d2(2) tm2
    by (auto simp: tock_timestamp_def read_clock_def tock_def update_conv' split: if_splits option.splits)
  moreover have "i < length (id_to_config c2)"
    using d1(3) tm2 book_fields(3) [OF book_tock [OF d2(2)]] by simp
  ultimately show ?thesis
    by (simp add: freeze_def tick_timestamp_def read_clock_def tick_def)
qed

theorem freeze_again_throws_witness:
  "\<exists>c1 c2. freeze example_yaml (cgroup_virtuals example_yaml id) 0
      (example_controller\<lparr>id_to_config := [[]]\<rparr>) = Inr c1 \<and>
    thaw example_yaml (cgroup_virtuals example_yaml id) 0 c1 = Inr c2 \<and>
    freeze example_yaml (cgroup_virtuals example_yaml id) 0 c2 =
      Inl (Exception ''Timer with name freeze-job-#0 already exists.'')"
proof -
  let ?V = "cgroup_virtuals example_yaml id" and ?c = "example_controller\<lparr>id_to_config := [[]]\<rparr>"
  obtain c1 where c1: "freeze example_yaml ?V 0 ?c = Inr c1" "id_to_config c1 = [[]]"
    "enabled (timestamps c1)" "map_of (timers (timestamps c1)) (freeze_timer 0) \<noteq> None"
    by (auto simp: freeze_def tick_timestamp_def read_clock_def tick_def suspend_resume_config_def
        example_controller_def new_time_measurement_def)
  obtain c2 where c2: "thaw example_yaml ?V 0 c1 = Inr c2"
    using c1(2-4)
    by (auto simp: thaw_def tock_timestamp_def read_clock_def tock_def suspend_resume_config_def
        split: option.splits)
  have "enabled (timestamps ?c)" by (simp add: example_controller_def new_time_measurement_def)
  from freeze_again_throws [OF this c1(1) c2] c1(1) c2 show ?thesis
    by (simp add: freeze_timer_def show_nat.simps digit_char_def)
qed

end
