(* ===== verification/Slot_Xml.thy ===== *)
theory Slot_Xml
  imports Job_Model Migfra_Task
begin

section \<open>The pool of virtual machines and their descriptions\<close>

text \<open>
  \<open>glob_vm_pool\<close> (\<open>system_config/vm_pool.cpp\<close>) and the rewriting of a slot's XML file in
  \<open>generate_start_task\<close> (\<open>src/controller_vm.cpp\<close>): \<open>std::regex_replace\<close> with four patterns,
  each a sequence of groups made of single characters from a class and of starred classes. The
  matcher tries the longest text for a star first and gives back, as the standard's grammar
  prescribes. The replacement texts hold no dollar sign but those of \<open>$1\<close> and \<open>$3\<close>.
\<close>

subsection \<open>The pool\<close>

record vm_pool_elemT =
  pool_name :: string
  mac_addr :: string

definition pool_elem :: "string \<Rightarrow> string \<Rightarrow> vm_pool_elemT" where
  "pool_elem name mac = \<lparr>pool_name = name, mac_addr = mac\<rparr>"

definition glob_vm_pool :: "vm_pool_elemT list" where
  "glob_vm_pool =
     [pool_elem ''parastation-1'' ''00:16:3e:6e:1c:c7'',
      pool_elem ''parastation-2'' ''00:16:3e:0a:5b:0f'',
      pool_elem ''parastation-3'' ''00:16:3e:3c:d4:1c'',
      pool_elem ''parastation-4'' ''00:16:3e:4b:0d:30'',
      pool_elem ''parastation-5'' ''00:16:3e:5b:f7:8b'',
      pool_elem ''parastation-6'' ''00:16:3e:62:10:3c'',
      pool_elem ''parastation-7'' ''00:16:3e:69:8d:21'',
      pool_elem ''parastation-8'' ''00:16:3e:6b:a6:8f'',
      pool_elem ''parastation-9'' ''00:16:3e:4f:d3:a2'',
      pool_elem ''parastation-10'' ''00:16:3e:75:3d:13'',
      pool_elem ''parastation-11'' ''00:16:3e:37:80:51'',
      pool_elem ''parastation-12'' ''00:16:3e:16:9c:b7'',
      pool_elem ''parastation-13'' ''00:16:3e:4e:1b:19'',
      pool_elem ''parastation-14'' ''00:16:3e:5a:74:7d'',
      pool_elem ''parastation-15'' ''00:16:3e:34:d8:9f'',
      pool_elem ''parastation-16'' ''00:16:3e:3b:7f:0a'',
      pool_elem ''parastation-17'' ''00:16:3e:37:bb:f5'',
      pool_elem ''parastation-18'' ''00:16:3e:4c:b7:77'',
      pool_elem ''parastation-19'' ''00:16:3e:11:1e:63'',
      pool_elem ''parastation-20'' ''00:16:3e:22:26:3c'',
      pool_elem ''parastation-21'' ''00:16:3e:66:e3:73'',
      pool_elem ''parastation-22'' ''00:16:3e:75:15:fb'',
      pool_elem ''parastation-23'' ''00:16:3e:74:40:6d'',
      pool_elem ''parastation-24'' ''00:16:3e:03:cb:1a'',
      pool_elem ''parastation-25'' ''00:16:3e:5a:a7:4d'',
      pool_elem ''parastation-26'' ''00:16:3e:39:2c:9c'',
      pool_elem ''parastation-27'' ''00:16:3e:7d:39:6c'',
      pool_elem ''parastation-28'' ''00:16:3e:52:6c:47'',
      pool_elem ''parastation-29'' ''00:16:3e:5e:f7:23'',
      pool_elem ''parastation-30'' ''00:16:3e:51:b4:76'',
      pool_elem ''parastation-31'' ''00:16:3e:51:db:2d'',
      pool_elem ''parastation-32'' ''00:16:3e:27:b1:98'',
      pool_elem ''parastation-33'' ''00:16:3e:59:0d:0d'',
      pool_elem ''parastation-34'' ''00:16:3e:09:bb:e0'',
      pool_elem ''parastation-35'' ''00:16:3e:57:ac:c2'',
      pool_elem ''parastation-36'' ''00:16:3e:38:06:dc'',
      pool_elem ''parastation-37'' ''00:16:3e:20:d3:aa'',
      pool_elem ''parastation-38'' ''00:16:3e:57:4f:22'',
      pool_elem ''parastation-39'' ''00:16:3e:27:de:b5'',
      pool_elem ''parastation-40'' ''00:16:3e:7c:24:fc'',
      pool_elem ''parastation-41'' ''00:16:3e:2b:c2:0a'',
      pool_elem ''parastation-42'' ''00:16:3e:2c:95:6f'',
      pool_elem ''parastation-43'' ''00:16:3e:09:5a:d3'',
      pool_elem ''parastation-44'' ''00:16:3e:70:ca:84'',
      pool_elem ''parastation-45'' ''00:16:3e:11:90:76'',
      pool_elem ''parastation-46'' ''00:16:3e:58:40:10'',
      pool_elem ''parastation-47'' ''00:16:3e:59:69:f2'',
      pool_elem ''parastation-48'' ''00:16:3e:20:02:84'',
      pool_elem ''parastation-49'' ''00:16:3e:0d:dc:67'',
      pool_elem ''parastation-50'' ''00:16:3e:0d:01:99'',
      pool_elem ''parastation-51'' ''00:16:3e:0e:2d:85'',
      pool_elem ''parastation-52'' ''00:16:3e:6a:bd:dd'',
      pool_elem ''parastation-53'' ''00:16:3e:11:0e:69'',
      pool_elem ''parastation-54'' ''00:16:3e:3e:1d:91'',
      pool_elem ''parastation-55'' ''00:16:3e:56:10:1d'',
      pool_elem ''parastation-56'' ''00:16:3e:69:fb:a4'',
      pool_elem ''parastation-57'' ''00:16:3e:35:00:65'',
      pool_elem ''parastation-58'' ''00:16:3e:7b:4e:fe'',
      pool_elem ''parastation-59'' ''00:16:3e:7b:36:a9'',
      pool_elem ''parastation-60'' ''00:16:3e:3e:2c:48'',
      pool_elem ''parastation-61'' ''00:16:3e:1c:55:70'',
      pool_elem ''parastation-62'' ''00:16:3e:52:a2:00'',
      pool_elem ''parastation-63'' ''00:16:3e:23:c3:a7'',
      pool_elem ''parastation-64'' ''00:16:3e:75:35:32'',
      pool_elem ''parastation-65'' ''00:16:3e:49:e1:82'',
      pool_elem ''parastation-66'' ''00:16:3e:6a:3f:36'',
      pool_elem ''parastation-67'' ''00:16:3e:0d:43:43'',
      pool_elem ''parastation-68'' ''00:16:3e:40:26:5c'',
      pool_elem ''parastation-69'' ''00:16:3e:7c:a0:18'',
      pool_elem ''parastation-70'' ''00:16:3e:18:b3:6f'',
      pool_elem ''parastation-71'' ''00:16:3e:22:d5:cf'',
      pool_elem ''parastation-72'' ''00:16:3e:12:56:15'',
      pool_elem ''parastation-73'' ''00:16:3e:3f:cf:a0'',
      pool_elem ''parastation-74'' ''00:16:3e:48:b1:30'',
      pool_elem ''parastation-75'' ''00:16:3e:0b:5f:3c'',
      pool_elem ''parastation-76'' ''00:16:3e:48:7c:16'',
      pool_elem ''parastation-77'' ''00:16:3e:3d:d5:9e'',
      pool_elem ''parastation-78'' ''00:16:3e:15:6f:fa'',
      pool_elem ''parastation-79'' ''00:16:3e:50:2e:90'',
      pool_elem ''parastation-80'' ''00:16:3e:7b:bb:b0'']"

subsection \<open>Regular expressions\<close>

datatype item = One "char \<Rightarrow> bool" | Many "char \<Rightarrow> bool"

text \<open>The text taken by every item of the first match at the beginning of the text.\<close>

function match_items :: "item list \<Rightarrow> string \<Rightarrow> string list option" where
  "match_items [] s = Some []"
| "match_items (One p # r) [] = None"
| "match_items (One p # r) (c # s) =
     (if p c then map_option (\<lambda>ts. [c] # ts) (match_items r s) else None)"
| "match_items (Many p # r) [] = map_option (\<lambda>ts. [] # ts) (match_items r [])"
| "match_items (Many p # r) (c # s) =
     (case (if p c then match_items (Many p # r) s else None) of
        Some (t # ts) \<Rightarrow> Some ((c # t) # ts)
      | _ \<Rightarrow> map_option (\<lambda>ts. [] # ts) (match_items r (c # s)))"
  by pat_completeness auto
termination by (relation "measures [\<lambda>(r, s). length r + length s]") auto

fun regroup :: "item list list \<Rightarrow> string list \<Rightarrow> string list" where
  "regroup [] ts = []"
| "regroup (g # gs) ts = concat (take (length g) ts) # regroup gs (drop (length g) ts)"

definition match_groups :: "item list list \<Rightarrow> string \<Rightarrow> string list option" where
  "match_groups re s = map_option (regroup re) (match_items (concat re) s)"

text \<open>
  \<open>regex_replace\<close> replaces the matches from left to right. No pattern of the code matches the
  empty text.
\<close>

function regex_replace :: "item list list \<Rightarrow> (string list \<Rightarrow> string) \<Rightarrow> string \<Rightarrow> string" where
  "regex_replace re f [] = []"
| "regex_replace re f (c # s) =
     (case match_groups re (c # s) of
        None \<Rightarrow> c # regex_replace re f s
      | Some gs \<Rightarrow> f gs @ regex_replace re f (drop (length (concat gs) - 1) s))"
  by pat_completeness auto
termination by (relation "measure (\<lambda>(re, f, s). length s)") auto

definition literal :: "string \<Rightarrow> item list" where
  "literal cs = map (\<lambda>c. One (\<lambda>x. x = c)) cs"

definition line_char :: "char \<Rightarrow> bool" where
  "line_char c \<longleftrightarrow> c \<noteq> CHR 0x0A \<and> c \<noteq> CHR 0x0D"

definition lower_hex :: "char \<Rightarrow> bool" where
  "lower_hex c \<longleftrightarrow> c \<in> set ''abcdef0123456789''"

definition hex_digit :: "char \<Rightarrow> bool" where
  "hex_digit c \<longleftrightarrow> c \<in> set ''0123456789ABCDEFabcdef''"

definition name_regex :: "item list list" where
  "name_regex = [literal ''<name>'', [One line_char, Many line_char], literal ''</name>'']"

definition disk_regex :: "item list list" where
  "disk_regex =
     [[Many line_char] @ literal ''<source file=\"'' @ [Many line_char],
      literal ''parastation-'' @ [Many line_char], literal ''.qcow2\"/>'']"

definition uuid_regex :: "item list list" where
  "uuid_regex =
     [replicate 8 (One lower_hex) @ literal ''-'' @ replicate 4 (One lower_hex) @ literal ''-'' @
      replicate 4 (One lower_hex) @ literal ''-'' @ replicate 4 (One lower_hex) @ literal ''-'' @
      replicate 12 (One lower_hex)]"

definition mac_regex :: "item list list" where
  "mac_regex =
     [concat (replicate 5 [One hex_digit, One hex_digit, One (\<lambda>c. c = CHR '':'' \<or> c = CHR ''-'')]),
      [One hex_digit, One hex_digit]]"

text \<open>The format \<open>"$1" + text + "$3"\<close>.\<close>

fun keep_outer :: "string \<Rightarrow> string list \<Rightarrow> string" where
  "keep_outer txt [a, b, c] = a @ txt @ c"
| "keep_outer txt gs = txt"

definition slot_xml :: "string \<Rightarrow> vm_pool_elemT \<Rightarrow> string \<Rightarrow> string" where
  "slot_xml txt free_vm uuid =
     (let txt = regex_replace name_regex (keep_outer (pool_name free_vm)) txt;
          txt = regex_replace disk_regex (keep_outer (pool_name free_vm)) txt;
          txt = regex_replace uuid_regex (\<lambda>_. uuid) txt
      in regex_replace mac_regex (\<lambda>_. mac_addr free_vm) txt)"

end
