(* ===== verification/Controller_Vm.thy ===== *)
theory Controller_Vm
  imports Controller_Properties Controller_Cgroup Slot_Xml
begin

section \<open>The controller for virtual machines\<close>

text \<open>
  \<open>vm_controller\<close> (\<open>src/controller_vm.cpp\<close>): every slot of every machine has a virtual machine
  that stays on for the whole run; a job runs in the virtual machines of its slots, and moving a
  job swaps its machines with those in the new slots by live migration. The record adds the
  fields of the class, the global pool, and of the environment the slot files (an unreadable
  file reads as the empty text) and the identifiers \<open>uuid_generate\<close> produces.
\<close>

record vm_controllerT = controllerT +
  slot_path :: string
  vm_locations :: "string list list"
  vm_pool :: "vm_pool_elemT list"
  slot_files :: "string \<Rightarrow> string"
  uuids :: "nat \<Rightarrow> string"
  uuid_count :: nat

definition vm_controller_ctor ::
  "mqtt \<Rightarrow> string option \<Rightarrow> system_configT \<Rightarrow> string \<Rightarrow> (nat \<Rightarrow> int) \<Rightarrow> (string \<Rightarrow> int) \<Rightarrow>
     nat list list \<Rightarrow> (string \<Rightarrow> string) \<Rightarrow> (nat \<Rightarrow> string) \<Rightarrow> vm_controllerT result" where
  "vm_controller_ctor cm machine_file sc path clk sys wake sfiles ids =
     rbind (controller_ctor cm machine_file sc clk sys wake) (\<lambda>c.
     rbind (for_each (\<lambda>mach. add_subscription (result_topic mach) 2) (machines c) (comm c)) (\<lambda>cm.
     Inr (controllerT.extend (c\<lparr>comm := cm\<rparr>)
       \<lparr>slot_path = path, vm_locations = [], vm_pool = glob_vm_pool, slot_files = sfiles,
        uuids = ids, uuid_count = 0\<rparr>)))"

subsection \<open>Starting and stopping the virtual machines\<close>

definition slot_file_name :: "string \<Rightarrow> nat \<Rightarrow> string" where
  "slot_file_name path slot = path @ ''/slot-'' @ show_nat slot @ ''.xml''"

definition generate_start_task ::
  "nat \<Rightarrow> vm_pool_elemT \<Rightarrow> vm_controllerT \<Rightarrow> Start \<times> vm_controllerT" where
  "generate_start_task slot free_vm c =
     (let xml = slot_xml (slot_files c (slot_file_name (slot_path c) slot)) free_vm
                  (uuids c (uuid_count c));
          task = start_from_xml xml [\<lparr>vendor = 0x15b3, device = 0x1004\<rparr>] True
      in (task\<lparr>start_transient := set_value (start_transient task) True\<rparr>,
          c\<lparr>uuid_count := Suc (uuid_count c)\<rparr>))"

text \<open>The tasks and the names for the slots of one machine.\<close>

definition add_vm ::
  "nat \<Rightarrow> (any_task list \<times> string list) \<times> vm_controllerT \<Rightarrow>
     ((any_task list \<times> string list) \<times> vm_controllerT) result" where
  "add_vm slot st =
     (case st of ((ts, names), c) \<Rightarrow>
        case vm_pool c of
          [] \<Rightarrow> Inl (Undefined_behaviour ''front of an empty list'')
        | free_vm # pool \<Rightarrow>
            (case generate_start_task slot free_vm (c\<lparr>vm_pool := pool\<rparr>) of (task, c) \<Rightarrow>
               rbind (vec_set names slot (pool_name free_vm)) (\<lambda>names.
               Inr ((ts @ [Start_task task], names), c))))"

definition start_machine ::
  "yaml_lib \<Rightarrow> string \<Rightarrow> vm_controllerT \<Rightarrow> vm_controllerT result" where
  "start_machine Y mach c =
     (let n = length (slots (system_config c)) in
      rbind (for_each add_vm [0..<n] (([], replicate n ''''), c)) (\<lambda>((ts, names), c).
      rbind (task_container_to_string Y (new_task_container\<lparr>tasks := ts\<rparr>)) (\<lambda>msg.
      rbind (send_message msg (task_topic mach) (comm c)) (\<lambda>cm.
      Inr (c\<lparr>comm := cm, vm_locations := vm_locations c @ [names]\<rparr>)))))"

definition await_machine ::
  "yaml_lib \<Rightarrow> string \<Rightarrow> Result_container \<times> mqtt \<Rightarrow> (Result_container \<times> mqtt) result" where
  "await_machine Y mach st =
     (case st of (response, cm) \<Rightarrow>
        rbind (get_message (result_topic mach) cm) (\<lambda>(msg, cm).
        rbind (result_container_from_string Y response msg) (\<lambda>response.
        rbind (all_success (results response)) (\<lambda>_. Inr (response, cm)))))"

definition await_machines ::
  "yaml_lib \<Rightarrow> vm_controllerT \<Rightarrow> vm_controllerT result" where
  "await_machines Y c =
     rbind (for_each (await_machine Y) (machines c) (new_result_container, comm c)) (\<lambda>(_, cm).
     Inr (c\<lparr>comm := cm\<rparr>))"

definition start_all_VMs :: "yaml_lib \<Rightarrow> vm_controllerT \<Rightarrow> vm_controllerT result" where
  "start_all_VMs Y c =
     rbind (for_each (start_machine Y) (machines c) c) (await_machines Y)"

definition stop_all_task :: Stop where
  "stop_all_task =
     (let task = new_stop;
          task = task\<lparr>stop_regex := set_value (stop_regex task) ''.*''\<rparr>;
          task = task\<lparr>stop_force := set_value (stop_force task) True\<rparr>
      in task\<lparr>task_concurrent_execution := set_value (task_concurrent_execution task) True\<rparr>)"

definition stop_machine :: "yaml_lib \<Rightarrow> string \<Rightarrow> mqtt \<Rightarrow> mqtt result" where
  "stop_machine Y mach cm =
     rbind (task_container_to_string Y (new_task_container\<lparr>tasks := [Stop_task stop_all_task]\<rparr>)) (\<lambda>msg.
     send_message msg (task_topic mach) cm)"

definition stop_all_VMs :: "yaml_lib \<Rightarrow> vm_controllerT \<Rightarrow> vm_controllerT result" where
  "stop_all_VMs Y c =
     rbind (for_each (stop_machine Y) (machines c) (comm c)) (\<lambda>cm.
     await_machines Y (c\<lparr>comm := cm\<rparr>))"

definition vm_init :: "yaml_lib \<Rightarrow> vm_controllerT \<Rightarrow> vm_controllerT result" where
  "vm_init Y c = rbind (stop_all_VMs Y c) (start_all_VMs Y)"

definition vm_dismantle :: "yaml_lib \<Rightarrow> vm_controllerT \<Rightarrow> vm_controllerT result" where
  "vm_dismantle Y c = stop_all_VMs Y c"

subsection \<open>Domains and commands\<close>

definition vm_create_domain :: "nat \<Rightarrow> vm_controllerT \<Rightarrow> vm_controllerT result" where
  "vm_create_domain i c = Inr c"

definition vm_delete_domain :: "nat \<Rightarrow> vm_controllerT \<Rightarrow> vm_controllerT result" where
  "vm_delete_domain i c = Inr c"

definition vm_domain_name :: "execute_config_elemT \<Rightarrow> vm_controllerT \<Rightarrow> string result" where
  "vm_domain_name e c = at2 (vm_locations c) (fst e) (snd e)"

definition vm_generate_command ::
  "jobT \<Rightarrow> nat \<Rightarrow> execute_config \<Rightarrow> vm_controllerT \<Rightarrow> (string \<times> vm_controllerT) result" where
  "vm_generate_command job i config c =
     rbind (for_each (\<lambda>e host_list.
              rbind (at2 (vm_locations c) (fst e) (snd e)) (\<lambda>vm. Inr (host_list @ vm @ '',''))) config '''') (\<lambda>host_list.
     rbind (if host_list = '''' then Inl (Undefined_behaviour ''pop_back of an empty string'')
            else Inr (butlast host_list)) (\<lambda>host_list.
     Inr (''mpiexec -np '' @ show_nat (nprocs job) @ '' -genv OMP_NUM_THREADS '' @
          show_nat (threads_per_proc job) @ '' -hosts '' @ host_list @ '' '' @ command job, c)))"

subsection \<open>Moving a job\<close>

definition generate_vcpu_map :: "vm_controllerT \<Rightarrow> nat \<Rightarrow> nat list list result" where
  "generate_vcpu_map c slot_id =
     rbind (slot_size (system_config c)) (\<lambda>sz.
     rbind (slot_conf (system_config c) slot_id) (\<lambda>slot.
     let vcpu_map = map (\<lambda>cpu. [cpu]) (cpus slot) in
     rbind (assert_that (length vcpu_map = sz) ''vcpu_map.size() == slot_size()'') (\<lambda>_.
     Inr vcpu_map)))"

text \<open>\<open>nprocs\<close> divided among the virtual machines of a job, if it uses the protocol.\<close>

definition hook_procs :: "vm_controllerT \<Rightarrow> nat \<Rightarrow> jobT \<Rightarrow> string option result" where
  "hook_procs c i job =
     (if \<not> uses_sr_protocol job then Inr None
      else rbind (vec_at (id_to_config c) i) (\<lambda>config.
           if config = [] then Inl (Undefined_behaviour ''division by zero'')
           else Inr (Some (show_nat (nprocs job div length config)))))"

definition set_swap :: "(Swap_with \<Rightarrow> Swap_with) \<Rightarrow> Migrate \<Rightarrow> Migrate" where
  "set_swap f task =
     task\<lparr>migrate_swap_with := (migrate_swap_with task)
       \<lparr>ptr := map_option f (ptr (migrate_swap_with task))\<rparr>\<rparr>"

definition with_vcpu_maps ::
  "vm_controllerT \<Rightarrow> nat \<Rightarrow> nat \<Rightarrow> Migrate \<Rightarrow> Migrate result" where
  "with_vcpu_maps c src_slot dest_slot task =
     (if src_slot = dest_slot then Inr task
      else rbind (generate_vcpu_map c dest_slot) (\<lambda>dest_map.
           rbind (generate_vcpu_map c src_slot) (\<lambda>src_map.
           Inr (set_swap (\<lambda>s. s\<lparr>swap_vcpu_map := set_value (swap_vcpu_map s) src_map\<rparr>)
             (task\<lparr>migrate_vcpu_map := set_value (migrate_vcpu_map task) dest_map\<rparr>)))))"

definition with_hooks :: "string option \<Rightarrow> string option \<Rightarrow> Migrate \<Rightarrow> Migrate" where
  "with_hooks src_procs dest_procs task =
     (let task = (case src_procs of None \<Rightarrow> task
            | Some n \<Rightarrow> task\<lparr>migrate_pscom_hook_procs := set_value (migrate_pscom_hook_procs task) n\<rparr>)
      in case dest_procs of None \<Rightarrow> task
         | Some n \<Rightarrow> set_swap (\<lambda>s. s\<lparr>swap_pscom_hook_procs := set_value (swap_pscom_hook_procs s) n\<rparr>) task)"

definition swap_task :: "string \<Rightarrow> string \<Rightarrow> string \<Rightarrow> Migrate" where
  "swap_task src_guest dest_host dest_guest =
     (let task = migrate_vm_procs src_guest dest_host ''warm'' True True 0 False
      in task\<lparr>migrate_swap_with :=
           set_value (migrate_swap_with task) (new_swap_with\<lparr>swap_vm_name := dest_guest\<rparr>)\<rparr>)"

definition update_timer :: "nat \<Rightarrow> string" where
  "update_timer i = ''update-config-job-#'' @ show_nat i"

definition swap_timer :: "string \<Rightarrow> string \<Rightarrow> nat \<Rightarrow> string" where
  "swap_timer src_host dest_host i = ''swap-'' @ src_host @ ''-'' @ dest_host @ ''-job-#'' @ show_nat i"

definition request_swap ::
  "yaml_lib \<Rightarrow> nat \<Rightarrow> execute_config \<Rightarrow> nat \<Rightarrow> vm_controllerT \<Rightarrow> vm_controllerT result" where
  "request_swap Y i new_config idx c =
     rbind (at2 (id_to_config c) i idx) (\<lambda>(src_host_idx, src_slot).
     rbind (vec_at new_config idx) (\<lambda>(dest_host_idx, dest_slot).
     if src_host_idx = dest_host_idx
     then rbind (assert_that (src_slot = dest_slot) ''src_slot == dest_slot'') (\<lambda>_. Inr c)
     else
       rbind (vec_at (machines c) src_host_idx) (\<lambda>src_host.
       rbind (vec_at (machines c) dest_host_idx) (\<lambda>dest_host.
       rbind (at2 (vm_locations c) src_host_idx src_slot) (\<lambda>src_guest.
       rbind (at2 (vm_locations c) dest_host_idx dest_slot) (\<lambda>dest_guest.
       rbind (vec_at (id_to_job c) i) (\<lambda>src_job.
       rbind (at2 (machine_usage c) dest_host_idx dest_slot) (\<lambda>dest_job_id.
       rbind (vec_at (id_to_job c) dest_job_id) (\<lambda>dest_job.
       rbind (with_vcpu_maps c src_slot dest_slot (swap_task src_guest dest_host dest_guest)) (\<lambda>task.
       rbind (hook_procs c i src_job) (\<lambda>src_procs.
       rbind (hook_procs c dest_job_id dest_job) (\<lambda>dest_procs.
       rbind (task_container_to_string Y
                (new_task_container\<lparr>tasks := [Migrate_task (with_hooks src_procs dest_procs task)]\<rparr>)) (\<lambda>msg.
       rbind (tick_timestamp (swap_timer src_host dest_host i) c) (\<lambda>c.
       rbind (send_message msg (task_topic src_host) (comm c)) (\<lambda>cm.
       Inr (c\<lparr>comm := cm\<rparr>))))))))))))))))"

definition swap_locations ::
  "execute_config_elemT \<Rightarrow> execute_config_elemT \<Rightarrow> string list list \<Rightarrow> string list list result" where
  "swap_locations a b locs =
     rbind (at2 locs (fst a) (snd a)) (\<lambda>va.
     rbind (at2 locs (fst b) (snd b)) (\<lambda>vb.
     rbind (set2 locs (fst a) (snd a) vb) (\<lambda>locs.
     set2 locs (fst b) (snd b) va)))"

definition await_swap ::
  "yaml_lib \<Rightarrow> nat \<Rightarrow> execute_config \<Rightarrow> nat \<Rightarrow> Result_container \<times> vm_controllerT \<Rightarrow>
     (Result_container \<times> vm_controllerT) result" where
  "await_swap Y i new_config idx st =
     (case st of (response, c) \<Rightarrow>
        rbind (at2 (id_to_config c) i idx) (\<lambda>src.
        rbind (vec_at new_config idx) (\<lambda>dest.
        rbind (vec_at (machines c) (fst src)) (\<lambda>src_host.
        rbind (vec_at (machines c) (fst dest)) (\<lambda>dest_host.
        if fst src = fst dest then Inr (response, c)
        else
          rbind (get_message (result_topic src_host) (comm c)) (\<lambda>(msg, cm).
          rbind (result_container_from_string Y response msg) (\<lambda>response.
          rbind (tock_timestamp (swap_timer src_host dest_host i) (c\<lparr>comm := cm\<rparr>)) (\<lambda>c.
          rbind (front_result response) (\<lambda>r.
          rbind (assert_that (status r = ''success'') ''results.front().status == success'') (\<lambda>_.
          rbind (swap_locations src dest (vm_locations c)) (\<lambda>locs.
          Inr (response, c\<lparr>vm_locations := locs\<rparr>))))))))))))"

definition vm_update_config ::
  "yaml_lib \<Rightarrow> nat \<Rightarrow> execute_config \<Rightarrow> vm_controllerT \<Rightarrow> vm_controllerT result" where
  "vm_update_config Y i new_config c =
     rbind (tick_timestamp (update_timer i) c) (\<lambda>c.
     rbind (vec_at (id_to_config c) i) (\<lambda>old_config.
     rbind (assert_that (length old_config = length new_config)
              ''old_config.size() == new_config.size()'') (\<lambda>_.
     rbind (for_each (request_swap Y i new_config) [0..<length new_config] c) (\<lambda>c.
     rbind (for_each (await_swap Y i new_config) [0..<length new_config] (new_result_container, c)) (\<lambda>(_, c).
     rbind (base_update_config i new_config c) (tock_timestamp (update_timer i)))))))"

definition vm_virtuals :: "yaml_lib \<Rightarrow> vm_controllerT virtuals" where
  "vm_virtuals Y =
     \<lparr>create_domain = vm_create_domain, delete_domain = vm_delete_domain,
      generate_command = vm_generate_command, domain_name = vm_domain_name,
      update_config = vm_update_config Y, update_supported = True,
      init = vm_init Y, dismantle = vm_dismantle Y\<rparr>"

subsection \<open>The contract of the base class\<close>

lemma book_vm_updates [simp]:
  "book (c\<lparr>vm_locations := l\<rparr>) = book c" "book (c\<lparr>vm_pool := p\<rparr>) = book c"
  "book (c\<lparr>uuid_count := n\<rparr>) = book c"
  by (simp_all add: book_def)

lemma request_swap_keeps:
  assumes "request_swap Y i new idx c = Inr c'"
  shows "book c' = book c \<and> vm_locations c' = vm_locations c"
proof -
  have "vm_locations d' = vm_locations d" if "tick_timestamp n d = Inr d'" for n d d'
    using that by (auto simp: tick_timestamp_def read_clock_def)
  with assms show ?thesis
    by (auto simp: request_swap_def split: if_splits prod.splits dest: book_tick)
qed

lemma await_swap_book:
  "await_swap Y i new idx (r, c) = Inr (r', c') \<Longrightarrow> book c' = book c"
  by (auto simp: await_swap_def split: if_splits prod.splits dest: book_tock)

lemma vm_update_phases:
  assumes "vm_update_config Y i new c = Inr c'"
  obtains c1 c2 c3 r c4 where "tick_timestamp (update_timer i) c = Inr c1"
    "for_each (request_swap Y i new) [0..<length new] c1 = Inr c2"
    "for_each (await_swap Y i new) [0..<length new] (new_result_container, c2) = Inr (r, c3)"
    "base_update_config i new c3 = Inr c4" "tock_timestamp (update_timer i) c4 = Inr c'"
    "book c2 = book c" "book c3 = book c" "length (id_to_config c ! i) = length new"
proof -
  from assms obtain c1 c2 c3 r c4 where st: "tick_timestamp (update_timer i) c = Inr c1"
    "for_each (request_swap Y i new) [0..<length new] c1 = Inr c2"
    "for_each (await_swap Y i new) [0..<length new] (new_result_container, c2) = Inr (r, c3)"
    "base_update_config i new c3 = Inr c4" "tock_timestamp (update_timer i) c4 = Inr c'"
    "length (id_to_config c1 ! i) = length new"
    by (auto simp: vm_update_config_def)
  have "book c2 = book c1"
    using request_swap_keeps by (intro for_each_invariant [OF st(2), of "\<lambda>d. book d = book c1"]) auto
  moreover have "book (snd (r, c3)) = book c2"
    using await_swap_book by (intro for_each_invariant [OF st(3), of "\<lambda>d. book (snd d) = book c2"]) auto
  ultimately show ?thesis
    using that [OF st(1-5)] st(6) book_tick [OF st(1)] book_fields(3) [OF book_tick [OF st(1)]] by simp
qed

lemma vm_update_keeps:
  assumes "wf c" and "is_running c i" and "distinct cfg"
    and "\<forall>p \<in> set cfg. in2 (machine_usage c) p" and "vm_update_config Y i cfg c = Inr c'"
  shows "wf c' \<and> id_to_config c' ! i = cfg \<and> is_running c' = is_running c"
proof -
  from assms(5) obtain c3 c4 where st: "base_update_config i cfg c3 = Inr c4"
    "tock_timestamp (update_timer i) c4 = Inr c'" "book c3 = book c"
    "length (id_to_config c ! i) = length cfg"
    by (rule vm_update_phases)
  note f3 = book_fields [OF st(3)]
  have run3: "is_running c3 = is_running c" using is_running_cong f3(8) by blast
  have wf3: "wf c3" using assms(1) book_wf [OF st(3)] by simp
  from base_update_config_ok [OF wf3, of i cfg] assms(2-4) st(4) run3 f3 obtain u cfgs where
    up: "base_update_config i cfg c3 = Inr (c3\<lparr>machine_usage := u, id_to_config := cfgs\<rparr>)"
    "updating i cfg (is_running c3) (machine_usage c3, id_to_config c3) (length cfg) (u, cfgs)"
    "cfgs ! i = cfg" by auto
  have c4: "c4 = c3\<lparr>machine_usage := u, id_to_config := cfgs\<rparr>" using st(1) up(1) by simp
  have book': "book c' = book c4" using book_tock [OF st(2)] .
  have "wf c4" using wf_updated [OF wf3 up(2)] c4 by simp
  then have "wf c'" using book_wf [OF book'] by simp
  moreover have "is_running c' = is_running c"
    using is_running_cong [of c' c4] is_running_cong [of c4 c3] book_fields(8) [OF book'] c4 run3 by simp
  moreover have "id_to_config c' ! i = cfg" using book_fields(3) [OF book'] c4 up(3) by simp
  ultimately show ?thesis by blast
qed

lemma vm_command_state: "vm_generate_command job i cfg c = Inr (cmd, c') \<Longrightarrow> c' = c"
  by (auto simp: vm_generate_command_def split: if_splits)

interpretation vmc: quiet_controller "vm_virtuals Y" for Y
  by unfold_locales
    (auto simp: vm_virtuals_def vm_create_domain_def vm_delete_domain_def
      dest: vm_command_state vm_update_keeps)

end
