(* ===== verification/Agent_Messages.thy ===== *)
theory Agent_Messages
  imports Yaml_Node
begin

section \<open>Messages of the agents and the bandwidth monitor\<close>

text \<open>
  The structures of \<open>vendor/fast-lib/src/message/agent/\<close>: the request and the reply of the
  memory bandwidth monitor that the schedulers exchange with every machine, its acknowledge,
  restart and stop messages, and the messages that start and stop an agent. A reply carries a
  double.
\<close>

subsection \<open>Bandwidth monitor\<close>

record request =
  request_cores :: "nat list"

record reply =
  reply_cores :: "nat list"
  reply_result :: double

record restart =
  restart_cgroup :: string

record stop =
  stop_cgroup :: string

definition emit_request :: "request \<Rightarrow> yaml" where
  "emit_request r =
     set_key (set_key Null ''task'' (Scalar ''mmbwmon request''))
       ''cores'' (encode_seq encode_nat (request_cores r))"

definition load_request :: "request \<Rightarrow> yaml \<Rightarrow> request result" where
  "load_request r node =
     rbind (load_key (decode_seq decode_size_t) node ''cores'') (\<lambda>cs.
     Inr (r\<lparr>request_cores := cs\<rparr>))"

text \<open>The text of a double is the emitter's; \<open>show_d\<close> stands for it.\<close>

definition emit_reply :: "(double \<Rightarrow> string) \<Rightarrow> reply \<Rightarrow> yaml" where
  "emit_reply show_d r =
     set_key (set_key (set_key Null ''task'' (Scalar ''mmbwmon response''))
       ''cores'' (encode_seq encode_nat (reply_cores r)))
       ''result'' (Scalar (show_d (reply_result r)))"

definition load_reply :: "reply \<Rightarrow> yaml \<Rightarrow> reply result" where
  "load_reply r node =
     rbind (load_key (decode_seq decode_size_t) node ''cores'') (\<lambda>cs.
     rbind (load_key decode_double node ''result'') (\<lambda>d.
     Inr (r\<lparr>reply_cores := cs, reply_result := d\<rparr>)))"

text \<open>A default constructed reply; the double is not initialised and not read before a load.\<close>

definition new_reply :: reply where
  "new_reply = \<lparr>reply_cores = [], reply_result = Not_a_number\<rparr>"

definition emit_ack :: yaml where
  "emit_ack = set_key Null ''task'' (Scalar ''mmbwmon ack'')"

definition load_ack :: "yaml \<Rightarrow> unit result" where
  "load_ack node = Inr ()"

definition emit_restart :: "restart \<Rightarrow> yaml" where
  "emit_restart r =
     set_key (set_key Null ''task'' (Scalar ''mmbwmon restart''))
       ''cgroup'' (Scalar (restart_cgroup r))"

definition load_restart :: "restart \<Rightarrow> yaml \<Rightarrow> restart result" where
  "load_restart r node =
     rbind (load_key decode_string node ''cgroup'') (\<lambda>g. Inr (r\<lparr>restart_cgroup := g\<rparr>))"

definition emit_stop_mmbwmon :: "stop \<Rightarrow> yaml" where
  "emit_stop_mmbwmon s =
     set_key (set_key Null ''task'' (Scalar ''mmbwmon stop''))
       ''cgroup'' (Scalar (stop_cgroup s))"

definition load_stop_mmbwmon :: "stop \<Rightarrow> yaml \<Rightarrow> stop result" where
  "load_stop_mmbwmon s node =
     rbind (load_key decode_string node ''cgroup'') (\<lambda>g. Inr (s\<lparr>stop_cgroup := g\<rparr>))"

subsection \<open>Agents\<close>

record kpis =
  categories :: "(string \<times> string) list"
  kpi_repeat :: nat

record init_agent =
  KPIs :: kpis

record agent_init =
  init_hostname :: string

record job_description =
  job_id :: string
  process_id :: nat

record stop_monitoring =
  job_desc :: job_description

definition emit_kpis :: "kpis \<Rightarrow> yaml" where
  "emit_kpis k =
     (let cat = fold (\<lambda>(c, v) node. set_key node c (Scalar v)) (categories k) Null
      in set_key (set_key Null ''categories'' cat) ''repeat'' (encode_nat (kpi_repeat k)))"

text \<open>A \<open>std::map\<close> is read from a map node, every key and value converted in turn.\<close>

fun decode_pairs :: "'a decoder \<Rightarrow> (string \<times> yaml) list \<Rightarrow> (string \<times> 'a) list result" where
  "decode_pairs dec [] = Inr []"
| "decode_pairs dec ((k, n) # kvs) =
     rbind (as dec n) (\<lambda>v. rbind (decode_pairs dec kvs) (\<lambda>r. Inr ((k, v) # r)))"

fun decode_map :: "'a decoder \<Rightarrow> (string \<times> 'a) list decoder" where
  "decode_map dec (Map kvs) = rbind (decode_pairs dec kvs) (\<lambda>r. Inr (Some r))"
| "decode_map dec _ = Inr None"

definition load_kpis :: "kpis \<Rightarrow> yaml \<Rightarrow> kpis result" where
  "load_kpis k node =
     rbind (load_key decode_unsigned node ''repeat'') (\<lambda>r.
     rbind (load_key (decode_map decode_string) node ''categories'') (\<lambda>cs.
     Inr (k\<lparr>categories := cs, kpi_repeat := r\<rparr>)))"

definition emit_init_agent :: "init_agent \<Rightarrow> yaml" where
  "emit_init_agent m =
     set_key (set_key Null ''task'' (Scalar ''init agent'')) ''KPI'' (emit_kpis (KPIs m))"

definition load_init_agent :: "init_agent \<Rightarrow> yaml \<Rightarrow> init_agent result" where
  "load_init_agent m node =
     rbind (node_index node ''KPI'') (\<lambda>kpi.
     rbind (rbind (node_index_opt kpi ''repeat'') (load decode_unsigned)) (\<lambda>r.
     rbind (rbind (node_index_opt kpi ''categories'') (load (decode_map decode_string))) (\<lambda>cs.
     Inr (m\<lparr>KPIs := (KPIs m)\<lparr>categories := cs, kpi_repeat := r\<rparr>\<rparr>))))"

definition emit_agent_init :: "agent_init \<Rightarrow> yaml" where
  "emit_agent_init i =
     set_key (set_key Null ''task'' (Scalar ''init'')) ''hostname'' (Scalar (init_hostname i))"

definition load_agent_init :: "agent_init \<Rightarrow> yaml \<Rightarrow> agent_init result" where
  "load_agent_init i node =
     rbind (load_key decode_string node ''hostname'') (\<lambda>h. Inr (i\<lparr>init_hostname := h\<rparr>))"

definition emit_job_description :: "job_description \<Rightarrow> yaml" where
  "emit_job_description d =
     set_key (set_key Null ''job-id'' (Scalar (job_id d)))
       ''process-id'' (encode_nat (process_id d))"

definition load_job_description :: "job_description \<Rightarrow> yaml \<Rightarrow> job_description result" where
  "load_job_description d node =
     rbind (load_key decode_string node ''job-id'') (\<lambda>j.
     rbind (load_key decode_unsigned node ''process-id'') (\<lambda>p.
     Inr (d\<lparr>job_id := j, process_id := p\<rparr>)))"

definition emit_stop_monitoring :: "stop_monitoring \<Rightarrow> yaml" where
  "emit_stop_monitoring m =
     set_key (set_key Null ''task'' (Scalar ''stop monitoring''))
       ''job-description'' (emit_job_description (job_desc m))"

definition load_stop_monitoring :: "stop_monitoring \<Rightarrow> yaml \<Rightarrow> stop_monitoring result" where
  "load_stop_monitoring m node =
     rbind (node_index node ''job-description'') (\<lambda>d.
     rbind (rbind (node_index_opt d ''job-id'') (load decode_string)) (\<lambda>j.
     rbind (rbind (node_index_opt d ''process-id'') (load decode_unsigned)) (\<lambda>p.
     Inr (m\<lparr>job_desc := (job_desc m)\<lparr>job_id := j, process_id := p\<rparr>\<rparr>))))"

subsection \<open>Round trips\<close>

definition cores_ok :: "nat list \<Rightarrow> bool" where
  "cores_ok cs \<longleftrightarrow> (\<forall>c \<in> set cs. c < 2 ^ 64)"

lemma as_cores [decode_simps]:
  "cores_ok cs \<Longrightarrow> as (decode_seq decode_size_t) (encode_seq encode_nat cs) = Inr cs"
  by (intro as_seq ballI as_uint) (auto simp: cores_ok_def)

lemma load_emit_request: "cores_ok (request_cores r) \<Longrightarrow> load_request q (emit_request r) = Inr r"
  by (simp add: load_request_def emit_request_def load_key_def load_def yaml_simps as_cores)

text \<open>
  The text of the double in a reply is the emitter's. What is read is the reply with the value
  this text has, which is the value that was sent if the text denotes it.
\<close>

lemma load_emit_reply:
  "cores_ok (reply_cores r) \<Longrightarrow> load_reply r0 (emit_reply show_d r) =
     rbind (as decode_double (Scalar (show_d (reply_result r)))) (\<lambda>d. Inr (r\<lparr>reply_result := d\<rparr>))"
  by (cases r0; cases r)
    (simp add: load_reply_def emit_reply_def load_key_def load_def yaml_simps as_cores)

lemma load_emit_reply_exact:
  "cores_ok (reply_cores r) \<Longrightarrow> parse_double (show_d (reply_result r)) = Some (reply_result r) \<Longrightarrow>
     load_reply r0 (emit_reply show_d r) = Inr r"
  by (simp add: load_emit_reply as_def)

lemma load_emit_texts:
  "load_restart p0 (emit_restart p) = Inr p" "load_stop_mmbwmon w0 (emit_stop_mmbwmon w) = Inr w"
  "load_agent_init a0 (emit_agent_init a) = Inr a"
  by (simp_all add: load_restart_def emit_restart_def load_stop_mmbwmon_def emit_stop_mmbwmon_def
      load_agent_init_def emit_agent_init_def load_key_def load_def yaml_simps as_string)

lemma categories_pairs:
  "distinct (map fst cs) \<Longrightarrow> (\<forall>k \<in> set (map fst cs). k \<notin> set (map fst kvs)) \<Longrightarrow>
     node_pairs (fold (\<lambda>(c, v) node. set_key node c (Scalar v)) cs (Map kvs)) =
       kvs @ map (\<lambda>(c, v). (c, Scalar v)) cs"
proof (induction cs arbitrary: kvs)
  case (Cons p cs)
  obtain c v where p: "p = (c, v)" by (cases p)
  have "set_pair c (Scalar v) kvs = kvs @ [(c, Scalar v)]" if "c \<notin> set (map fst kvs)"
    using that by (induction kvs) auto
  with Cons.prems p have "set_key (Map kvs) c (Scalar v) = Map (kvs @ [(c, Scalar v)])"
    by (simp add: set_key_def)
  moreover from Cons.prems p have "\<forall>k \<in> set (map fst cs). k \<notin> set (map fst (kvs @ [(c, Scalar v)]))"
    by auto
  ultimately show ?case
    using Cons.IH [of "kvs @ [(c, Scalar v)]"] Cons.prems(1) p by simp
qed simp

lemma decode_pairs_scalars: "decode_pairs decode_string (map (\<lambda>(c, v). (c, Scalar v)) cs) = Inr cs"
  by (induction cs) (auto simp: as_string)

text \<open>
  Indicators come back unless there is no category at all: then the node under
  \<open>categories\<close> was never assigned anything and is null, which is not a map.
\<close>

definition kpis_ok :: "kpis \<Rightarrow> bool" where
  "kpis_ok k \<longleftrightarrow> categories k \<noteq> [] \<and> distinct (map fst (categories k)) \<and> kpi_repeat k < 2 ^ 32"

lemma categories_node:
  assumes "cs \<noteq> []" and "distinct (map fst cs)"
  shows "fold (\<lambda>(c, v) node. set_key node c (Scalar v)) cs Null = Map (map (\<lambda>(c, v). (c, Scalar v)) cs)"
proof -
  let ?step = "\<lambda>(c, v :: string) node. set_key node c (Scalar v)"
  have shape: "\<exists>kvs. fold ?step cs n = Map kvs" if "\<exists>kvs. n = Map kvs" for cs n
    using that by (induction cs arbitrary: n) (auto simp: set_key_def split_def)
  obtain c v ds where cs: "cs = (c, v) # ds" using assms(1) by (cases cs) auto
  then have first: "fold ?step cs Null = fold ?step ds (Map [(c, Scalar v)])"
    by (simp add: set_key_def)
  then obtain kvs where kvs: "fold ?step cs Null = Map kvs" using shape by auto
  have "node_pairs (fold ?step ds (Map [(c, Scalar v)])) = [(c, Scalar v)] @ map (\<lambda>(c, v). (c, Scalar v)) ds"
    by (rule categories_pairs) (use assms(2) cs in auto)
  with first kvs cs show ?thesis by simp
qed

lemma load_emit_kpis:
  assumes "kpis_ok k"
  shows "load_kpis k0 (emit_kpis k) = Inr k"
    and "load_init_agent m0 (emit_init_agent \<lparr>KPIs = k\<rparr>) = Inr \<lparr>KPIs = k\<rparr>"
proof -
  have cats: "as (decode_map decode_string) (fold (\<lambda>(c, v) node. set_key node c (Scalar v))
      (categories k) Null) = Inr (categories k)"
    using assms by (simp add: kpis_ok_def categories_node as_def decode_pairs_scalars)
  show "load_kpis k0 (emit_kpis k) = Inr k"
    using assms
    by (simp add: load_kpis_def emit_kpis_def load_key_def load_def yaml_simps cats as_uint kpis_ok_def)
  show "load_init_agent m0 (emit_init_agent \<lparr>KPIs = k\<rparr>) = Inr \<lparr>KPIs = k\<rparr>"
    using assms
    by (simp add: load_init_agent_def emit_init_agent_def emit_kpis_def load_def yaml_simps cats
        as_uint kpis_ok_def)
qed

lemma load_emit_description:
  assumes "process_id d < 2 ^ 32"
  shows "load_job_description d0 (emit_job_description d) = Inr d"
    and "load_stop_monitoring s0 (emit_stop_monitoring \<lparr>job_desc = d\<rparr>) = Inr \<lparr>job_desc = d\<rparr>"
  using assms
  by (simp_all add: load_job_description_def load_stop_monitoring_def emit_stop_monitoring_def
      emit_job_description_def load_key_def load_def yaml_simps as_string as_uint)



end
