(* ===== verification/Scheduler_Base.thy ===== *)
theory Scheduler_Base
  imports Agent_Messages Binary64 Controller_Properties
begin

section \<open>What the schedulers share\<close>

text \<open>
  \<open>schedulerT::run_distgen\<close> (\<open>src/scheduler.cpp\<close>): for every entry of the configuration opposite
  to a job the bandwidth monitor of its machine is asked to measure on the processors of that
  slot; the answers are the results, in the order of the configuration. The communicator the
  scheduler is given is the controller's own. The rest of the theory follows a property of
  controller and scheduler through the waits.
\<close>

subsection \<open>Measuring\<close>

definition distgen_request_topic :: "string \<Rightarrow> string" where
  "distgen_request_topic mach = ''fast/agent/'' @ mach @ ''/mmbwmon/request''"

definition distgen_response_topic :: "string \<Rightarrow> string" where
  "distgen_response_topic mach = ''fast/agent/'' @ mach @ ''/mmbwmon/response''"

definition distgen_request ::
  "yaml_lib \<Rightarrow> 'z controllerT_scheme \<Rightarrow> execute_config_elemT \<Rightarrow> mqtt \<Rightarrow> mqtt result" where
  "distgen_request Y c e cm =
     rbind (slot_conf (system_config c) (snd e)) (\<lambda>slot.
     rbind (vec_at (machines c) (fst e)) (\<lambda>mach.
     send_message (to_string Y (emit_request \<lparr>request_cores = cpus slot\<rparr>))
       (distgen_request_topic mach) cm))"

definition reply_from_string :: "yaml_lib \<Rightarrow> string \<Rightarrow> reply result" where
  "reply_from_string Y s = from_string Y (load_reply new_reply) s"

definition distgen_reply ::
  "yaml_lib \<Rightarrow> 'z controllerT_scheme \<Rightarrow> execute_config_elemT \<Rightarrow> double list \<times> mqtt \<Rightarrow>
     (double list \<times> mqtt) result" where
  "distgen_reply Y c e st =
     (case st of (ret, cm) \<Rightarrow>
        rbind (vec_at (machines c) (fst e)) (\<lambda>mach.
        rbind (get_message (distgen_response_topic mach) cm) (\<lambda>(msg, cm).
        rbind (reply_from_string Y msg) (\<lambda>m.
        Inr (ret @ [reply_result m], cm)))))"

definition run_distgen ::
  "yaml_lib \<Rightarrow> nat \<Rightarrow> 'z controllerT_scheme \<Rightarrow> (double list \<times> 'z controllerT_scheme) result" where
  "run_distgen Y i c =
     rbind (generate_opposing_config c i) (\<lambda>config.
     rbind (assert_that (config \<noteq> []) ''!config.empty()'') (\<lambda>_.
     rbind (for_each (distgen_request Y c) config (comm c)) (\<lambda>cm.
     rbind (for_each (distgen_reply Y c) config ([], cm)) (\<lambda>(ret, cm).
     Inr (ret, c\<lparr>comm := cm\<rparr>)))))"

lemma run_distgen_book:
  "run_distgen Y i c = Inr (ret, c') \<Longrightarrow> book c' = book c"
  by (auto simp: run_distgen_def)

lemma distgen_length:
  "for_each (distgen_reply Y c) config (ret, cm) = Inr (ret', cm') \<Longrightarrow>
     length ret' = length ret + length config"
  by (induction config arbitrary: ret cm) (fastforce simp: distgen_reply_def)+

lemma run_distgen_length:
  "run_distgen Y i c = Inr (ret, c') \<Longrightarrow> length ret = length (id_to_config c ! i) \<and> ret \<noteq> []"
  using distgen_length [where ret = "[]"]
  by (force simp: run_distgen_def generate_opposing_config_def)

subsection \<open>The largest and the smallest element\<close>

text \<open>
  \<open>std::max_element\<close> and \<open>std::min_element\<close>: the position of the first of the best elements,
  0 if there is none.
\<close>

fun best_index ::
  "(double \<Rightarrow> double \<Rightarrow> bool) \<Rightarrow> nat \<Rightarrow> double \<Rightarrow> nat \<Rightarrow> double list \<Rightarrow> nat" where
  "best_index better b v k [] = b"
| "best_index better b v k (x # xs) =
     (if better x v then best_index better k x (Suc k) xs else best_index better b v (Suc k) xs)"

definition max_element :: "double list \<Rightarrow> nat" where
  "max_element xs = (case xs of [] \<Rightarrow> 0 | x # xs \<Rightarrow> best_index (\<lambda>x y. double_less y x) 0 x 1 xs)"

definition min_element :: "double list \<Rightarrow> nat" where
  "min_element xs = (case xs of [] \<Rightarrow> 0 | x # xs \<Rightarrow> best_index double_less 0 x 1 xs)"

lemma best_index_bound:
  "b < k \<Longrightarrow> best_index better b v k xs < k + length xs"
proof (induction xs arbitrary: b v k)
  case (Cons x xs)
  from Cons.IH [of k "Suc k" x] Cons.IH [of b "Suc k" v] Cons.prems show ?case by simp
qed simp

lemma max_element_in: "xs \<noteq> [] \<Longrightarrow> max_element xs < length xs"
  using best_index_bound [of 0 1] by (cases xs) (auto simp: max_element_def)

lemma min_element_in: "xs \<noteq> [] \<Longrightarrow> min_element xs < length xs"
  using best_index_bound [of 0 1] by (cases xs) (auto simp: min_element_def)

subsection \<open>The measurement, end to end\<close>

text \<open>The replies \<open>ps\<close> for the entries \<open>es\<close> are what the response topics hold next.\<close>

definition measurements_pending ::
  "yaml_lib \<Rightarrow> 'z controllerT_scheme \<Rightarrow> execute_config \<Rightarrow> double list \<Rightarrow> (string \<Rightarrow> string list) \<Rightarrow> bool"
where
  "measurements_pending Y c es ds rest \<longleftrightarrow> ready (comm c) \<and>
     (\<forall>e \<in> set es. distgen_response_topic (machines c ! fst e) \<in> subscribed (comm c)) \<and>
     (\<exists>ps. length ps = length es \<and>
        list_all2 (\<lambda>p d. \<exists>m. reply_from_string Y p = Inr m \<and> reply_result m = d) ps ds \<and>
        (\<forall>t \<in> subscribed (comm c). pending (comm c) t =
           map snd (filter (\<lambda>(e, p). distgen_response_topic (machines c ! fst e) = t) (zip es ps)) @ rest t))"

lemma run_distgen_ok:
  assumes "generate_opposing_config c i = Inr cfg" and "cfg \<noteq> []"
    and "\<forall>e \<in> set cfg. fst e < length (machines c) \<and> snd e < length (slots (system_config c))"
    and "measurements_pending Y c cfg ds rest"
  shows "\<exists>m. run_distgen Y i c = Inr (ds, c\<lparr>comm := m\<rparr>) \<and> ready m \<and>
    published m = published (comm c) @ map (\<lambda>e. (distgen_request_topic (machines c ! fst e),
      to_string Y (emit_request \<lparr>request_cores = cpus (slots (system_config c) ! snd e)\<rparr>))) cfg \<and>
    (\<forall>t \<in> subscribed (comm c). pending m t = rest t)"
proof -
  let ?topic = "\<lambda>e. distgen_response_topic (machines c ! fst e)"
  let ?msg = "\<lambda>e. to_string Y (emit_request \<lparr>request_cores = cpus (slots (system_config c) ! snd e)\<rparr>)"
  let ?send = "\<lambda>e. send_message (?msg e) (distgen_request_topic (machines c ! fst e))"
  let ?use = "\<lambda>(e :: execute_config_elemT) p r. rbind (reply_from_string Y p) (\<lambda>m. Inr (r @ [reply_result m]))"
  let ?f = "\<lambda>(e :: execute_config_elemT) p r. r @ [reply_result (projr (reply_from_string Y p))]"
  let ?recv = "\<lambda>e (r, m). rbind (get_message (?topic e) m) (\<lambda>(p, m').
      rbind (?use e p r) (\<lambda>r'. Inr (r', m')))"
  from assms(4) obtain ps where ps: "ready (comm c)" "\<forall>e \<in> set cfg. ?topic e \<in> subscribed (comm c)"
    "length ps = length cfg"
    "list_all2 (\<lambda>p d. \<exists>m. reply_from_string Y p = Inr m \<and> reply_result m = d) ps ds"
    "\<forall>t \<in> subscribed (comm c). pending (comm c) t =
       map snd (filter (\<lambda>(e, p). ?topic e = t) (zip cfg ps)) @ rest t"
    unfolding measurements_pending_def by blast
  have "for_each (distgen_request Y c) cfg cm = for_each ?send cfg cm" for cm
    using assms(3) by (intro for_each_cong) (auto simp: distgen_request_def slot_conf_def vec_at_in)
  moreover obtain m1 where m1: "for_each ?send cfg (comm c) = Inr m1" "ready m1"
    "subscribed m1 = subscribed (comm c)" "pending m1 = pending (comm c)"
    "published m1 = published (comm c) @ map (\<lambda>e. (distgen_request_topic (machines c ! fst e), ?msg e)) cfg"
    using mb.send_each [OF ps(1), of cfg "\<lambda>e. distgen_request_topic (machines c ! fst e)" ?msg]
    by (auto simp: distgen_request_topic_def)
  moreover have "for_each (distgen_reply Y c) cfg (r, m) = for_each ?recv cfg (r, m)" for r m
    using assms(3)
    by (intro for_each_cong) (auto simp: distgen_reply_def vec_at_in rbind_assoc split_def intro!: rbind_cong)
  moreover have "\<exists>m2. for_each ?recv cfg ([], m1) = Inr (fold (\<lambda>(x, p). ?f x p) (zip cfg ps) [], m2) \<and>
      ready m2 \<and> subscribed m2 = subscribed m1 \<and> published m2 = published m1 \<and>
      (\<forall>t \<in> subscribed m1. pending m2 t = rest t)"
  proof (rule mb.recv_each [OF m1(2)])
    fix e p r assume "(e, p) \<in> set (zip cfg ps)"
    then have "p \<in> set ps" by (rule set_zip_rightD)
    with ps(4) obtain m where "reply_from_string Y p = Inr m"
      by (auto simp: list_all2_conv_all_nth in_set_conv_nth)
    then show "?use e p r = Inr (?f e p r)" by simp
  qed (use ps m1 in auto)
  then obtain m2 where
    "for_each ?recv cfg ([], m1) = Inr (fold (\<lambda>(x, p). ?f x p) (zip cfg ps) [], m2)"
    "ready m2" "subscribed m2 = subscribed m1" "published m2 = published m1"
    "\<forall>t \<in> subscribed m1. pending m2 t = rest t" by blast
  moreover have "fold (\<lambda>(x, p). ?f x p) (zip cfg ps) r = r @ ds" for r
    using ps(4,3)
  proof (induction arbitrary: cfg r rule: list_all2_induct)
    case (Cons p ps d ds)
    then obtain e es where "cfg = e # es" "length ps = length es" by (cases cfg) auto
    with Cons show ?case by auto
  qed simp
  ultimately show ?thesis
    using assms(1,2) by (intro exI [of _ m2]) (simp add: run_distgen_def)
qed

subsection \<open>Properties that survive waiting\<close>

lemma run_threads_keep:
  assumes "for_each (run_thread V callback) ts st = Inr st'" and "P st"
    and "\<And>t st st'. P st \<Longrightarrow> run_thread V callback t st = Inr st' \<Longrightarrow> P st'"
  shows "P st'"
  using for_each_invariant [OF assms(1), of P] assms(2,3) by blast

lemma wait_loop_keep:
  assumes "wait_loop pred (run_thread V callback) wake st = Inr st'" and "P st"
    and "\<And>t st st'. P st \<Longrightarrow> run_thread V callback t st = Inr st' \<Longrightarrow> P st'"
    and "\<And>c s w. P (c, s) \<Longrightarrow> P (c\<lparr>wakeups := w\<rparr>, s)"
  shows "P st'"
  using assms(1,2)
proof (induction wake arbitrary: st)
  case Nil
  obtain c s where st: "st = (c, s)" by (cases st)
  from Nil show ?case
    unfolding st by (subst (asm) wait_loop.simps) (auto split: if_splits intro: assms(4))
next
  case (Cons ts wake)
  obtain c s where st: "st = (c, s)" by (cases st)
  from Cons.prems(1) obtain ready where r: "pred c = Inr ready"
    unfolding st by (subst (asm) wait_loop.simps) auto
  show ?case
  proof (cases ready)
    case True
    with r Cons.prems show ?thesis
      unfolding st by (subst (asm) wait_loop.simps) (auto intro: assms(4))
  next
    case False
    with r Cons.prems(1) obtain st1 where
      "for_each (run_thread V callback) ts st = Inr st1"
      "wait_loop pred (run_thread V callback) wake st1 = Inr st'"
      unfolding st by (subst (asm) wait_loop.simps) auto
    with run_threads_keep [of V callback ts st st1 P] Cons.prems(2) assms(3) Cons.IH show ?thesis
      by blast
  qed
qed

lemma wait_until_keep:
  assumes "wait_until V callback pred st = Inr st'" and "P st"
    and "\<And>t st st'. P st \<Longrightarrow> run_thread V callback t st = Inr st' \<Longrightarrow> P st'"
    and "\<And>c s w. P (c, s) \<Longrightarrow> P (c\<lparr>wakeups := w\<rparr>, s)"
    and "\<And>c s. P (c, s) \<Longrightarrow> P (c\<lparr>lock_owned := True\<rparr>, s)"
  shows "P st'"
proof -
  have "P (take_lock (fst st), snd st)"
    using assms(2,5) by (cases st) (auto simp: take_lock_def)
  with wait_loop_keep [where P = P and st' = st', OF assms(1) [unfolded wait_until_def]] assms(3,4)
  show ?thesis by blast
qed

end
