(* ===== verification/Scheduler_Two_App.thy ===== *)
theory Scheduler_Two_App
  imports Scheduler_Base
begin

section \<open>The scheduler for two applications\<close>

text \<open>
  \<open>two_app_sched\<close> (\<open>src/scheduler_two_app.cpp\<close>): a job gets one slot number on all machines;
  while two run side by side their bandwidth is measured and the newer one is suspended if both
  together want more than nine tenths. \<open>command_done\<close> is called with the id of the job.
\<close>

record two_app_sched =
  co_config_in_use :: "bool list"
  co_config_distgend :: "double list"

definition new_two_app_sched :: "system_configT \<Rightarrow> two_app_sched" where
  "new_two_app_sched sc =
     \<lparr>co_config_in_use = replicate (length (slots sc)) False,
      co_config_distgend = replicate (length (slots sc)) (Fin 0)\<rparr>"

definition two_app_command_done ::
  "nat \<Rightarrow> 'z controllerT_scheme \<Rightarrow> two_app_sched \<Rightarrow> two_app_sched result" where
  "two_app_command_done config c s =
     rbind (vec_set (co_config_in_use s) config False) (\<lambda>us.
     rbind (vec_set (co_config_distgend s) config (Fin 0)) (\<lambda>ds.
     Inr (s\<lparr>co_config_in_use := us, co_config_distgend := ds\<rparr>)))"

fun first_unused :: "bool list \<Rightarrow> nat list \<Rightarrow> nat option result" where
  "first_unused us [] = Inr None"
| "first_unused us (slot # ss) =
     rbind (vec_at us slot) (\<lambda>b. if \<not> b then Inr (Some slot) else first_unused us ss)"

text \<open>Slot \<open>new_slot\<close> of every machine.\<close>

definition place_job ::
  "'z controllerT_scheme virtuals \<Rightarrow> jobT \<Rightarrow> 'z controllerT_scheme \<times> two_app_sched \<Rightarrow>
     ((nat \<times> nat) \<times> 'z controllerT_scheme \<times> two_app_sched) result" where
  "place_job V job st =
     (case st of (c, s) \<Rightarrow>
        rbind (first_unused (co_config_in_use s) [0..<length (slots (system_config c))]) (\<lambda>r.
        case r of
          None \<Rightarrow> Inl (Assertion ''new_slot < system_config.slots.size()'')
        | Some new_slot \<Rightarrow>
            rbind (vec_set (co_config_in_use s) new_slot True) (\<lambda>us.
            rbind (execute V job (map (\<lambda>j. (j, new_slot)) [0..<length (machines c)]) c) (\<lambda>(i, c).
            Inr ((new_slot, i), c, s\<lparr>co_config_in_use := us\<rparr>)))))"

definition both_in_use :: "two_app_sched \<Rightarrow> bool result" where
  "both_in_use s =
     rbind (vec_at (co_config_in_use s) 0) (\<lambda>a.
     if \<not> a then Inr False else vec_at (co_config_in_use s) 1)"

definition nine_tenths :: double where
  "nine_tenths = round_double (9 / 10)"

definition usage_too_high :: "two_app_sched \<Rightarrow> bool result" where
  "usage_too_high s =
     rbind (vec_at (co_config_distgend s) 0) (\<lambda>d0.
     rbind (vec_at (co_config_distgend s) 1) (\<lambda>d1.
     Inr (double_less nine_tenths (double_add (double_sub (Fin 1) d0) (double_sub (Fin 1) d1)))))"

definition two_app_measure ::
  "yaml_lib \<Rightarrow> 'z controllerT_scheme virtuals \<Rightarrow> nat \<Rightarrow> nat \<Rightarrow>
     'z controllerT_scheme \<times> two_app_sched \<Rightarrow> ('z controllerT_scheme \<times> two_app_sched) result" where
  "two_app_measure Y V new_slot i st =
     (case st of (c, s) \<Rightarrow>
        rbind (both_in_use s) (\<lambda>both.
        rbind (if both then freeze_opposing Y V i c else Inr c) (\<lambda>c.
        rbind (run_distgen Y i c) (\<lambda>(temp, c).
        rbind (vec_at temp (max_element temp)) (\<lambda>d.
        rbind (vec_set (co_config_distgend s) new_slot d) (\<lambda>ds.
        Inr (c, s\<lparr>co_config_distgend := ds\<rparr>)))))))"

definition two_app_decide ::
  "yaml_lib \<Rightarrow> 'z controllerT_scheme virtuals \<Rightarrow> jobT \<Rightarrow> nat \<Rightarrow>
     'z controllerT_scheme \<times> two_app_sched \<Rightarrow> ('z controllerT_scheme \<times> two_app_sched) result" where
  "two_app_decide Y V job i st =
     (case st of (c, s) \<Rightarrow>
        rbind (both_in_use s) (\<lambda>both.
        if \<not> both then Inr (c, s)
        else
          rbind (thaw_opposing Y V i c) (\<lambda>c.
          rbind (usage_too_high s) (\<lambda>high.
          if \<not> high then Inr (c, s)
          else
            rbind (freeze Y V i c) (\<lambda>c.
            rbind (wait_for_ressource V two_app_command_done (req_cpus job) 1 (c, s)) (\<lambda>(c, s).
            rbind (thaw Y V i c) (\<lambda>c. Inr (c, s))))))))"

definition two_app_job ::
  "yaml_lib \<Rightarrow> 'z controllerT_scheme virtuals \<Rightarrow> jobT \<Rightarrow>
     'z controllerT_scheme \<times> two_app_sched \<Rightarrow> ('z controllerT_scheme \<times> two_app_sched) result" where
  "two_app_job Y V job st =
     rbind (slot_size (system_config (fst st))) (\<lambda>sz.
     rbind (assert_that (req_cpus job = wrap64 (length (machines (fst st)) * sz))
              ''job.req_cpus() == machines.size() * slot_size()'') (\<lambda>_.
     rbind (wait_for_ressource V two_app_command_done (req_cpus job) 1 st) (\<lambda>st.
     rbind (place_job V job st) (\<lambda>((new_slot, i), st).
     rbind (two_app_measure Y V new_slot i st) (two_app_decide Y V job i)))))"

definition two_app_schedule ::
  "yaml_lib \<Rightarrow> 'z controllerT_scheme virtuals \<Rightarrow> job_queueT \<Rightarrow>
     'z controllerT_scheme \<times> two_app_sched \<Rightarrow> ('z controllerT_scheme \<times> two_app_sched) result" where
  "two_app_schedule Y V q st =
     rbind (for_each (two_app_job Y V) (jobs q) st) (controller_done V two_app_command_done)"

end
