(* ===== verification/Scheduler_Multi_App.thy ===== *)
theory Scheduler_Multi_App
  imports Scheduler_Base "HOL-Library.Multiset"
begin

section \<open>The bandwidth-aware scheduler\<close>

text \<open>
  \<open>multi_app_sched\<close> (\<open>src/scheduler_multi_app.cpp\<close>): a job gets one slot of each of several
  machines, its bandwidth is measured, and if a machine is then overloaded the job is moved to
  less loaded machines by exchanging slots, or suspended until there is room. \<open>membw_util\<close> holds
  the bandwidth measured for every slot of every machine.

  The order in which \<open>std::sort\<close> leaves equivalent elements is not fixed, so the sorting
  function \<open>srt\<close> is an argument; \<open>sorting\<close> states what the standard promises of it. Sums that
  only feed the log are left out.
\<close>

type_synonym index_sort = "(nat \<Rightarrow> nat \<Rightarrow> bool) \<Rightarrow> nat list \<Rightarrow> nat list"

record multi_app_sched =
  membw_util :: "double list list"

definition new_multi_app_sched :: multi_app_sched where
  "new_multi_app_sched = \<lparr>membw_util = []\<rparr>"

definition per_machine_th :: double where
  "per_machine_th = round_double (9 / 10)"

subsection \<open>Utilisation\<close>

definition add_slot_util ::
  "double list list \<Rightarrow> nat \<Rightarrow> nat \<Rightarrow> double \<Rightarrow> double result" where
  "add_slot_util util m slot acc = rbind (at2 util m slot) (\<lambda>u. Inr (double_add acc u))"

definition membw_util_of_node :: "nat \<Rightarrow> double list list \<Rightarrow> nat \<Rightarrow> double result" where
  "membw_util_of_node n util idx =
     rbind (assert_that (idx < length util) ''idx < membw_util.size()'') (\<lambda>_.
     for_each (add_slot_util util idx) [0..<n] (Fin 0))"

definition all_node_utils :: "nat \<Rightarrow> double list list \<Rightarrow> double list result" where
  "all_node_utils n util =
     for_each (\<lambda>idx us. rbind (membw_util_of_node n util idx) (\<lambda>u. Inr (us @ [u]))) [0..<length util] []"

text \<open>The comparator reads the sums; an index out of range is read as soon as there are two.\<close>

definition util_less :: "double list \<Rightarrow> bool \<Rightarrow> nat \<Rightarrow> nat \<Rightarrow> bool" where
  "util_less totals reverse i1 i2 =
     (if reverse then double_less (totals ! i2) (totals ! i1) else double_less (totals ! i1) (totals ! i2))"

definition sort_machines_by_membw_util ::
  "index_sort \<Rightarrow> nat \<Rightarrow> double list list \<Rightarrow> nat list \<Rightarrow> bool \<Rightarrow> nat list result" where
  "sort_machines_by_membw_util srt n util machine_idxs reverse =
     rbind (assert_that (length machine_idxs \<le> length util)
              ''machine_idxs.size() <= membw_util.size()'') (\<lambda>_.
     rbind (all_node_utils n util) (\<lambda>totals.
     if 2 \<le> length machine_idxs \<and> (\<exists>i \<in> set machine_idxs. length totals \<le> i)
     then Inl (Undefined_behaviour ''vector index'')
     else Inr (srt (util_less totals reverse) machine_idxs)))"

definition mark_machine ::
  "nat \<Rightarrow> double list list \<Rightarrow> execute_config_elemT \<Rightarrow> nat list \<Rightarrow> nat list result" where
  "mark_machine n util e marked =
     rbind (for_each (add_slot_util util (fst e)) [0..<n] (Fin 0)) (\<lambda>membw.
     Inr (if double_less per_machine_th membw then marked @ [fst e] else marked))"

definition check_membw :: "nat \<Rightarrow> double list list \<Rightarrow> execute_config \<Rightarrow> nat list result" where
  "check_membw n util config = for_each (mark_machine n util) config []"

definition swap_util ::
  "nat \<Rightarrow> execute_config_elemT \<Rightarrow> execute_config_elemT \<Rightarrow> double list list \<Rightarrow> double list list result"
where
  "swap_util n a b util =
     rbind (at2 util (fst a) (snd a)) (\<lambda>va.
     rbind (at2 util (fst b) (snd b)) (\<lambda>vb.
     rbind (set2 util (fst a) (snd a) vb) (\<lambda>util.
     rbind (set2 util (fst b) (snd b) va) (\<lambda>util.
     rbind (membw_util_of_node n util (fst a)) (\<lambda>ua.
     rbind (assert_that (double_less ua per_machine_th) ''membw_util_of_node(old_mach) < PER_MACHINE_TH'') (\<lambda>_.
     rbind (membw_util_of_node n util (fst b)) (\<lambda>ub.
     rbind (assert_that (double_less ub per_machine_th) ''membw_util_of_node(new_mach) < PER_MACHINE_TH'') (\<lambda>_.
     Inr util))))))))"

definition update_membw_util ::
  "nat \<Rightarrow> execute_config \<Rightarrow> execute_config \<Rightarrow> double list list \<Rightarrow> double list list result" where
  "update_membw_util n old_config new_config util =
     rbind (assert_that (length old_config = length new_config)
              ''old_config.size() == new_config.size()'') (\<lambda>_.
     for_each (\<lambda>(a, b). swap_util n a b) (zip old_config new_config) util)"

subsection \<open>Finding a better configuration\<close>

fun slot_on :: "nat \<Rightarrow> execute_config \<Rightarrow> nat option" where
  "slot_on m [] = None"
| "slot_on m (e # es) = (if fst e = m then Some (snd e) else slot_on m es)"

text \<open>The slot of \<open>new_mach\<close> to exchange with the job's slot of \<open>old_mach\<close>.\<close>

definition choose_slot ::
  "nat \<Rightarrow> double list list \<Rightarrow> execute_config \<Rightarrow> nat \<Rightarrow> nat \<Rightarrow> execute_config_elemT result" where
  "choose_slot n util old_config old_mach new_mach =
     (case slot_on old_mach old_config of
        None \<Rightarrow> Inl (Assertion ''old_slot_it != old_config.end()'')
      | Some old_slot \<Rightarrow>
          rbind (at2 util old_mach old_slot) (\<lambda>own.
          rbind (if n = 0 then Inl (Undefined_behaviour ''division by zero'') else Inr ()) (\<lambda>_.
          rbind (at2 util old_mach (wrap64 (old_slot + 1) mod n)) (\<lambda>other.
          rbind (vec_at util new_mach) (\<lambda>row.
          let new_slot = (if double_less own other then max_element row else min_element row) in
          rbind (vec_at row new_slot) (\<lambda>theirs.
          rbind (assert_that (double_less (double_add other theirs) per_machine_th)
                   ''old_mach < PER_MACHINE_TH'') (\<lambda>_.
          rbind (vec_at row (wrap64 (new_slot + 1) mod n)) (\<lambda>their_other.
          rbind (assert_that (double_less (double_add their_other own) per_machine_th)
                   ''new_mach < PER_MACHINE_TH'') (\<lambda>_.
          Inr (new_mach, new_slot))))))))))"

definition add_choice ::
  "nat \<Rightarrow> double list list \<Rightarrow> execute_config \<Rightarrow> nat list \<Rightarrow> nat list \<Rightarrow> nat \<Rightarrow> execute_config \<Rightarrow>
     execute_config result" where
  "add_choice n util old_config marked_sorted swap_candidates idx new_sorted =
     rbind (vec_at marked_sorted idx) (\<lambda>old_mach.
     rbind (vec_at swap_candidates idx) (\<lambda>new_mach.
     rbind (choose_slot n util old_config old_mach new_mach) (\<lambda>e.
     Inr (new_sorted @ [e]))))"

text \<open>The entries of the marked machines are replaced, in the order of the old configuration.\<close>

definition replace_elem ::
  "nat list \<Rightarrow> execute_config \<Rightarrow> execute_config_elemT \<Rightarrow> execute_config \<Rightarrow> execute_config result" where
  "replace_elem marked_sorted new_sorted e new_config =
     (case find_elem (fst e) marked_sorted of
        Some k \<Rightarrow> rbind (vec_at new_sorted k) (\<lambda>e'. Inr (new_config @ [e']))
      | None \<Rightarrow> Inr (new_config @ [e]))"

definition generate_new_config ::
  "index_sort \<Rightarrow> nat \<Rightarrow> double list list \<Rightarrow> execute_config \<Rightarrow> nat list \<Rightarrow> nat list \<Rightarrow>
     execute_config result" where
  "generate_new_config srt n util old_config marked_machines swap_candidates =
     (if swap_candidates = [] then Inr []
      else
        rbind (assert_that (length marked_machines \<le> length swap_candidates)
                 ''marked_machines.size() <= swap_candidates.size()'') (\<lambda>_.
        rbind (sort_machines_by_membw_util srt n util marked_machines True) (\<lambda>marked_sorted.
        rbind (for_each (add_choice n util old_config marked_sorted swap_candidates)
                 [0..<length marked_machines] []) (\<lambda>new_sorted.
        rbind (assert_that (length new_sorted = length marked_machines)
                 ''new_config_sorted.size() == marked_machines.size()'') (\<lambda>_.
        for_each (replace_elem marked_sorted new_sorted) old_config [])))))"

definition add_pair_util ::
  "nat \<Rightarrow> double list list \<Rightarrow> nat list \<Rightarrow> nat list \<Rightarrow> nat \<Rightarrow> double \<Rightarrow> double result" where
  "add_pair_util n util marked_machines swap_candidates idx acc =
     rbind (vec_at marked_machines idx) (\<lambda>m.
     rbind (membw_util_of_node n util m) (\<lambda>um.
     rbind (vec_at swap_candidates idx) (\<lambda>s.
     rbind (membw_util_of_node n util s) (\<lambda>us.
     Inr (double_add (double_add acc um) us)))))"

definition find_swap_candidates ::
  "index_sort \<Rightarrow> nat \<Rightarrow> double list list \<Rightarrow> nat list \<Rightarrow> nat list result" where
  "find_swap_candidates srt n util marked_machines =
     rbind (sort_machines_by_membw_util srt n util [0..<length util] False) (\<lambda>swap_candidates.
     rbind (for_each (add_pair_util n util marked_machines swap_candidates)
              [0..<length marked_machines] (Fin 0)) (\<lambda>both_utils.
     if double_less both_utils
          (double_mul (double_mul per_machine_th (double_of_nat (length marked_machines))) (Fin 2))
     then Inr (take (length marked_machines) swap_candidates)
     else Inr []))"

subsection \<open>Scheduling\<close>

definition multi_app_command_done ::
  "nat \<Rightarrow> 'z controllerT_scheme \<Rightarrow> multi_app_sched \<Rightarrow> multi_app_sched result" where
  "multi_app_command_done i c s =
     rbind (vec_at (id_to_config c) i) (\<lambda>config.
     rbind (for_each (\<lambda>e util. set2 util (fst e) (snd e) (Fin 0)) config (membw_util s)) (\<lambda>util.
     Inr (s\<lparr>membw_util := util\<rparr>)))"

fun first_free :: "nat list \<Rightarrow> nat list \<Rightarrow> nat option result" where
  "first_free mu [] = Inr None"
| "first_free mu (s # ss) =
     rbind (vec_at mu s) (\<lambda>v. if v = size_max then Inr (Some s) else first_free mu ss)"

fun pick_slots ::
  "nat \<Rightarrow> nat \<Rightarrow> nat \<Rightarrow> (nat \<times> nat list) list \<Rightarrow> execute_config \<Rightarrow> execute_config result" where
  "pick_slots n sz req [] config = Inr config"
| "pick_slots n sz req ((m, mu) # rest) config =
     rbind (first_free mu [0..<n]) (\<lambda>r.
     let config = (case r of Some s \<Rightarrow> config @ [(m, s)] | None \<Rightarrow> config) in
     if wrap64 (length config * sz) = req then Inr config
     else pick_slots n sz req rest config)"

definition start_job ::
  "'z controllerT_scheme virtuals \<Rightarrow> jobT \<Rightarrow> 'z controllerT_scheme \<times> multi_app_sched \<Rightarrow>
     ((nat \<times> execute_config) \<times> 'z controllerT_scheme \<times> multi_app_sched) result" where
  "start_job V job st =
     (let n = length (slots (system_config (fst st))) in
      rbind (slot_size (system_config (fst st))) (\<lambda>sz.
      rbind (assert_that (req_cpus job \<le> wrap64 (length (machines (fst st)) * sz))
               ''job.req_cpus() <= machines.size() * slot_size()'') (\<lambda>_.
      rbind (wait_for_ressource V multi_app_command_done (req_cpus job) 1 st) (\<lambda>(c, s).
      rbind (pick_slots n sz (req_cpus job) (enumerate 0 (machine_usage c)) []) (\<lambda>config.
      rbind (assert_that (wrap64 (length config * sz) = req_cpus job)
               ''config.size() * slot_size() == job.req_cpus()'') (\<lambda>_.
      rbind (execute V job config c) (\<lambda>(i, c).
      Inr ((i, config), c, s))))))))"

definition store_result ::
  "execute_config_elemT \<times> double \<Rightarrow> double list list \<Rightarrow> double list list result" where
  "store_result x util =
     (case x of (e, d) \<Rightarrow>
        rbind (at2 util (fst e) (snd e)) (\<lambda>u.
        rbind (assert_that (double_le u (Fin 0) \<and> double_le (Fin 0) u) ''membw_util == 0.0'') (\<lambda>_.
        set2 util (fst e) (snd e) (double_sub (Fin 1) d))))"

definition measure_job ::
  "yaml_lib \<Rightarrow> 'z controllerT_scheme virtuals \<Rightarrow> nat \<Rightarrow> execute_config \<Rightarrow>
     'z controllerT_scheme \<times> multi_app_sched \<Rightarrow> ('z controllerT_scheme \<times> multi_app_sched) result" where
  "measure_job Y V i config st =
     (case st of (c, s) \<Rightarrow>
        rbind (freeze_opposing Y V i c) (\<lambda>c.
        rbind (run_distgen Y i c) (\<lambda>(distgen_res, c).
        rbind (assert_that (length distgen_res = length config)
                 ''distgen_res.size() == config.size()'') (\<lambda>_.
        rbind (for_each store_result (zip config distgen_res) (membw_util s)) (\<lambda>util.
        rbind (thaw_opposing Y V i c) (\<lambda>c.
        Inr (c, s\<lparr>membw_util := util\<rparr>)))))))"

definition try_swap ::
  "index_sort \<Rightarrow> yaml_lib \<Rightarrow> 'z controllerT_scheme virtuals \<Rightarrow> nat \<Rightarrow> nat list \<Rightarrow> bool \<Rightarrow>
     'z controllerT_scheme \<times> multi_app_sched \<Rightarrow>
     ('z controllerT_scheme \<times> multi_app_sched) option result" where
  "try_swap srt Y V i marked_machines frozen st =
     (case st of (c, s) \<Rightarrow>
        let n = length (slots (system_config c)) in
        rbind (find_swap_candidates srt n (membw_util s) marked_machines) (\<lambda>swap_candidates.
        rbind (vec_at (id_to_config c) i) (\<lambda>old_config.
        rbind (generate_new_config srt n (membw_util s) old_config marked_machines swap_candidates)
          (\<lambda>new_config.
        if new_config = [] then Inr None
        else
          rbind (assert_that (length new_config = length old_config)
                   ''new_config.size() == old_config.size()'') (\<lambda>_.
          rbind (if frozen then thaw Y V i c else Inr c) (\<lambda>c.
          rbind (update_config V i new_config c) (\<lambda>c.
          rbind (update_membw_util n old_config new_config (membw_util s)) (\<lambda>util.
          Inr (Some (c, s\<lparr>membw_util := util\<rparr>))))))))))"

text \<open>
  The thread that is started for a frozen job when jobs cannot be moved. It calls the functions of
  the controller, which work on one lock object for all threads. In \<open>wait_for_change\<close> the
  object is asked whether it owns the mutex; if so, it is waited with, which is undefined unless
  the waiting thread itself has locked it. \<open>locked_here\<close> tells whether this thread has.

  The thread needs nothing of the main thread before its first wait, so the model lets it run as
  soon as it is started. When the main thread has locked the object, which is so whenever a job
  has been started, the order of the two threads makes no difference: the first wait is undefined.
\<close>

definition still_marked :: "execute_config \<Rightarrow> nat list \<Rightarrow> bool" where
  "still_marked config marked_machines =
     list_ex (\<lambda>m. list_ex (\<lambda>e. fst e = m) config) marked_machines"

definition waiter_wait :: "bool \<Rightarrow> 'z controllerT_scheme \<Rightarrow> 'z controllerT_scheme result" where
  "waiter_wait locked_here c =
     (if lock_owned c \<and> \<not> locked_here
      then Inl (Undefined_behaviour ''condition wait on a lock of another thread'')
      else Inr (take_lock c))"

fun waiter_loop ::
  "yaml_lib \<Rightarrow> 'z controllerT_scheme virtuals \<Rightarrow> nat \<Rightarrow> execute_config \<Rightarrow> bool \<Rightarrow> nat list list \<Rightarrow>
     'z controllerT_scheme \<times> multi_app_sched \<Rightarrow> ('z controllerT_scheme \<times> multi_app_sched) result" where
  "waiter_loop Y V i config locked_here wake (c, s) =
     rbind (waiter_wait locked_here c) (\<lambda>c.
     case wake of
       [] \<Rightarrow> Inl (Blocked ''worker_counter_cv'')
     | ts # wake' \<Rightarrow>
         rbind (for_each (run_thread V multi_app_command_done) ts (c, s)) (\<lambda>(c, s).
         rbind (check_membw (length (slots (system_config c))) (membw_util s) config) (\<lambda>marked_machines.
         if still_marked config marked_machines then waiter_loop Y V i config True wake' (c, s)
         else
           rbind (thaw Y V i (c\<lparr>wakeups := wake'\<rparr>)) (\<lambda>c.
           rbind (unlock c) (\<lambda>c. Inr (c, s))))))"

declare waiter_loop.simps [simp del]

definition start_waiter ::
  "yaml_lib \<Rightarrow> 'z controllerT_scheme virtuals \<Rightarrow> nat \<Rightarrow> execute_config \<Rightarrow> nat list list \<Rightarrow>
     'z controllerT_scheme \<times> multi_app_sched \<Rightarrow> ('z controllerT_scheme \<times> multi_app_sched) result" where
  "start_waiter Y V i config wake st = waiter_loop Y V i config False wake st"

text \<open>The loop until the machines of the job are not overloaded any more.\<close>

fun relieve_loop ::
  "index_sort \<Rightarrow> yaml_lib \<Rightarrow> 'z controllerT_scheme virtuals \<Rightarrow> nat \<Rightarrow> execute_config \<Rightarrow>
     nat list list \<Rightarrow> bool \<Rightarrow> 'z controllerT_scheme \<times> multi_app_sched \<Rightarrow>
     ('z controllerT_scheme \<times> multi_app_sched) result" where
  "relieve_loop srt Y V i config wake frozen (c, s) =
     rbind (check_membw (length (slots (system_config c))) (membw_util s) config) (\<lambda>marked_machines.
     if marked_machines = []
     then rbind (if frozen then thaw Y V i c else Inr c) (\<lambda>c. Inr (c\<lparr>wakeups := wake\<rparr>, s))
     else
       rbind (if update_supported V then try_swap srt Y V i marked_machines frozen (c, s) else Inr None) (\<lambda>r.
       case r of
         Some (c, s) \<Rightarrow> Inr (c\<lparr>wakeups := wake\<rparr>, s)
       | None \<Rightarrow>
           rbind (if frozen then Inr c else freeze Y V i c) (\<lambda>c.
           if \<not> frozen \<and> \<not> update_supported V then start_waiter Y V i config wake (c, s)
           else
             case wake of
               [] \<Rightarrow> Inl (Blocked ''worker_counter_cv'')
             | ts # wake' \<Rightarrow>
                 rbind (for_each (run_thread V multi_app_command_done) ts (take_lock c, s))
                   (relieve_loop srt Y V i config wake' True))))"

declare relieve_loop.simps [simp del]

definition multi_app_job ::
  "index_sort \<Rightarrow> yaml_lib \<Rightarrow> 'z controllerT_scheme virtuals \<Rightarrow> jobT \<Rightarrow>
     'z controllerT_scheme \<times> multi_app_sched \<Rightarrow> ('z controllerT_scheme \<times> multi_app_sched) result" where
  "multi_app_job srt Y V job st =
     rbind (start_job V job st) (\<lambda>((i, config), st).
     rbind (measure_job Y V i config st) (\<lambda>st.
     relieve_loop srt Y V i config (wakeups (fst st)) False st))"

text \<open>\<open>resize\<close> adds rows of zeros or drops rows.\<close>

definition resize_util :: "nat \<Rightarrow> nat \<Rightarrow> double list list \<Rightarrow> double list list" where
  "resize_util k n util = take k util @ replicate (k - length util) (replicate n (Fin 0))"

definition multi_app_schedule ::
  "index_sort \<Rightarrow> yaml_lib \<Rightarrow> 'z controllerT_scheme virtuals \<Rightarrow> job_queueT \<Rightarrow>
     'z controllerT_scheme \<times> multi_app_sched \<Rightarrow> ('z controllerT_scheme \<times> multi_app_sched) result" where
  "multi_app_schedule srt Y V q st =
     (case st of (c, s) \<Rightarrow>
        let s = s\<lparr>membw_util := resize_util (length (machines c)) (length (slots (system_config c)))
                   (membw_util s)\<rparr> in
        rbind (for_each (multi_app_job srt Y V) (jobs q) (c, s))
          (controller_done V multi_app_command_done))"

end
