(* ===== verification/Scheduler_Consec.thy ===== *)
theory Scheduler_Consec
  imports Scheduler_Base
begin

section \<open>The exclusive scheduler\<close>

text \<open>
  \<open>multi_app_sched_consec\<close> (\<open>src/scheduler_multi_app_consec.cpp\<close>): a job gets all slots of as
  many free machines as it needs, so that machines are never shared. The scheduler has no state
  of its own and its \<open>command_done\<close> does nothing. \<open>system_config\<close> of scheduler and controller
  are one object.
\<close>

definition consec_command_done :: "nat \<Rightarrow> 'z controllerT_scheme \<Rightarrow> 's \<Rightarrow> 's result" where
  "consec_command_done i c s = Inr s"

text \<open>The loop over the machines, with its \<open>break\<close>.\<close>

fun select_machines ::
  "nat \<Rightarrow> nat \<Rightarrow> nat \<Rightarrow> (nat \<times> nat list) list \<Rightarrow> execute_config \<Rightarrow> execute_config result" where
  "select_machines n sz req [] config = Inr config"
| "select_machines n sz req ((m, mu) # rest) config =
     rbind (vec_at mu 0) (\<lambda>a.
     rbind (vec_at mu 1) (\<lambda>b.
     rbind (assert_that (a = b) ''mu[0] == mu[1]'') (\<lambda>_.
     let config = (if a = size_max then config @ map (Pair m) [0..<n] else config) in
     if wrap64 (length config * sz) \<ge> req then Inr config
     else select_machines n sz req rest config)))"

definition consec_job ::
  "'z controllerT_scheme virtuals \<Rightarrow> jobT \<Rightarrow> 'z controllerT_scheme \<times> 's \<Rightarrow>
     ('z controllerT_scheme \<times> 's) result" where
  "consec_job V job st =
     (let n = length (slots (system_config (fst st))) in
      rbind (slot_size (system_config (fst st))) (\<lambda>sz.
      rbind (assert_that (req_cpus job \<le> wrap64 (wrap64 (length (machines (fst st)) * sz) * n))
               ''job.req_cpus() <= machines.size() * slot_size() * slots'') (\<lambda>_.
      rbind (wait_for_ressource V consec_command_done (req_cpus job) n st) (\<lambda>(c, s).
      rbind (select_machines n sz (req_cpus job) (enumerate 0 (machine_usage c)) []) (\<lambda>config.
      rbind (assert_that (wrap64 (length config * sz) \<ge> req_cpus job)
               ''config.size() * slot_size() >= job.req_cpus()'') (\<lambda>_.
      rbind (execute V job config c) (\<lambda>(i, c).
      Inr (c, s))))))))"

definition consec_schedule ::
  "'z controllerT_scheme virtuals \<Rightarrow> job_queueT \<Rightarrow> 'z controllerT_scheme \<times> 's \<Rightarrow>
     ('z controllerT_scheme \<times> 's) result" where
  "consec_schedule V q st =
     rbind (for_each (consec_job V) (jobs q) st) (controller_done V consec_command_done)"

end
