(* ===== verification/Poncos_Main.thy ===== *)
theory Poncos_Main
  imports Controller_Cgroup Controller_Vm Scheduler_Two_App Scheduler_Multi_App Scheduler_Consec
begin

section \<open>The program\<close>

text \<open>
  \<open>src/poncos.cpp\<close>: the command line and \<open>main\<close>. The global variables the options set are the
  record \<open>options\<close>; \<open>None\<close> as the result of parsing means that the help was printed and the
  program has exited. What is only printed (the notice about an ignored \<open>--wait\<close>, the log) is
  left out. The environment is a record: the files, what the broker delivers, the clocks, the
  commands, the wake-ups, the identifiers, and the choices the standard library is free to make.
\<close>

subsection \<open>The command line\<close>

record options =
  opt_server :: string
  opt_port :: nat
  opt_queue :: string
  opt_machine :: string
  opt_system_config :: string
  opt_slot_path :: string
  opt_wait :: int
  opt_use_vms :: bool
  opt_multi_sched :: bool
  opt_multi_sched_consec :: bool

definition default_options :: options where
  "default_options =
     \<lparr>opt_server = '''', opt_port = 1883, opt_queue = '''', opt_machine = '''',
      opt_system_config = '''', opt_slot_path = '''', opt_wait = 20, opt_use_vms = False,
      opt_multi_sched = False, opt_multi_sched_consec = False\<rparr>"

text \<open>The seconds are a signed number of 64 bits.\<close>

definition signed64 :: "nat \<Rightarrow> int" where
  "signed64 n = (if n < 2 ^ 63 then int n else int n - 2 ^ 64)"

fun parse_args :: "string list \<Rightarrow> options \<Rightarrow> options option result" where
  "parse_args [] o' = Inr (Some o')"
| "parse_args (arg # rest) o' =
     (if arg = ''--server'' then
        (case rest of [] \<Rightarrow> Inr None | v # rest \<Rightarrow> parse_args rest (o'\<lparr>opt_server := v\<rparr>))
      else if arg = ''--port'' then
        (case rest of [] \<Rightarrow> Inr None
         | v # rest \<Rightarrow> rbind (stoul 10 v) (\<lambda>n. parse_args rest (o'\<lparr>opt_port := n\<rparr>)))
      else if arg = ''--queue'' then
        (case rest of [] \<Rightarrow> Inr None | v # rest \<Rightarrow> parse_args rest (o'\<lparr>opt_queue := v\<rparr>))
      else if arg = ''--machine'' then
        (case rest of [] \<Rightarrow> Inr None | v # rest \<Rightarrow> parse_args rest (o'\<lparr>opt_machine := v\<rparr>))
      else if arg = ''--system-config'' then
        (case rest of [] \<Rightarrow> Inr None | v # rest \<Rightarrow> parse_args rest (o'\<lparr>opt_system_config := v\<rparr>))
      else if arg = ''--vm'' then parse_args rest (o'\<lparr>opt_use_vms := True\<rparr>)
      else if arg = ''--slot-path'' then
        (case rest of [] \<Rightarrow> Inr None | v # rest \<Rightarrow> parse_args rest (o'\<lparr>opt_slot_path := v\<rparr>))
      else if arg = ''--wait'' then
        (case rest of [] \<Rightarrow> Inr None
         | v # rest \<Rightarrow> rbind (stoul 10 v) (\<lambda>n. parse_args rest (o'\<lparr>opt_wait := signed64 n\<rparr>)))
      else if arg = ''--multi-sched'' then parse_args rest (o'\<lparr>opt_multi_sched := True\<rparr>)
      else if arg = ''--multi-sched-consec'' then parse_args rest (o'\<lparr>opt_multi_sched_consec := True\<rparr>)
      else parse_args rest o')"

text \<open>\<open>argv\<close> without the name of the program.\<close>

definition parse_options :: "string list \<Rightarrow> options option result" where
  "parse_options args =
     (if args = [] then Inr None
      else rbind (parse_args args default_options) (\<lambda>r.
        case r of
          None \<Rightarrow> Inr None
        | Some o' \<Rightarrow>
            if opt_multi_sched_consec o' \<and> opt_multi_sched o' then Inr None
            else if opt_queue o' = '''' \<or> opt_machine o' = '''' \<or> opt_system_config o' = '''' then Inr None
            else if opt_use_vms o' \<and> opt_slot_path o' = '''' then Inr None
            else Inr (Some o')))"

subsection \<open>Running the queue\<close>

record environment =
  env_yaml :: yaml_lib
  env_files :: "string \<Rightarrow> string option"
  env_events :: "mqtt_event list"
  env_rcs :: "int list"
  env_clock :: "nat \<Rightarrow> int"
  env_timer :: "nat \<Rightarrow> int"
  env_system :: "string \<Rightarrow> int"
  env_wakeups :: "nat list list"
  env_uuids :: "nat \<Rightarrow> string"
  env_order :: "nat list \<Rightarrow> nat list"
  env_sort :: index_sort

definition subscribe_responses ::
  "'z controllerT_scheme \<Rightarrow> 'z controllerT_scheme result" where
  "subscribe_responses c =
     rbind (for_each (\<lambda>mach. add_subscription (distgen_response_topic mach) 2) (machines c) (comm c)) (\<lambda>cm.
     Inr (c\<lparr>comm := cm\<rparr>))"

text \<open>From the construction of the timers to the end of \<open>main\<close>.\<close>

definition run_session ::
  "environment \<Rightarrow> 'z controllerT_scheme virtuals \<Rightarrow>
   (job_queueT \<Rightarrow> 'z controllerT_scheme \<times> 's \<Rightarrow> ('z controllerT_scheme \<times> 's) result) \<Rightarrow>
   (nat \<Rightarrow> 'z controllerT_scheme \<Rightarrow> 's \<Rightarrow> 's result) \<Rightarrow>
   job_queueT \<Rightarrow> 'z controllerT_scheme \<times> 's \<Rightarrow> (mqtt \<times> time_measurement) result" where
  "run_session E V sched callback q st =
     (case st of (c, s) \<Rightarrow>
        let now = env_timer E in
        rbind (tick (now 1) ''Total time'' (new_time_measurement True ''timestamps'' (now 0))) (\<lambda>tm.
        rbind (tick (now 2) ''Start time'' tm) (\<lambda>tm.
        rbind (init V c) (\<lambda>c.
        rbind (tock (now 3) ''Start time'' tm) (\<lambda>tm.
        rbind (subscribe_responses c) (\<lambda>c.
        rbind (tick (now 4) ''Runtime'' tm) (\<lambda>tm.
        rbind (sched q (c, s)) (\<lambda>(c, s).
        rbind (tock (now 5) ''Runtime'' tm) (\<lambda>tm.
        rbind (tick (now 6) ''Stop time'' tm) (\<lambda>tm.
        rbind (dismantle V c) (\<lambda>c.
        rbind (tock (now 7) ''Stop time'' tm) (\<lambda>tm.
        rbind (tock (now 8) ''Total time'' tm) (\<lambda>tm.
        rbind (controller_dtor V callback (c, s)) (\<lambda>(c, s).
        Inr (comm c, tm)))))))))))))))"

definition run_scheduler ::
  "environment \<Rightarrow> options \<Rightarrow> 'z controllerT_scheme virtuals \<Rightarrow> system_configT \<Rightarrow> job_queueT \<Rightarrow>
     'z controllerT_scheme \<Rightarrow> (mqtt \<times> time_measurement) result" where
  "run_scheduler E o' V sc q c =
     (if opt_multi_sched_consec o'
      then run_session E V (consec_schedule V) consec_command_done q (c, ())
      else if opt_multi_sched o'
      then run_session E V (multi_app_schedule (env_sort E) (env_yaml E) V)
             multi_app_command_done q (c, new_multi_app_sched)
      else run_session E V (two_app_schedule (env_yaml E) V)
             two_app_command_done q (c, new_two_app_sched sc))"

definition poncos_main ::
  "environment \<Rightarrow> string list \<Rightarrow> (mqtt \<times> time_measurement) option result" where
  "poncos_main E args =
     rbind (parse_options args) (\<lambda>r.
     case r of
       None \<Rightarrow> Inr None
     | Some o' \<Rightarrow>
         rbind (job_queue_of_text (env_yaml E) (read_file_to_string (env_files E (opt_queue o')))) (\<lambda>q.
         rbind (open_communicator ''fast/poncos'' ''fast/poncos'' (env_events E) (env_rcs E)) (\<lambda>cm.
         rbind (system_config_of_text (env_yaml E)
                  (read_file_to_string (env_files E (opt_system_config o')))) (\<lambda>sc.
         rbind
           (if opt_use_vms o'
            then rbind (vm_controller_ctor cm (env_files E (opt_machine o')) sc (opt_slot_path o')
                          (env_clock E) (env_system E) (env_wakeups E)
                          (\<lambda>name. read_file_to_string (env_files E name)) (env_uuids E)) (\<lambda>c.
                 run_scheduler E o' (vm_virtuals (env_yaml E)) sc q c)
            else rbind (controller_ctor cm (env_files E (opt_machine o')) sc
                          (env_clock E) (env_system E) (env_wakeups E)) (\<lambda>c.
                 run_scheduler E o' (cgroup_virtuals (env_yaml E) (env_order E)) sc q c))
           (\<lambda>r. Inr (Some r))))))"

end
