(* ===== verification/Main_Properties.thy ===== *)
theory Main_Properties
  imports Poncos_Main
begin

section \<open>The command line\<close>

text \<open>
  What \<open>parse_options\<close> accepts has a form \<open>main\<close> can work with, and every such choice of options
  can be written on a command line that leaves out what has its default value.
\<close>

text \<open>The global variables of \<open>src/poncos.cpp\<close> hold values of their types, and \<open>main\<close> can use them.\<close>

definition options_typed :: "options \<Rightarrow> bool" where
  "options_typed o' \<longleftrightarrow> opt_port o' \<le> size_max \<and> - (2 ^ 63) \<le> opt_wait o' \<and> opt_wait o' < 2 ^ 63"

definition options_usable :: "options \<Rightarrow> bool" where
  "options_usable o' \<longleftrightarrow> \<not> (opt_multi_sched_consec o' \<and> opt_multi_sched o') \<and>
     opt_queue o' \<noteq> '''' \<and> opt_machine o' \<noteq> '''' \<and> opt_system_config o' \<noteq> '''' \<and>
     (opt_use_vms o' \<longrightarrow> opt_slot_path o' \<noteq> '''')"

text \<open>The names among the options.\<close>

definition option_words :: "options \<Rightarrow> string set" where
  "option_words o' = {opt_server o', opt_queue o', opt_machine o', opt_system_config o', opt_slot_path o'}"

lemma signed64_range: "n \<le> size_max \<Longrightarrow> - (2 ^ 63) \<le> signed64 n \<and> signed64 n < 2 ^ 63"
  by (auto simp: signed64_def size_max_def)

lemma stoul_range: "stoul b v = Inr n \<Longrightarrow> n \<le> size_max"
  by (auto simp: stoul_def Let_def split_def wrap64_def size_max_def split: if_splits)

lemma value_option:
  "(case rest of [] \<Rightarrow> Inr None | v # rest' \<Rightarrow> f v rest') = Inr (Some r) \<longleftrightarrow>
     (\<exists>v rest'. rest = v # rest' \<and> f v rest' = Inr (Some r))"
  by (cases rest) auto

lemma parse_args_step:
  assumes "parse_args (arg # rest) o' = Inr (Some r)"
  obtains o1 rest1 where "parse_args rest1 o1 = Inr (Some r)" and "length rest1 \<le> length rest"
    and "set rest1 \<subseteq> set rest" and "options_typed o' \<longrightarrow> options_typed o1"
    and "option_words o1 \<subseteq> option_words o' \<union> set rest"
  using assms
  by - (simp only: parse_args.simps value_option rbind_Inr_iff split: if_split_asm;
      ((elim exE conjE)?, erule that, simp, force,
       simp add: options_typed_def stoul_range signed64_range [simplified], force simp add: option_words_def))

lemma parse_args_typed:
  assumes "parse_args args o' = Inr (Some r)" and "options_typed o'"
  shows "options_typed r \<and> option_words r \<subseteq> option_words o' \<union> set args"
  using assms
proof (induction args arbitrary: o' rule: length_induct)
  case (1 args)
  show ?case
  proof (cases args)
    case (Cons arg rest)
    from 1(2) [unfolded Cons] obtain o1 rest1 where o1: "parse_args rest1 o1 = Inr (Some r)"
      "length rest1 \<le> length rest" "set rest1 \<subseteq> set rest" "options_typed o' \<longrightarrow> options_typed o1"
      "option_words o1 \<subseteq> option_words o' \<union> set rest" by (rule parse_args_step)
    with 1(1,3) Cons have "options_typed r \<and> option_words r \<subseteq> option_words o1 \<union> set rest1"
      by (metis impE le_imp_less_Suc length_Cons)
    with o1 Cons show ?thesis by auto
  qed (use 1 in simp)
qed

text \<open>
  C20: whatever \<open>parse_options\<close> accepts fits the types of the global variables, names the files
  \<open>main\<close> reads (and the directory of the slot files when virtual machines are asked for), selects
  at most one of the two schedulers, and takes every name from the command line.
\<close>

theorem parse_options_typed:
  assumes "parse_options args = Inr (Some o')"
  shows "options_typed o' \<and> options_usable o' \<and> option_words o' \<subseteq> insert '''' (set args)"
proof -
  from assms obtain x where x: "parse_args args default_options = Inr x"
    unfolding parse_options_def by (auto split: if_split_asm)
  with assms have p: "parse_args args default_options = Inr (Some o')" "options_usable o'"
    unfolding parse_options_def options_usable_def by (cases x; simp split: if_split_asm)+
  have "options_typed default_options" "option_words default_options = {''''}"
    by (simp_all add: options_typed_def default_options_def option_words_def size_max_def)
  with parse_args_typed [OF p(1)] p(2) show ?thesis by auto
qed

definition example_args :: "string list" where
  "example_args = [''--wait'', ''-1'', ''--queue'', ''q'', ''--machine'', ''--vm'', ''--system-config'', ''s'', ''--port'', ''8'']"

lemma example_args_parsed:
  "parse_options example_args = Inr (Some (default_options\<lparr>opt_port := 8, opt_queue := ''q'',
     opt_machine := ''--vm'', opt_system_config := ''s'', opt_wait := -1\<rparr>))"
proof -
  have "stoul 10 ''-1'' = Inr size_max" "stoul 10 ''8'' = Inr 8" "signed64 size_max = -1"
    by (simp_all add: stoul_def is_space_def strip_sign_def strip_base_def starts_digit_def digit_value_def
        wrap64_def size_max_def signed64_def Let_def)
  then show ?thesis by (simp add: parse_options_def example_args_def default_options_def)
qed

theorem parse_options_typed_witness:
  "options_usable (default_options\<lparr>opt_port := 8, opt_queue := ''q'', opt_machine := ''--vm'',
     opt_system_config := ''s'', opt_wait := -1\<rparr>)"
  using parse_options_typed [OF example_args_parsed] by blast

subsection \<open>Writing the options down\<close>

definition option_arg :: "string \<Rightarrow> string \<Rightarrow> string \<Rightarrow> string list" where
  "option_arg name default_value v = (if v = default_value then [] else [name, v])"

definition flag_arg :: "string \<Rightarrow> bool \<Rightarrow> string list" where
  "flag_arg name b = (if b then [name] else [])"

definition render_options :: "options \<Rightarrow> string list" where
  "render_options o' =
     option_arg ''--server'' '''' (opt_server o') @
     option_arg ''--port'' (show_nat 1883) (show_nat (opt_port o')) @
     option_arg ''--queue'' '''' (opt_queue o') @
     option_arg ''--machine'' '''' (opt_machine o') @
     option_arg ''--system-config'' '''' (opt_system_config o') @
     option_arg ''--slot-path'' '''' (opt_slot_path o') @
     option_arg ''--wait'' (show_nat 20) (show_nat (nat (opt_wait o' mod 2 ^ 64))) @
     flag_arg ''--vm'' (opt_use_vms o') @
     flag_arg ''--multi-sched'' (opt_multi_sched o') @
     flag_arg ''--multi-sched-consec'' (opt_multi_sched_consec o')"

lemma option_same:
  "opt_server o' = v \<Longrightarrow> o'\<lparr>opt_server := v\<rparr> = o'" "opt_queue o' = v \<Longrightarrow> o'\<lparr>opt_queue := v\<rparr> = o'"
  "opt_machine o' = v \<Longrightarrow> o'\<lparr>opt_machine := v\<rparr> = o'"
  "opt_system_config o' = v \<Longrightarrow> o'\<lparr>opt_system_config := v\<rparr> = o'"
  "opt_slot_path o' = v \<Longrightarrow> o'\<lparr>opt_slot_path := v\<rparr> = o'"
  "opt_port o' = n \<Longrightarrow> o'\<lparr>opt_port := n\<rparr> = o'" "opt_wait o' = w \<Longrightarrow> o'\<lparr>opt_wait := w\<rparr> = o'"
  "opt_use_vms o' = b \<Longrightarrow> o'\<lparr>opt_use_vms := b\<rparr> = o'"
  "opt_multi_sched o' = b \<Longrightarrow> o'\<lparr>opt_multi_sched := b\<rparr> = o'"
  "opt_multi_sched_consec o' = b \<Longrightarrow> o'\<lparr>opt_multi_sched_consec := b\<rparr> = o'"
  by (cases o', simp)+

lemma parse_words:
  "opt_server o' = '''' \<Longrightarrow> parse_args (option_arg ''--server'' '''' v @ rest) o' =
     parse_args rest (o'\<lparr>opt_server := v\<rparr>)"
  "opt_queue o' = '''' \<Longrightarrow> parse_args (option_arg ''--queue'' '''' v @ rest) o' =
     parse_args rest (o'\<lparr>opt_queue := v\<rparr>)"
  "opt_machine o' = '''' \<Longrightarrow> parse_args (option_arg ''--machine'' '''' v @ rest) o' =
     parse_args rest (o'\<lparr>opt_machine := v\<rparr>)"
  "opt_system_config o' = '''' \<Longrightarrow> parse_args (option_arg ''--system-config'' '''' v @ rest) o' =
     parse_args rest (o'\<lparr>opt_system_config := v\<rparr>)"
  "opt_slot_path o' = '''' \<Longrightarrow> parse_args (option_arg ''--slot-path'' '''' v @ rest) o' =
     parse_args rest (o'\<lparr>opt_slot_path := v\<rparr>)"
  by (simp_all add: option_arg_def option_same)

lemma parse_flags:
  "\<not> opt_use_vms o' \<Longrightarrow> parse_args (flag_arg ''--vm'' b @ rest) o' = parse_args rest (o'\<lparr>opt_use_vms := b\<rparr>)"
  "\<not> opt_multi_sched o' \<Longrightarrow> parse_args (flag_arg ''--multi-sched'' b @ rest) o' =
     parse_args rest (o'\<lparr>opt_multi_sched := b\<rparr>)"
  "\<not> opt_multi_sched_consec o' \<Longrightarrow> parse_args (flag_arg ''--multi-sched-consec'' b @ rest) o' =
     parse_args rest (o'\<lparr>opt_multi_sched_consec := b\<rparr>)"
  by (simp_all add: flag_arg_def option_same)

lemma parse_port:
  "opt_port o' = 1883 \<Longrightarrow> n \<le> size_max \<Longrightarrow>
     parse_args (option_arg ''--port'' (show_nat 1883) (show_nat n) @ rest) o' = parse_args rest (o'\<lparr>opt_port := n\<rparr>)"
  using stoul_show_nat [of n]
  by (simp add: option_arg_def size_max_def option_same)

lemma signed64_mod: "- (2 ^ 63) \<le> w \<Longrightarrow> w < 2 ^ 63 \<Longrightarrow> signed64 (nat (w mod 2 ^ 64)) = w"
proof (cases "w < 0")
  case True
  moreover assume "- (2 ^ 63) \<le> w"
  moreover have "w mod 2 ^ 64 = (w + 2 ^ 64) mod 2 ^ 64" by simp
  ultimately have "w mod 2 ^ 64 = w + 2 ^ 64" using mod_pos_pos_trivial [of "w + 2 ^ 64" "2 ^ 64"] by simp
  with True show ?thesis using \<open>- (2 ^ 63) \<le> w\<close> by (simp add: signed64_def)
qed (simp add: signed64_def mod_pos_pos_trivial)

lemma parse_wait:
  assumes "opt_wait o' = 20" and "- (2 ^ 63) \<le> w" and "w < 2 ^ 63"
  shows "parse_args (option_arg ''--wait'' (show_nat 20) (show_nat (nat (w mod 2 ^ 64))) @ rest) o' =
     parse_args rest (o'\<lparr>opt_wait := w\<rparr>)"
proof -
  have n: "nat (w mod 2 ^ 64) \<le> size_max"
    using pos_mod_bound [of "2 ^ 64" w] by (simp add: size_max_def nat_le_iff)
  moreover have "w = 20" if "nat (w mod 2 ^ 64) = 20"
    using signed64_mod [OF assms(2,3)] that by (simp add: signed64_def)
  ultimately show ?thesis
    using assms(1) stoul_show_nat [OF n] signed64_mod [OF assms(2,3)]
    by (simp add: option_arg_def option_same)
qed

text \<open>
  C21: every usable choice of options can be given to the program: the command line that names
  what differs from the defaults is read back as these options. So the broker's URI, which the
  help calls required, may be left out like every other option with a default.
\<close>

theorem parse_options_roundtrip:
  assumes "options_typed o'" and "options_usable o'"
  shows "parse_options (render_options o') = Inr (Some o')"
proof -
  have "parse_args (render_options o' @ []) default_options = parse_args [] o'"
    using assms(1) unfolding render_options_def options_typed_def append_assoc
    by (cases o') (simp only: parse_words parse_port parse_wait parse_flags default_options_def options.simps HOL.simp_thms)
  moreover have "render_options o' \<noteq> []"
    using assms(2) by (simp add: render_options_def option_arg_def options_usable_def)
  ultimately show ?thesis
    using assms(2) by (simp add: parse_options_def options_usable_def)
qed

theorem parse_options_roundtrip_witness:
  "parse_options [''--queue'', ''q'', ''--machine'', ''m'', ''--system-config'', ''s'', ''--multi-sched''] =
     Inr (Some (default_options\<lparr>opt_queue := ''q'', opt_machine := ''m'', opt_system_config := ''s'',
       opt_multi_sched := True\<rparr>))"
  using parse_options_roundtrip [of "default_options\<lparr>opt_queue := ''q'', opt_machine := ''m'',
      opt_system_config := ''s'', opt_multi_sched := True\<rparr>"]
  by (simp add: options_typed_def options_usable_def default_options_def render_options_def option_arg_def
      flag_arg_def size_max_def)

end
