(* ===== verification/Slot_Allocation.thy ===== *)
theory Slot_Allocation
  imports Controller_Cgroup Controller_Vm Scheduler_Base
begin

section \<open>Abstract slot allocation\<close>

text \<open>
  What a controller promises of the slots, without tables, ids, messages or threads: every job
  holds a set of slots; a step takes free slots for a job that has none, gives a job's slots
  back, or exchanges two slots. The operations of the controllers are runs of such steps, so
  what holds of every reachable allocation holds of the controllers.
\<close>

type_synonym allocation = "nat \<Rightarrow> execute_config_elemT set"

inductive alloc_step :: "execute_config_elemT set \<Rightarrow> allocation \<Rightarrow> allocation \<Rightarrow> bool"
  for U :: "execute_config_elemT set"
where
  Take: "S \<noteq> {} \<Longrightarrow> S \<subseteq> U \<Longrightarrow> a j = {} \<Longrightarrow> (\<And>k. a k \<inter> S = {}) \<Longrightarrow> alloc_step U a (a(j := S))"
| Give: "a j \<noteq> {} \<Longrightarrow> alloc_step U a (a(j := {}))"
| Swap: "p \<in> U \<Longrightarrow> q \<in> U \<Longrightarrow> alloc_step U a (\<lambda>j. exchange p q ` a j)"

inductive_cases alloc_stepE: "alloc_step U a a'"

abbreviation alloc_run :: "execute_config_elemT set \<Rightarrow> allocation \<Rightarrow> allocation \<Rightarrow> bool" where
  "alloc_run U \<equiv> (alloc_step U)\<^sup>*\<^sup>*"

definition exclusive :: "execute_config_elemT set \<Rightarrow> allocation \<Rightarrow> bool" where
  "exclusive U a \<longleftrightarrow> (\<forall>j. a j \<subseteq> U) \<and> (\<forall>j k. j \<noteq> k \<longrightarrow> a j \<inter> a k = {})"

lemma exchange_image_disjoint: "A \<inter> B = {} \<Longrightarrow> exchange p q ` A \<inter> exchange p q ` B = {}"
  by (auto simp: exchange_inj)

lemma exchange_in: "p \<in> U \<Longrightarrow> q \<in> U \<Longrightarrow> x \<in> U \<Longrightarrow> exchange p q x \<in> U"
  by (simp add: exchange_def)

lemma exclusive_step: "alloc_step U a a' \<Longrightarrow> exclusive U a \<Longrightarrow> exclusive U a'"
proof (induction rule: alloc_step.induct)
  case (Take S a j)
  then show ?case by (auto simp: exclusive_def)
next
  case (Give a j)
  then show ?case by (auto simp: exclusive_def)
next
  case (Swap p q a)
  then have "exchange p q ` a j \<subseteq> U" for j
    using exchange_in [of p U q] unfolding exclusive_def by blast
  moreover have "exchange p q ` a j \<inter> exchange p q ` a k = {}" if "j \<noteq> k" for j k
    using Swap.prems that exchange_image_disjoint unfolding exclusive_def by metis
  ultimately show ?case by (simp add: exclusive_def)
qed

lemma exclusive_run: "alloc_run U a a' \<Longrightarrow> exclusive U a \<Longrightarrow> exclusive U a'"
  by (induction rule: rtranclp_induct) (auto intro: exclusive_step)

subsection \<open>The allocation of a controller\<close>

definition alloc_of :: "execute_config list \<Rightarrow> (nat \<Rightarrow> bool) \<Rightarrow> allocation" where
  "alloc_of cfgs act j = (if act j then set (cfgs ! j) else {})"

definition held :: "'z controllerT_scheme \<Rightarrow> allocation" where
  "held c = alloc_of (id_to_config c) (is_running c)"

definition all_slots :: "'z controllerT_scheme \<Rightarrow> execute_config_elemT set" where
  "all_slots c = {p. in2 (machine_usage c) p}"

lemma book_alloc: "book c' = book c \<Longrightarrow> held c' = held c \<and> all_slots c' = all_slots c"
  using is_running_cong [of c' c] book_fields [of c' c] by (auto simp: held_def all_slots_def)

lemma wf_exclusive: "wf c \<Longrightarrow> exclusive (all_slots c) (held c)"
proof -
  assume "wf c"
  note occ = wf_occupied [OF this]
  have "held c j \<subseteq> all_slots c" for j
    using occupied_running(4) [OF occ] by (auto simp: held_def alloc_of_def all_slots_def)
  moreover have owner: "get2 (machine_usage c) p = j" if "p \<in> held c j" for p j
    using occupied_running(5) [OF occ, of j p] that
    by (simp add: held_def alloc_of_def split: if_splits)
  moreover have "held c j \<inter> held c k = {}" if "j \<noteq> k" for j k
    using owner that by blast
  ultimately show ?thesis by (simp add: exclusive_def)
qed

text \<open>The exchange of slots, whatever the new configuration is, as long as it returns.\<close>

lemma base_update_run:
  assumes "wf c" and "is_running c i" and "base_update_config i new c = Inr c'"
  shows "alloc_run (all_slots c) (held c) (held c') \<and> all_slots c' = all_slots c \<and> wf c' \<and>
    is_running c' = is_running c \<and> machines c' = machines c \<and> system_config c' = system_config c \<and>
    cmd_counter c' = cmd_counter c \<and> id_to_job c' = id_to_job c \<and> length (id_to_config c' ! i) = length new"
proof -
  let ?act = "is_running c"
  define I where "I st \<longleftrightarrow> (case st of (u, cfgs) \<Rightarrow> occupied u cfgs ?act \<and>
      length u = length (machine_usage c) \<and> shape 2 u = shape 2 (machine_usage c) \<and>
      (\<forall>p. in2 u p \<longleftrightarrow> in2 (machine_usage c) p) \<and> length cfgs = length (id_to_config c) \<and>
      alloc_run (all_slots c) (held c) (alloc_of cfgs ?act))" for st
  from assms(3) obtain u cfgs where up:
    "for_each (update_config_step i new) [0..<length new] (machine_usage c, id_to_config c) = Inr (u, cfgs)"
    "c' = c\<lparr>machine_usage := u, id_to_config := cfgs\<rparr>" "cfgs ! i = new"
    by (auto simp: base_update_config_def)
  have "I (u, cfgs)"
  proof (rule for_each_invariant [OF up(1)])
    show "I (machine_usage c, id_to_config c)"
      using wf_occupied [OF assms(1)] by (simp add: I_def held_def)
  next
    fix k st st'
    assume k: "k \<in> set [0..<length new]" and I: "I st" and ok: "update_config_step i new k st = Inr st'"
    obtain v ds where st: "st = (v, ds)" by (cases st)
    from I st have occ: "occupied v ds ?act" and inv: "length v = length (machine_usage c)"
      "shape 2 v = shape 2 (machine_usage c)" "\<And>p. in2 v p \<longleftrightarrow> in2 (machine_usage c) p"
      "length ds = length (id_to_config c)" "alloc_run (all_slots c) (held c) (alloc_of ds ?act)"
      by (auto simp: I_def)
    from ok st have ki: "k < length (ds ! i)" and nc: "in2 v (new ! k)"
      by (auto simp: update_config_step_def in2_def)
    have small: "length ds \<le> size_max" using assms(1) inv(4) by (simp add: wf_def)
    from update_step_exchange [OF occ small assms(2) ki _ nc] k obtain v' ds' where
      step: "update_config_step i new k (v, ds) = Inr (v', ds')" "length v' = length v"
      "shape 2 v' = shape 2 v" "\<And>p. in2 v' p \<longleftrightarrow> in2 v p"
      "\<And>p. get2 v' p = get2 v (exchange (ds ! i ! k) (new ! k) p)" "length ds' = length ds"
      "\<And>j. ?act j \<Longrightarrow> ds' ! j = map (exchange (ds ! i ! k) (new ! k)) (ds ! j)" by auto
    have oc: "in2 v (ds ! i ! k)" using occupied_running(4) [OF occ assms(2)] ki by simp
    from occupied_exchange [OF occ oc nc step(4,5,6,7)] have "occupied v' ds' ?act" .
    moreover have "alloc_of ds' ?act = (\<lambda>j. exchange (ds ! i ! k) (new ! k) ` alloc_of ds ?act j)"
      using step(7) by (auto simp: alloc_of_def fun_eq_iff)
    then have "alloc_step (all_slots c) (alloc_of ds ?act) (alloc_of ds' ?act)"
      using oc nc inv(3) by (auto simp: all_slots_def intro!: Swap)
    with inv(5) have "alloc_run (all_slots c) (held c) (alloc_of ds' ?act)" by simp
    ultimately have "I (v', ds')" using inv step by (simp add: I_def)
    moreover have "st' = (v', ds')" using ok st step(1) by simp
    ultimately show "I st'" by simp
  qed
  moreover have "is_running c' = ?act" using is_running_cong [of c' c] up(2) by simp
  ultimately show ?thesis
    using up assms(1) by (auto simp: I_def held_def all_slots_def wf_def)
qed

subsection \<open>Every operation of a controller is a run\<close>

text \<open>How the state of a controller may change: by a run, on the same machines.\<close>

definition moves :: "'z controllerT_scheme \<Rightarrow> 'z controllerT_scheme \<Rightarrow> bool" where
  "moves c c' \<longleftrightarrow> wf c' \<and> alloc_run (all_slots c) (held c) (held c') \<and> all_slots c' = all_slots c \<and>
     machines c' = machines c \<and> system_config c' = system_config c"

lemma moves_refl: "wf c \<Longrightarrow> moves c c"
  by (simp add: moves_def)

lemma moves_trans: "moves a b \<Longrightarrow> moves b c \<Longrightarrow> moves a c"
  by (auto simp: moves_def)

lemma moves_book: "wf c \<Longrightarrow> book c' = book c \<Longrightarrow> moves c c'"
  using book_alloc [of c' c] book_wf [of c' c] book_fields [of c' c] by (simp add: moves_def)

lemma moves_fields:
  assumes "wf c"
  shows "moves c (c\<lparr>wakeups := w\<rparr>)" "moves c (c\<lparr>lock_owned := l\<rparr>)" "moves c (c\<lparr>done_called := d\<rparr>)"
  using assms is_running_cong [of "c\<lparr>wakeups := w\<rparr>" c] is_running_cong [of "c\<lparr>lock_owned := l\<rparr>" c]
    is_running_cong [of "c\<lparr>done_called := d\<rparr>" c]
  by (simp_all add: moves_def held_def all_slots_def)

text \<open>... and without new jobs.\<close>

definition steady :: "'z controllerT_scheme \<Rightarrow> 'z controllerT_scheme \<Rightarrow> bool" where
  "steady c c' \<longleftrightarrow> moves c c' \<and> cmd_counter c' = cmd_counter c \<and> id_to_job c' = id_to_job c"

lemma steady_trans: "steady a b \<Longrightarrow> steady b c \<Longrightarrow> steady a c"
  by (auto simp: steady_def intro: moves_trans)

lemma steady_wf: "steady c c' \<Longrightarrow> wf c'"
  by (simp add: steady_def moves_def)

lemma steady_fields:
  assumes "steady c c'"
  shows "steady c (c'\<lparr>wakeups := w\<rparr>)" "steady c (c'\<lparr>lock_owned := l\<rparr>)" "steady c (c'\<lparr>done_called := d\<rparr>)"
  using assms moves_fields [OF steady_wf [OF assms]] by (auto simp: steady_def intro: moves_trans)

lemma steady_book: "wf c \<Longrightarrow> book c' = book c \<Longrightarrow> steady c c'"
  using moves_book [of c c'] book_fields [of c' c] by (simp add: steady_def)

locale allocating = controller_interface V for V :: "'z controllerT_scheme virtuals" +
  assumes update_moves: "wf c \<Longrightarrow> is_running c i \<Longrightarrow> update_config V i cfg c = Inr c' \<Longrightarrow>
    moves c c' \<and> is_running c' = is_running c \<and> cmd_counter c' = cmd_counter c \<and>
    id_to_job c' = id_to_job c"
begin

lemma execute_takes:
  assumes "wf c" and "cmd_counter c < size_max" and "execute V job cfg c = Inr (i, c')"
  shows "alloc_step (all_slots c) (held c) (held c')" and "moves c c'"
proof -
  note ex = execute_started [OF assms]
  have idle: "\<not> is_running c i" using wf_running_lt [OF assms(1), of i] ex(2) by auto
  have n: "length (id_to_config c) = cmd_counter c" using assms(1) by (simp add: wf_def)
  have old: "(id_to_config c @ [cfg]) ! j = id_to_config c ! j" if "is_running c j" for j
    using wf_running_lt [OF assms(1) that] n by (simp add: nth_append)
  have new: "(id_to_config c @ [cfg]) ! i = cfg" using n ex(2) by (simp add: nth_append)
  have h: "held c' = (held c)(i := set cfg)"
  proof
    fix j
    show "held c' j = ((held c)(i := set cfg)) j"
      using old [of j] new idle by (cases "j = i") (auto simp: held_def alloc_of_def ex(4,5))
  qed
  have "get2 (machine_usage c) p = j" if "p \<in> held c j" for p j
    using that occupied_running(5) [OF wf_occupied [OF assms(1)]]
    by (auto simp: held_def alloc_of_def split: if_splits)
  moreover have "held c size_max = {}"
    using wf_running_lt [OF assms(1), of size_max] assms(2) by (auto simp: held_def alloc_of_def)
  ultimately have free: "held c k \<inter> set cfg = {}" for k using ex(10) by fastforce
  show step: "alloc_step (all_slots c) (held c) (held c')"
    unfolding h
  proof (rule Take)
    show "set cfg \<noteq> {}" using ex(9) by simp
    show "set cfg \<subseteq> all_slots c" using ex(10) by (auto simp: all_slots_def)
    show "held c i = {}" using idle by (simp add: held_def alloc_of_def)
  qed (rule free)
  have "all_slots c' = all_slots c" by (simp add: all_slots_def ex(7))
  with step show "moves c c'" using ex(1,11,12) by (simp add: moves_def)
qed

lemma run_thread_moves:
  assumes "wf c" and "run_thread V callback t (c, s) = Inr (c', s')"
  shows "moves c c' \<and> (is_running c t \<longrightarrow> alloc_step (all_slots c) (held c) (held c')) \<and>
    cmd_counter c' = cmd_counter c \<and> id_to_job c' = id_to_job c"
proof (cases "is_running c t")
  case True
  note fin = run_thread_finished [OF assms(1) True assms(2)]
  have "held c' = (held c)(t := {})" by (auto simp: fun_eq_iff held_def alloc_of_def fin(2,4))
  moreover have "held c t \<noteq> {}"
    using occupied_running(2) [OF wf_occupied [OF assms(1)] True] True
    by (simp add: held_def alloc_of_def)
  ultimately have step: "alloc_step (all_slots c) (held c) (held c')" by (simp add: Give)
  moreover have "all_slots c' = all_slots c" by (simp add: all_slots_def fin(3))
  ultimately show ?thesis using fin by (simp add: moves_def r_into_rtranclp)
next
  case False
  with assms show ?thesis by (simp add: run_thread_def moves_refl)
qed

text \<open>Waiting starts no jobs.\<close>

lemma wait_until_steady:
  assumes "wait_until V callback pred (c, s) = Inr (c', s')" and "wf c"
  shows "steady c c'"
proof -
  have "steady c (fst (c', s'))"
  proof (rule wait_until_keep [OF assms(1), where P = "\<lambda>st. steady c (fst st)"])
    show "steady c (fst (c, s))" using assms(2) by (simp add: steady_def moves_refl)
  next
    fix t st st'
    assume "steady c (fst st)" "run_thread V callback t st = Inr st'"
    then show "steady c (fst st')"
      using run_thread_moves [of "fst st" callback t "snd st" "fst st'" "snd st'"]
      by (auto simp: steady_def moves_def)
  qed (auto intro: steady_fields)
  then show ?thesis by simp
qed

end

subsection \<open>The two controllers\<close>

interpretation cga: allocating "cgroup_virtuals Y order" for Y order
  by unfold_locales (simp add: cgroup_virtuals_def cgroup_update_config_def)

lemma vm_update_moves:
  assumes "wf c" and "is_running c i" and "vm_update_config Y i cfg c = Inr c'"
  shows "moves c c' \<and> is_running c' = is_running c \<and> cmd_counter c' = cmd_counter c \<and>
    id_to_job c' = id_to_job c"
proof -
  from assms(3) obtain c3 c4 where st: "base_update_config i cfg c3 = Inr c4"
    "tock_timestamp (update_timer i) c4 = Inr c'" "book c3 = book c"
    by (rule vm_update_phases)
  note f3 = book_fields [OF st(3)] and f' = book_fields [OF book_tock [OF st(2)]]
  have wf3: "wf c3" "is_running c3 = is_running c"
    using assms(1) book_wf [OF st(3)] is_running_cong [OF f3(8)] by simp_all
  note up = base_update_run [OF wf3(1) _ st(1)]
  have "moves c3 c4" "is_running c4 = is_running c"
    using up wf3(2) assms(2) by (auto simp: moves_def)
  moreover have "moves c c3" using moves_book [OF assms(1) st(3)] .
  moreover have "moves c4 c'"
    using moves_book [OF _ book_tock [OF st(2)]] calculation(1) by (simp add: moves_def)
  ultimately show ?thesis
    using up wf3(2) assms(2) f3 f' is_running_cong [OF f'(8)] by (auto intro: moves_trans)
qed

interpretation vma: allocating "vm_virtuals Y" for Y
  by unfold_locales (simp add: vm_virtuals_def vm_update_moves)

subsection \<open>Messages and measurements change no slot\<close>

lemma freeze_book: "freeze Y V i c = Inr c' \<Longrightarrow> book c' = book c"
  by (auto simp: freeze_def suspend_resume_config_def dest: book_tick split: prod.splits)

lemma thaw_book: "thaw Y V i c = Inr c' \<Longrightarrow> book c' = book c"
  by (auto simp: thaw_def suspend_resume_config_def dest!: book_tock split: prod.splits)

lemma freeze_opposing_book: "freeze_opposing Y V i c = Inr c' \<Longrightarrow> book c' = book c"
  by (auto simp: freeze_opposing_def suspend_resume_config_def split: prod.splits)

lemma thaw_opposing_book: "thaw_opposing Y V i c = Inr c' \<Longrightarrow> book c' = book c"
  by (auto simp: thaw_opposing_def suspend_resume_config_def split: prod.splits)

end
