(* ===== verification/Vm_Properties.thy ===== *)
theory Vm_Properties
  imports Slot_Allocation
begin

section \<open>Properties of the controller for virtual machines\<close>

text \<open>
  Moving a job takes its virtual machines along: the loop of \<open>update_config\<close> that swaps the
  names in \<open>vm_locations\<close> and the loop of the base class that swaps the table entries do the
  same exchanges. Further, the start of all machines gives every slot its own machine, and
  waiting for the end of all jobs ends.
\<close>

subsection \<open>A sequence of disjoint exchanges\<close>

definition origin :: "'a list \<Rightarrow> 'a list \<Rightarrow> nat list \<Rightarrow> 'a \<Rightarrow> 'a" where
  "origin old new ks p = foldr (\<lambda>k. exchange (old ! k) (new ! k)) ks p"

lemma origin_snoc: "origin old new (ks @ [k]) p = origin old new ks (exchange (old ! k) (new ! k) p)"
  by (simp add: origin_def)

lemma origin_other:
  "\<forall>k \<in> set ks. p \<noteq> old ! k \<and> p \<noteq> new ! k \<Longrightarrow> origin old new ks p = p"
  unfolding origin_def by (induction ks) (auto simp: exchange_def)

lemma origin_pair:
  assumes "k \<in> set ks" and "distinct ks"
    and "\<And>m. m \<in> set ks \<Longrightarrow> m \<noteq> k \<Longrightarrow> {old ! k, new ! k} \<inter> {old ! m, new ! m} = {}"
  shows "origin old new ks (new ! k) = old ! k" and "origin old new ks (old ! k) = new ! k"
proof -
  from assms(1) obtain ks1 ks2 where ks: "ks = ks1 @ k # ks2" by (meson split_list)
  have other: "p \<noteq> old ! m \<and> p \<noteq> new ! m" if "p \<in> {old ! k, new ! k}" "m \<in> set ks1 \<union> set ks2" for p m
  proof -
    have "m \<in> set ks" "m \<noteq> k" using that(2) assms(2) ks by auto
    from assms(3) [OF this] that(1) show ?thesis by blast
  qed
  have pass: "origin old new ks1 p = p \<and> origin old new ks2 p = p" if "p \<in> {old ! k, new ! k}" for p
    using other [OF that] by (simp add: origin_other)
  have comp: "origin old new ks p =
      origin old new ks1 (exchange (old ! k) (new ! k) (origin old new ks2 p))" for p
    by (simp add: origin_def ks)
  show "origin old new ks (new ! k) = old ! k" "origin old new ks (old ! k) = new ! k"
    using pass by (simp_all add: comp exchange_def)
qed

text \<open>The moves a job can be asked for: whole entries stay, or go to slots it does not have.\<close>

definition movable :: "execute_config \<Rightarrow> execute_config \<Rightarrow> bool" where
  "movable old new \<longleftrightarrow> length new = length old \<and> distinct old \<and> distinct new \<and>
     (\<forall>k < length old. if fst (old ! k) = fst (new ! k) then old ! k = new ! k
        else new ! k \<notin> set old)"

lemma movable_disjoint:
  assumes "movable old new" and "k < length old" and "m < length old" and "m \<noteq> k"
  shows "{old ! k, new ! k} \<inter> {old ! m, new ! m} = {}"
proof -
  have new: "new ! k = old ! k \<or> new ! k \<notin> set old" if "k < length old" for k
    using assms(1) that unfolding movable_def by (auto split: if_splits)
  have dist: "old ! k \<noteq> old ! m" "new ! k \<noteq> new ! m"
    using assms by (simp_all add: movable_def nth_eq_iff_index_eq)
  have "new ! k \<noteq> old ! m" using new [OF assms(2)] dist(1) assms(3) by auto
  moreover have "new ! m \<noteq> old ! k" using new [OF assms(3)] dist(1) assms(2) by auto
  ultimately show ?thesis using dist by auto
qed

lemma movable_origin:
  assumes "movable old new" and "k < length old"
  shows "origin old new [0..<length old] (new ! k) = old ! k"
    and "origin old new [0..<length old] (old ! k) = new ! k"
  using origin_pair [of k "[0..<length old]" old new] movable_disjoint [OF assms(1,2)] assms(2)
  by auto

subsection \<open>The requests\<close>

definition procs_text :: "'z controllerT_scheme \<Rightarrow> nat \<Rightarrow> string option" where
  "procs_text c j =
     (if uses_sr_protocol (id_to_job c ! j)
      then Some (show_nat (nprocs (id_to_job c ! j) div length (id_to_config c ! j))) else None)"

definition vcpu_map_of :: "'z controllerT_scheme \<Rightarrow> nat \<Rightarrow> nat list list" where
  "vcpu_map_of c slot = map (\<lambda>cpu. [cpu]) (cpus (slots (system_config c) ! slot))"

text \<open>The task that exchanges the machines in slot \<open>a\<close> of job \<open>i\<close> and slot \<open>b\<close>.\<close>

definition exchange_task :: "vm_controllerT \<Rightarrow> nat \<Rightarrow> execute_config_elemT \<Rightarrow> execute_config_elemT \<Rightarrow> Migrate"
where
  "exchange_task c i a b =
     (let task = swap_task (get2 (vm_locations c) a) (machines c ! fst b) (get2 (vm_locations c) b)
      in with_hooks (procs_text c i) (procs_text c (get2 (machine_usage c) b))
           (if snd a = snd b then task
            else set_swap (\<lambda>s. s\<lparr>swap_vcpu_map := set_value (swap_vcpu_map s) (vcpu_map_of c (snd a))\<rparr>)
              (task\<lparr>migrate_vcpu_map := set_value (migrate_vcpu_map task) (vcpu_map_of c (snd b))\<rparr>)))"

definition migrate_message :: "Migrate \<Rightarrow> yaml" where
  "migrate_message t = merge_node (set_key Null ''task'' (Scalar ''migrate vm'')) (emit_migrate t)"

lemma emit_migrate_message:
  "emit_task_container (new_task_container\<lparr>tasks := [Migrate_task t]\<rparr>) = Inr (migrate_message t)"
proof -
  have "merge_node n Null = n" for n by (simp add: merge_node_def)
  then show ?thesis
    by (simp add: emit_task_container_def container_type_def new_task_container_def no_value_def
        migrate_message_def optional_emit_def)
qed

text \<open>What a move needs of the controller; everything but the mail.\<close>

definition swap_ready ::
  "vm_controllerT \<Rightarrow> nat \<Rightarrow> execute_config \<Rightarrow> bool" where
  "swap_ready c i new \<longleftrightarrow>
     wf c \<and> is_running c i \<and> movable (id_to_config c ! i) new \<and>
     (\<forall>p \<in> set new. in2 (machine_usage c) p) \<and>
     (\<forall>k < length new. id_to_config c ! i ! k \<noteq> new ! k \<longrightarrow>
        get2 (machine_usage c) (new ! k) \<noteq> size_max) \<and>
     (\<forall>p. in2 (machine_usage c) p \<longrightarrow> in2 (vm_locations c) p) \<and>
     length (slots (system_config c)) = 2 \<and>
     (\<forall>slot \<in> set (slots (system_config c)). length (cpus slot) = length (cpus (slots (system_config c) ! 0)))"

definition moved :: "execute_config \<Rightarrow> execute_config \<Rightarrow> nat \<Rightarrow> bool" where
  "moved old new k \<longleftrightarrow> fst (old ! k) \<noteq> fst (new ! k)"

definition timer_of :: "vm_controllerT \<Rightarrow> nat \<Rightarrow> execute_config \<Rightarrow> nat \<Rightarrow> string" where
  "timer_of c i new k =
     swap_timer (machines c ! fst (id_to_config c ! i ! k)) (machines c ! fst (new ! k)) i"

definition reply_topic :: "vm_controllerT \<Rightarrow> nat \<Rightarrow> nat \<Rightarrow> string" where
  "reply_topic c i k = result_topic (machines c ! fst (id_to_config c ! i ! k))"

text \<open>The entries that change their machine.\<close>

definition moves_among :: "vm_controllerT \<Rightarrow> nat \<Rightarrow> execute_config \<Rightarrow> nat list \<Rightarrow> nat list" where
  "moves_among c i new = filter (moved (id_to_config c ! i) new)"

definition message_of :: "yaml_lib \<Rightarrow> vm_controllerT \<Rightarrow> nat \<Rightarrow> execute_config \<Rightarrow> nat \<Rightarrow> string \<times> string" where
  "message_of Y c i new k =
     (task_topic (machines c ! fst (id_to_config c ! i ! k)),
      to_string Y (migrate_message (exchange_task c i (id_to_config c ! i ! k) (new ! k))))"

lemma swap_ready_elem:
  assumes "swap_ready c i new" and "k < length new"
  shows "in2 (id_to_config c) (i, k)" "length (id_to_config c ! i) = length new"
    "in2 (machine_usage c) (id_to_config c ! i ! k)" "in2 (machine_usage c) (new ! k)"
    "in2 (vm_locations c) (id_to_config c ! i ! k)" "in2 (vm_locations c) (new ! k)"
    "fst (id_to_config c ! i ! k) < length (machines c)" "fst (new ! k) < length (machines c)"
    "snd (id_to_config c ! i ! k) < 2" "snd (new ! k) < 2" "i < length (id_to_job c)"
    "moved (id_to_config c ! i) new k \<Longrightarrow> is_running c (get2 (machine_usage c) (new ! k))"
    "\<not> moved (id_to_config c ! i) new k \<Longrightarrow> id_to_config c ! i ! k = new ! k"
proof -
  note r = assms(1) [unfolded swap_ready_def movable_def]
  have wf: "wf c" and run: "is_running c i" using r by auto
  note occ = wf_occupied [OF wf]
  show len: "length (id_to_config c ! i) = length new" using r by simp
  have il: "i < length (id_to_config c)" using occupied_running(1) [OF occ run] .
  then show "in2 (id_to_config c) (i, k)" using len assms(2) by (simp add: in2_def)
  have old: "id_to_config c ! i ! k \<in> set (id_to_config c ! i)" using len assms(2) by simp
  show a: "in2 (machine_usage c) (id_to_config c ! i ! k)" using occupied_running(4) [OF occ run old] .
  show b: "in2 (machine_usage c) (new ! k)" using r assms(2) by simp
  have loc: "in2 (machine_usage c) p \<Longrightarrow> in2 (vm_locations c) p" for p using r by blast
  show "in2 (vm_locations c) (id_to_config c ! i ! k)" "in2 (vm_locations c) (new ! k)"
    using loc [OF a] loc [OF b] .
  have sh: "shape 2 (machine_usage c)" "length (machine_usage c) = length (machines c)"
    "length (id_to_job c) = length (id_to_config c)" using wf by (simp_all add: wf_def)
  from a b in2_shape [OF sh(1)] sh(2)
  show "fst (id_to_config c ! i ! k) < length (machines c)" "fst (new ! k) < length (machines c)"
    "snd (id_to_config c ! i ! k) < 2" "snd (new ! k) < 2" by auto
  show "i < length (id_to_job c)" using il sh(3) by simp
  show "is_running c (get2 (machine_usage c) (new ! k))" if "moved (id_to_config c ! i) new k"
  proof -
    have "id_to_config c ! i ! k \<noteq> new ! k" using that by (auto simp: moved_def)
    then have "get2 (machine_usage c) (new ! k) \<noteq> size_max" using r assms(2) by simp
    from occupied_slot(1) [OF occ b this] show ?thesis .
  qed
  show "id_to_config c ! i ! k = new ! k" if "\<not> moved (id_to_config c ! i) new k"
    using that r assms(2) by (auto simp: moved_def split: if_splits)
qed

lemma hook_procs_ok:
  assumes "wf c" and "is_running c j"
  shows "hook_procs c j (id_to_job c ! j) = Inr (procs_text c j)"
  using occupied_running(1,2) [OF wf_occupied [OF assms(1)] assms(2)]
  by (simp add: hook_procs_def procs_text_def vec_at_in)

lemma vcpu_map_ok:
  assumes "swap_ready c i new" and "s < 2"
  shows "generate_vcpu_map c s = Inr (vcpu_map_of c s)"
proof -
  have n: "length (slots (system_config c)) = 2" using assms(1) by (simp add: swap_ready_def)
  then have "slots (system_config c) ! s \<in> set (slots (system_config c))" using assms(2) by simp
  moreover have "\<forall>slot \<in> set (slots (system_config c)).
      length (cpus slot) = length (cpus (slots (system_config c) ! 0))"
    using assms(1) unfolding swap_ready_def by (elim conjE)
  ultimately have "length (cpus (slots (system_config c) ! s)) = length (cpus (slots (system_config c) ! 0))"
    by blast
  with n assms(2) show ?thesis
    by (simp add: generate_vcpu_map_def slot_size_def slot_conf_def vec_at_in vcpu_map_of_def)
qed

text \<open>One request: a message to the source host and a running timer.\<close>

lemma request_swap_ok:
  assumes "swap_ready c i new" and "k < length new" and "moved (id_to_config c ! i) new k"
    and "ready (comm c)" and "timer_of c i new k \<notin> timer_names (timestamps c)"
  shows "\<exists>c'. request_swap Y i new k c = Inr c' \<and> book c' = book c \<and>
    vm_locations c' = vm_locations c \<and> ready (comm c') \<and> subscribed (comm c') = subscribed (comm c) \<and>
    pending (comm c') = pending (comm c) \<and>
    published (comm c') = published (comm c) @ [message_of Y c i new k] \<and>
    enabled (timestamps c') = enabled (timestamps c) \<and>
    timer_names (timestamps c') = (if enabled (timestamps c)
      then insert (timer_of c i new k) (timer_names (timestamps c)) else timer_names (timestamps c))"
proof -
  let ?a = "id_to_config c ! i ! k" and ?b = "new ! k"
  note el = swap_ready_elem [OF assms(1,2)]
  note dest = el(12) [OF assms(3)]
  let ?j = "get2 (machine_usage c) ?b"
  have wf: "wf c" and run: "is_running c i" using assms(1) by (auto simp: swap_ready_def)
  have jl: "?j < length (id_to_job c)"
    using wf_running_lt [OF wf dest] wf by (simp add: wf_def)
  obtain c1 where c1: "tick_timestamp (timer_of c i new k) c = Inr c1"
    "timer_names (timestamps c1) = (if enabled (timestamps c)
      then insert (timer_of c i new k) (timer_names (timestamps c)) else timer_names (timestamps c))"
    "enabled (timestamps c1) = enabled (timestamps c)"
    using tick_timestamp_total [OF assms(5)] by blast
  have more: "vm_locations c1 = vm_locations c"
    using c1(1) by (auto simp: tick_timestamp_def read_clock_def)
  have comm1: "comm c1 = comm c" using tick_comm [OF c1(1)] .
  from mb.send_ok [OF assms(4), of "fst (message_of Y c i new k)" "snd (message_of Y c i new k)"]
  obtain m where m: "send_message (snd (message_of Y c i new k)) (fst (message_of Y c i new k)) (comm c) = Inr m"
    "ready m" "subscribed m = subscribed (comm c)" "pending m = pending (comm c)"
    "published m = published (comm c) @ [message_of Y c i new k]"
    by (auto simp: message_of_def task_topic_def)
  have in_ab: "fst ?a < length (machines c)" "fst ?b < length (machines c)" using el by auto
  have maps: "with_vcpu_maps c (snd ?a) (snd ?b) t =
      Inr (if snd ?a = snd ?b then t
        else set_swap (\<lambda>s. s\<lparr>swap_vcpu_map := set_value (swap_vcpu_map s) (vcpu_map_of c (snd ?a))\<rparr>)
          (t\<lparr>migrate_vcpu_map := set_value (migrate_vcpu_map t) (vcpu_map_of c (snd ?b))\<rparr>))" for t
    using vcpu_map_ok [OF assms(1)] el(9,10) by (simp add: with_vcpu_maps_def)
  have at: "at2 (id_to_config c) i k = Inr ?a" "vec_at new k = Inr ?b"
    using el(1) assms(2) by (simp_all add: get2_def)
  have diff: "fst ?a \<noteq> fst ?b" using assms(3) by (simp add: moved_def)
  have "request_swap Y i new k c = Inr (c1\<lparr>comm := m\<rparr>)"
    unfolding request_swap_def at
    using diff in_ab el(5,6,4,11) jl maps hook_procs_ok [OF wf run] hook_procs_ok [OF wf dest]
      emit_migrate_message c1(1) m(1) comm1
    by (simp add: split_def vec_at_in at2_in task_container_to_string_def message_of_def
        exchange_task_def Let_def timer_of_def)
  with c1 m more comm1 book_tick [OF c1(1)] show ?thesis
    by (intro exI [of _ "c1\<lparr>comm := m\<rparr>"]) simp
qed

lemma swap_parts_cong:
  assumes "book c' = book c" and "vm_locations c' = vm_locations c"
  shows "swap_ready c' i new = swap_ready c i new" "message_of Y c' i new = message_of Y c i new"
    "timer_of c' i new = timer_of c i new"
proof -
  note same = book_fields [OF assms(1)]
  show "swap_ready c' i new = swap_ready c i new"
    using book_wf [OF assms(1)] is_running_cong [OF same(8)] assms(2) same by (simp add: swap_ready_def)
  have "procs_text c' = procs_text c" "vcpu_map_of c' = vcpu_map_of c"
    using same by (simp_all add: procs_text_def vcpu_map_of_def fun_eq_iff)
  then have "exchange_task c' i = exchange_task c i"
    using same(1,2) assms(2) by (intro ext) (simp only: exchange_task_def)
  then show "message_of Y c' i new = message_of Y c i new"
    using same(1,3) by (intro ext) (simp only: message_of_def)
  show "timer_of c' i new = timer_of c i new" using same by (simp add: timer_of_def fun_eq_iff)
qed

lemma requests_ok:
  assumes "swap_ready c i new" and "ready (comm c)" and "enabled (timestamps c)"
    and "distinct (map (timer_of c i new) (moves_among c i new [0..<length new]))"
    and "\<forall>k \<in> set (moves_among c i new [0..<length new]). timer_of c i new k \<notin> timer_names (timestamps c)"
  shows "\<exists>c'. for_each (request_swap Y i new) [0..<length new] c = Inr c' \<and> book c' = book c \<and>
    vm_locations c' = vm_locations c \<and> ready (comm c') \<and> subscribed (comm c') = subscribed (comm c) \<and>
    pending (comm c') = pending (comm c) \<and>
    published (comm c') = published (comm c) @ map (message_of Y c i new) (moves_among c i new [0..<length new]) \<and>
    enabled (timestamps c') \<and>
    timer_names (timestamps c') = timer_names (timestamps c) \<union> timer_of c i new ` set (moves_among c i new [0..<length new])"
proof -
  define I where "I pre c' \<longleftrightarrow> book c' = book c \<and>
    vm_locations c' = vm_locations c \<and> ready (comm c') \<and> subscribed (comm c') = subscribed (comm c) \<and>
    pending (comm c') = pending (comm c) \<and>
    published (comm c') = published (comm c) @ map (message_of Y c i new) (moves_among c i new pre) \<and>
    enabled (timestamps c') \<and>
    timer_names (timestamps c') = timer_names (timestamps c) \<union> timer_of c i new ` set (moves_among c i new pre)"
    for pre and c' :: vm_controllerT
  have "\<exists>c'. for_each (request_swap Y i new) [0..<length new] c = Inr c' \<and> I [0..<length new] c'"
  proof (rule for_each_total)
    show "I [] c" using assms by (simp add: I_def moves_among_def)
  next
    fix pre k post d
    assume split: "[0..<length new] = pre @ k # post" and I: "I pre d"
    from split have "k \<in> set [0..<length new]" by simp
    then have k: "k < length new" by simp
    note same = swap_parts_cong [of d c] book_fields [of d c]
    have ready_d: "swap_ready d i new" using same(1) I assms(1) by (simp add: I_def)
    show "\<exists>d'. request_swap Y i new k d = Inr d' \<and> I (pre @ [k]) d'"
    proof (cases "moved (id_to_config c ! i) new k")
      case False
      have "id_to_config d = id_to_config c" "machines d = machines c" using I same by (auto simp: I_def)
      moreover have "request_swap Y i new k d = Inr d"
        using False swap_ready_elem(1,13) [OF ready_d k] k calculation
        by (simp add: request_swap_def at2_in vec_at_in get2_def split_def moved_def)
      ultimately show ?thesis using I False by (simp add: I_def moves_among_def)
    next
      case True
      have "timer_of c i new k \<notin> timer_names (timestamps d)"
        using I assms(4,5) split True by (auto simp: I_def moves_among_def)
      with request_swap_ok [OF ready_d k, where Y = Y] True I same show ?thesis
        by (auto simp: I_def moves_among_def)
    qed
  qed
  then show ?thesis by (simp add: I_def)
qed

subsection \<open>The replies\<close>

definition success_front :: "yaml_lib \<Rightarrow> string \<Rightarrow> bool" where
  "success_front Y p \<longleftrightarrow> (\<forall>response. \<exists>r x. result_container_from_string Y response p = Inr r \<and>
     front_result r = Inr x \<and> status x = ''success'')"

text \<open>The replies for the entries \<open>ks\<close> are what the topics of the source hosts hold next.\<close>

definition swap_replies ::
  "vm_controllerT \<Rightarrow> nat \<Rightarrow> (nat \<Rightarrow> string) \<Rightarrow> nat list \<Rightarrow> (string \<Rightarrow> string list) \<Rightarrow> string \<Rightarrow> string list"
where
  "swap_replies c i p ks rest t =
     map p (filter (\<lambda>k. reply_topic c i k = t) ks) @ rest t"

lemma swap_locations_ok:
  assumes "in2 l a" and "in2 l b"
  shows "\<exists>l'. swap_locations a b l = Inr l' \<and> (\<forall>p. in2 l' p \<longleftrightarrow> in2 l p) \<and>
    (\<forall>p. get2 l' p = get2 l (exchange a b p))"
  using assms
  by (intro exI [of _ "put2 (put2 l a (get2 l b)) b (get2 l a)"])
    (auto simp: swap_locations_def get2_put2 exchange_def)

lemma await_swap_ok:
  assumes "swap_ready c i new" and "k < length new" and "moved (id_to_config c ! i) new k"
    and "book d = book c" and "\<And>p. in2 (vm_locations d) p = in2 (vm_locations c) p"
    and "ready (comm d)" and "reply_topic c i k \<in> subscribed (comm d)"
    and "pending (comm d) (reply_topic c i k) = p # ps" and "success_front Y p"
    and "timer_of c i new k \<in> timer_names (timestamps d)"
  shows "\<exists>r' d'. await_swap Y i new k (r, d) = Inr (r', d') \<and> book d' = book c \<and>
    (\<forall>q. in2 (vm_locations d') q = in2 (vm_locations c) q) \<and>
    (\<forall>q. get2 (vm_locations d') q =
       get2 (vm_locations d) (exchange (id_to_config c ! i ! k) (new ! k) q)) \<and>
    ready (comm d') \<and> subscribed (comm d') = subscribed (comm d) \<and>
    published (comm d') = published (comm d) \<and>
    pending (comm d') = (pending (comm d))(reply_topic c i k := ps) \<and>
    enabled (timestamps d') = enabled (timestamps d) \<and>
    timer_names (timestamps d') = timer_names (timestamps d)"
proof -
  note el = swap_ready_elem [OF assms(1,2)] and same = book_fields [OF assms(4)]
  from mb.recv_ok [OF assms(6,7,8)] obtain m where
    m: "get_message (reply_topic c i k) (comm d) = Inr (p, m)" "ready m"
      "subscribed m = subscribed (comm d)" "published m = published (comm d)"
      "pending m = (pending (comm d))(reply_topic c i k := ps)" by blast
  from assms(9) obtain q x where q: "result_container_from_string Y r p = Inr q"
    "front_result q = Inr x" "status x = ''success''" unfolding success_front_def by blast
  obtain d1 where d1: "tock_timestamp (timer_of c i new k) (d\<lparr>comm := m\<rparr>) = Inr d1"
    "timer_names (timestamps d1) = timer_names (timestamps d)"
    "enabled (timestamps d1) = enabled (timestamps d)"
    using tock_timestamp_total [of "d\<lparr>comm := m\<rparr>" "timer_of c i new k"] assms(10) by auto
  have more: "vm_locations d1 = vm_locations d"
    using d1(1) by (auto simp: tock_timestamp_def read_clock_def)
  have comm1: "comm d1 = m" using tock_comm [OF d1(1)] by simp
  from swap_locations_ok [of "vm_locations d" "id_to_config c ! i ! k" "new ! k"] el(5,6) assms(5)
  obtain l where l: "swap_locations (id_to_config c ! i ! k) (new ! k) (vm_locations d) = Inr l"
    "\<forall>p. in2 l p \<longleftrightarrow> in2 (vm_locations c) p"
    "\<forall>p. get2 l p = get2 (vm_locations d) (exchange (id_to_config c ! i ! k) (new ! k) p)" by auto
  have "at2 (id_to_config d) i k = Inr (id_to_config c ! i ! k)" "vec_at new k = Inr (new ! k)"
    using el(1) assms(2) same(3) by (simp_all add: get2_def)
  then have "await_swap Y i new k (r, d) = Inr (q, d1\<lparr>vm_locations := l\<rparr>)"
    using assms(3) el(7,8) m(1) q d1(1) more l(1) same(1)
    by (simp add: await_swap_def vec_at_in moved_def reply_topic_def timer_of_def)
  with m d1 l more comm1 assms(4) book_tock [OF d1(1)] show ?thesis
    by (intro exI [of _ q] exI [of _ "d1\<lparr>vm_locations := l\<rparr>"]) simp
qed


lemma upt_snoc_split:
  assumes "[0..<n] = pre @ k # post"
  shows "k = length pre" and "[length pre..<n] = k # post" and "[length (pre @ [k])..<n] = post"
proof -
  have n: "n = length pre + Suc (length post)"
    using arg_cong [OF assms, of length] by simp
  have "drop (length pre) [0..<n] = k # post" using assms by simp
  then show all: "[length pre..<n] = k # post" by simp
  with n show "k = length pre" by (simp add: upt_conv_Cons del: upt_Suc)
  have "drop (length (pre @ [k])) [0..<n] = post" using assms by simp
  then show "[length (pre @ [k])..<n] = post" by simp
qed

lemma awaits_ok:
  assumes "swap_ready c i new" and "book d = book c" and "vm_locations d = vm_locations c"
    and "ready (comm d)"
    and "\<forall>k \<in> set (moves_among c i new [0..<length new]).
      reply_topic c i k \<in> subscribed (comm d) \<and> success_front Y (p k) \<and>
      timer_of c i new k \<in> timer_names (timestamps d)"
    and "pending (comm d) = swap_replies c i p (moves_among c i new [0..<length new]) rest"
  shows "\<exists>r d'. for_each (await_swap Y i new) [0..<length new] (new_result_container, d) = Inr (r, d') \<and>
    book d' = book c \<and> (\<forall>q. in2 (vm_locations d') q = in2 (vm_locations c) q) \<and>
    (\<forall>q. get2 (vm_locations d') q =
       get2 (vm_locations c) (origin (id_to_config c ! i) new [0..<length new] q)) \<and>
    ready (comm d') \<and> subscribed (comm d') = subscribed (comm d) \<and>
    published (comm d') = published (comm d) \<and> pending (comm d') = rest \<and>
    enabled (timestamps d') = enabled (timestamps d) \<and>
    timer_names (timestamps d') = timer_names (timestamps d)"
proof -
  define I where "I pre st \<longleftrightarrow> book (snd st) = book c \<and>
    (\<forall>q. in2 (vm_locations (snd st)) q = in2 (vm_locations c) q) \<and>
    (\<forall>q. get2 (vm_locations (snd st)) q =
       get2 (vm_locations c) (origin (id_to_config c ! i) new pre q)) \<and>
    ready (comm (snd st)) \<and> subscribed (comm (snd st)) = subscribed (comm d) \<and>
    published (comm (snd st)) = published (comm d) \<and>
    pending (comm (snd st)) = swap_replies c i p (moves_among c i new [length pre..<length new]) rest \<and>
    enabled (timestamps (snd st)) = enabled (timestamps d) \<and>
    timer_names (timestamps (snd st)) = timer_names (timestamps d)"
    for pre and st :: "Result_container \<times> vm_controllerT"
  have "\<exists>st. for_each (await_swap Y i new) [0..<length new] (new_result_container, d) = Inr st \<and>
      I [0..<length new] st"
  proof (rule for_each_total)
    show "I [] (new_result_container, d)" using assms by (simp add: I_def origin_def)
  next
    fix pre k post st
    assume split: "[0..<length new] = pre @ k # post" and I: "I pre st"
    note rest = upt_snoc_split [OF split]
    obtain r e where st: "st = (r, e)" by (cases st)
    from split have "k \<in> set [0..<length new]" by simp
    then have k: "k < length new" by simp
    have bk: "book e = book c" using I st by (simp add: I_def)
    note same = book_fields [OF bk] and el = swap_ready_elem [OF assms(1) k]
    show "\<exists>st'. await_swap Y i new k st = Inr st' \<and> I (pre @ [k]) st'"
    proof (cases "moved (id_to_config c ! i) new k")
      case False
      have "exchange (id_to_config c ! i ! k) (new ! k) q = q" for q
        using el(13) [OF False] by (simp add: exchange_def)
      then have o: "origin (id_to_config c ! i) new (pre @ [k]) q = origin (id_to_config c ! i) new pre q"
        for q by (simp add: origin_snoc)
      have "await_swap Y i new k (r, e) = Inr (r, e)"
        using el(1,7,8) False k same(1,3)
        by (simp add: await_swap_def at2_in vec_at_in get2_def split_def moved_def)
      then show ?thesis using I st False o rest by (simp add: I_def moves_among_def)
    next
      case True
      have mem: "k \<in> set (moves_among c i new [0..<length new])"
        using True k by (simp add: moves_among_def)
      note at_k = assms(5) [rule_format, OF mem]
      have pend: "pending (comm e) (reply_topic c i k) = p k #
          swap_replies c i p (moves_among c i new post) rest (reply_topic c i k)"
        using I st rest(2) True by (simp add: I_def swap_replies_def moves_among_def)
      have "(pending (comm e))(reply_topic c i k :=
          swap_replies c i p (moves_among c i new post) rest (reply_topic c i k)) =
          swap_replies c i p (moves_among c i new post) rest"
        using I st rest(2) True by (auto simp: I_def swap_replies_def moves_among_def fun_eq_iff)
      moreover from I st have inv: "\<And>q. in2 (vm_locations e) q = in2 (vm_locations c) q"
        "ready (comm e)" "subscribed (comm e) = subscribed (comm d)"
        "published (comm e) = published (comm d)"
        "\<And>q. get2 (vm_locations e) q = get2 (vm_locations c) (origin (id_to_config c ! i) new pre q)"
        "enabled (timestamps e) = enabled (timestamps d)"
        "timer_names (timestamps e) = timer_names (timestamps d)"
        unfolding I_def by (simp_all del: split_paired_All)
      moreover from await_swap_ok [OF assms(1) k True bk inv(1,2) _ pend, of Y r] at_k inv
      obtain r' e' where "await_swap Y i new k (r, e) = Inr (r', e')" "book e' = book c"
        "\<forall>q. in2 (vm_locations e') q = in2 (vm_locations c) q"
        "\<forall>q. get2 (vm_locations e') q =
           get2 (vm_locations e) (exchange (id_to_config c ! i ! k) (new ! k) q)"
        "ready (comm e')" "subscribed (comm e') = subscribed (comm e)"
        "published (comm e') = published (comm e)"
        "pending (comm e') = (pending (comm e))(reply_topic c i k :=
           swap_replies c i p (moves_among c i new post) rest (reply_topic c i k))"
        "enabled (timestamps e') = enabled (timestamps e)"
        "timer_names (timestamps e') = timer_names (timestamps e)" by auto
      ultimately show ?thesis using st rest(3)
        by (intro exI [of _ "(r', e')"]) (simp add: I_def origin_snoc del: split_paired_All)
    qed
  qed
  then show ?thesis by (auto simp: I_def swap_replies_def moves_among_def fun_eq_iff)
qed

subsection \<open>The tables after the move\<close>

definition onward :: "'a list \<Rightarrow> 'a list \<Rightarrow> nat list \<Rightarrow> 'a \<Rightarrow> 'a" where
  "onward old new ks p = foldl (\<lambda>q k. exchange (old ! k) (new ! k) q) p ks"

lemma onward_Nil [simp]: "onward old new [] = id"
  by (simp add: onward_def fun_eq_iff)

lemma onward_snoc: "onward old new (ks @ [k]) p = exchange (old ! k) (new ! k) (onward old new ks p)"
  by (simp add: onward_def)

lemma origin_onward: "origin old new ks (onward old new ks p) = p"
proof (induction ks rule: rev_induct)
  case Nil
  then show ?case by (simp add: origin_def onward_def)
next
  case (snoc k ks)
  have "exchange (old ! k) (new ! k) (exchange (old ! k) (new ! k) q) = q" for q
    by (simp add: exchange_def)
  with snoc show ?case by (simp add: origin_snoc onward_snoc)
qed

lemma onward_other:
  "\<forall>k \<in> set ks. p \<noteq> old ! k \<and> p \<noteq> new ! k \<Longrightarrow> onward old new ks p = p"
  by (induction ks rule: rev_induct) (auto simp: onward_def exchange_def)

text \<open>All jobs are moved by the same exchanges.\<close>

lemma base_update_onward:
  assumes "wf c" and "is_running c i" and mv: "movable (id_to_config c ! i) new"
    and "\<forall>p \<in> set new. in2 (machine_usage c) p"
  shows "\<exists>c'. base_update_config i new c = Inr c' \<and> wf c' \<and> is_running c' = is_running c \<and>
    id_to_config c' ! i = new \<and> (\<forall>j. is_running c j \<longrightarrow> id_to_config c' ! j =
      map (onward (id_to_config c ! i) new [0..<length new]) (id_to_config c ! j)) \<and>
    (\<exists>u cfgs. c' = c\<lparr>machine_usage := u, id_to_config := cfgs\<rparr>)"
proof -
  let ?act = "is_running c" and ?old = "id_to_config c ! i"
  define I where "I pre st \<longleftrightarrow> occupied (fst st) (snd st) ?act \<and>
      (\<forall>p. in2 (fst st) p \<longleftrightarrow> in2 (machine_usage c) p) \<and> length (snd st) = length (id_to_config c) \<and>
      (\<forall>j. ?act j \<longrightarrow> snd st ! j = map (onward ?old new pre) (id_to_config c ! j))" for pre st
  have len: "length new = length ?old" using mv by (simp add: movable_def)
  have "\<exists>st. for_each (update_config_step i new) [0..<length new] (machine_usage c, id_to_config c) =
      Inr st \<and> I [0..<length new] st"
  proof (rule for_each_total)
    show "I [] (machine_usage c, id_to_config c)"
      using wf_occupied [OF assms(1)] by (simp add: I_def)
  next
    fix pre k post st
    assume split: "[0..<length new] = pre @ k # post" and I: "I pre st"
    obtain v ds where st: "st = (v, ds)" by (cases st)
    from split have "k \<in> set [0..<length new]" by simp
    then have k: "k < length new" by simp
    have pre: "m < length new \<and> m \<noteq> k" if "m \<in> set pre" for m
    proof -
      have "m \<in> set [0..<length new]" using split that by simp
      moreover have "distinct (pre @ k # post)" using split by (metis distinct_upt)
      ultimately show ?thesis using that by auto
    qed
    from I st have occ: "occupied v ds ?act" and inv: "\<And>p. in2 v p \<longleftrightarrow> in2 (machine_usage c) p"
      "length ds = length (id_to_config c)"
      "\<And>j. ?act j \<Longrightarrow> ds ! j = map (onward ?old new pre) (id_to_config c ! j)"
      unfolding I_def by (simp_all del: split_paired_All)
    have stay: "\<forall>m \<in> set pre. ?old ! k \<noteq> ?old ! m \<and> ?old ! k \<noteq> new ! m"
    proof
      fix m
      assume "m \<in> set pre"
      from movable_disjoint [OF mv, of k m] pre [OF this] k len
      show "?old ! k \<noteq> ?old ! m \<and> ?old ! k \<noteq> new ! m" by auto
    qed
    have here: "ds ! i ! k = ?old ! k" and ki: "k < length (ds ! i)"
      using inv(3) [OF assms(2)] onward_other [OF stay] k len by simp_all
    have small: "length ds \<le> size_max" using assms(1) inv(2) by (simp add: wf_def)
    have nc: "in2 v (new ! k)" using assms(4) k inv(1) by simp
    from update_step_exchange [OF occ small assms(2) ki k nc] obtain v' ds' where
      step: "update_config_step i new k (v, ds) = Inr (v', ds')"
      "\<And>p. in2 v' p \<longleftrightarrow> in2 v p" "\<And>p. get2 v' p = get2 v (exchange (?old ! k) (new ! k) p)"
      "length ds' = length ds" "\<And>j. ?act j \<Longrightarrow> ds' ! j = map (exchange (?old ! k) (new ! k)) (ds ! j)"
      unfolding here by blast
    have "in2 v (?old ! k)" using occupied_running(4) [OF occ assms(2)] ki here by (metis nth_mem)
    from occupied_exchange [OF occ this nc step(2,3,4,5)] have "occupied v' ds' ?act" .
    then have "I (pre @ [k]) (v', ds')" using inv step by (simp add: I_def onward_snoc)
    then show "\<exists>st'. update_config_step i new k st = Inr st' \<and> I (pre @ [k]) st'" using st step(1) by auto
  qed
  then obtain v ds where loop: "for_each (update_config_step i new) [0..<length new]
      (machine_usage c, id_to_config c) = Inr (v, ds)" "I [0..<length new] (v, ds)" by auto
  have "distinct new" using mv by (simp add: movable_def)
  from base_update_config_ok [OF assms(1,2) len this assms(4)] obtain u cfgs where
    up: "base_update_config i new c = Inr (c\<lparr>machine_usage := u, id_to_config := cfgs\<rparr>)"
    "updating i new ?act (machine_usage c, id_to_config c) (length new) (u, cfgs)" "cfgs ! i = new"
    by blast
  let ?c' = "c\<lparr>machine_usage := u, id_to_config := cfgs\<rparr>"
  have "c\<lparr>machine_usage := v, id_to_config := ds\<rparr> = ?c'"
    using up(1) loop(1) by (auto simp: base_update_config_def)
  then have "cfgs = ds" by (metis controllerT.select_convs(4) controllerT.surjective controllerT.update_convs(3,4))
  with loop(2) have "\<forall>j. ?act j \<longrightarrow> cfgs ! j = map (onward ?old new [0..<length new]) (id_to_config c ! j)"
    by (simp add: I_def)
  with up wf_updated [OF assms(1) up(2)] is_running_cong [of ?c' c] show ?thesis
    by (intro exI [of _ ?c']) auto
qed

subsection \<open>Moving a job\<close>

text \<open>
  What a move needs: the slots are fine, no timer of the move exists, and the topics of the
  source hosts hold the successful replies \<open>p\<close>.
\<close>

definition swap_mail ::
  "yaml_lib \<Rightarrow> vm_controllerT \<Rightarrow> nat \<Rightarrow> execute_config \<Rightarrow> (nat \<Rightarrow> string) \<Rightarrow>
     (string \<Rightarrow> string list) \<Rightarrow> bool" where
  "swap_mail Y c i new p rest \<longleftrightarrow> ready (comm c) \<and>
     (let ks = moves_among c i new [0..<length new] in
      (\<forall>k \<in> set ks. reply_topic c i k \<in> subscribed (comm c) \<and> success_front Y (p k)) \<and>
      pending (comm c) = swap_replies c i p ks rest)"

definition swap_timers_free :: "vm_controllerT \<Rightarrow> nat \<Rightarrow> execute_config \<Rightarrow> bool" where
  "swap_timers_free c i new \<longleftrightarrow> enabled (timestamps c) \<and>
     (let names = map (timer_of c i new) (moves_among c i new [0..<length new]) in
      distinct (update_timer i # names) \<and>
      set (update_timer i # names) \<inter> timer_names (timestamps c) = {})"

lemma vm_update_ok:
  assumes sr: "swap_ready c i new" and mail: "swap_mail Y c i new p rest"
    and tf: "swap_timers_free c i new"
  shows "\<exists>c'. vm_update_config Y i new c = Inr c' \<and> wf c' \<and> is_running c' = is_running c \<and>
    id_to_config c' ! i = new \<and>
    (\<forall>j. is_running c j \<longrightarrow>
       id_to_config c' ! j = map (onward (id_to_config c ! i) new [0..<length new]) (id_to_config c ! j)) \<and>
    (\<forall>q. get2 (vm_locations c') q =
       get2 (vm_locations c) (origin (id_to_config c ! i) new [0..<length new] q)) \<and>
    published (comm c') = published (comm c) @ map (message_of Y c i new) (moves_among c i new [0..<length new]) \<and>
    pending (comm c') = rest"
proof -
  let ?ks = "moves_among c i new [0..<length new]"
  note sr' = sr [unfolded swap_ready_def]
  from tf have timers: "enabled (timestamps c)" "update_timer i \<notin> timer_names (timestamps c)"
    "distinct (map (timer_of c i new) ?ks)"
    "\<forall>k \<in> set ?ks. timer_of c i new k \<notin> timer_names (timestamps c)"
    and "update_timer i \<notin> timer_of c i new ` set ?ks"
    by (auto simp: swap_timers_free_def Let_def)
  then have free: "\<forall>k \<in> set ?ks. timer_of c i new k \<notin> insert (update_timer i) (timer_names (timestamps c))"
    by force
  from tick_timestamp_total [OF timers(2)] timers(1) obtain c1 where
    c1: "tick_timestamp (update_timer i) c = Inr c1" "enabled (timestamps c1)"
    "timer_names (timestamps c1) = insert (update_timer i) (timer_names (timestamps c))" by auto
  have locs1: "vm_locations c1 = vm_locations c"
    using c1(1) by (auto simp: tick_timestamp_def read_clock_def)
  note b1 = book_tick [OF c1(1)] and comm1 = tick_comm [OF c1(1)]
  note same = swap_parts_cong [OF b1 locs1] book_fields(1,3) [OF b1]
  have mv1: "moves_among c1 i new = moves_among c i new" using same(5) by (simp add: moves_among_def fun_eq_iff)
  from mail have mail': "ready (comm c)" "\<forall>k \<in> set ?ks. reply_topic c i k \<in> subscribed (comm c) \<and> success_front Y (p k)"
    "pending (comm c) = swap_replies c i p ?ks rest" by (auto simp: swap_mail_def Let_def)
  from requests_ok [of c1 i new Y] sr same mv1 comm1 mail'(1) c1 timers(3) free
  obtain c2 where c2: "for_each (request_swap Y i new) [0..<length new] c1 = Inr c2" "book c2 = book c1"
    "vm_locations c2 = vm_locations c" "ready (comm c2)" "subscribed (comm c2) = subscribed (comm c)"
    "pending (comm c2) = pending (comm c)"
    "published (comm c2) = published (comm c) @ map (message_of Y c i new) ?ks" "enabled (timestamps c2)"
    "timer_names (timestamps c2) = insert (update_timer i) (timer_names (timestamps c)) \<union>
       timer_of c i new ` set ?ks" using locs1 by auto
  have b2: "book c2 = book c" using c2(2) b1 by simp
  have "\<forall>k \<in> set ?ks. reply_topic c i k \<in> subscribed (comm c2) \<and> success_front Y (p k) \<and>
      timer_of c i new k \<in> timer_names (timestamps c2)" using mail'(2) c2(5,9) by auto
  note mail2 = this trans [OF c2(6) mail'(3)]
  from awaits_ok [OF sr b2 c2(3,4) mail2]
  obtain r c3 where c3: "for_each (await_swap Y i new) [0..<length new] (new_result_container, c2) = Inr (r, c3)"
    "book c3 = book c" "\<forall>q. get2 (vm_locations c3) q =
       get2 (vm_locations c) (origin (id_to_config c ! i) new [0..<length new] q)"
    "published (comm c3) = published (comm c2)" "pending (comm c3) = rest"
    "enabled (timestamps c3) = enabled (timestamps c2)"
    "timer_names (timestamps c3) = timer_names (timestamps c2)" by auto
  note f3 = book_fields [OF c3(2)] and run3 = is_running_cong [OF book_fields(8) [OF c3(2)]]
  have "wf c3" "is_running c3 i" "movable (id_to_config c3 ! i) new"
    "\<forall>p \<in> set new. in2 (machine_usage c3) p"
    using sr' book_wf [OF c3(2)] f3(2,3) run3 by simp_all
  from base_update_onward [OF this] obtain c4 where
    c4: "base_update_config i new c3 = Inr c4" "wf c4" "is_running c4 = is_running c3"
    "id_to_config c4 ! i = new" "\<forall>j. is_running c3 j \<longrightarrow>
       id_to_config c4 ! j = map (onward (id_to_config c3 ! i) new [0..<length new]) (id_to_config c3 ! j)"
    and "\<exists>u cfgs. c4 = c3\<lparr>machine_usage := u, id_to_config := cfgs\<rparr>" by blast
  then have more4: "timestamps c4 = timestamps c3" "comm c4 = comm c3" "vm_locations c4 = vm_locations c3"
    by auto
  have "update_timer i \<in> timer_names (timestamps c4)" using c3(7) c2(9) more4 by simp
  with tock_timestamp_total [of c4 "update_timer i"] obtain c5 where
    c5: "tock_timestamp (update_timer i) c4 = Inr c5" by blast
  have locs5: "vm_locations c5 = vm_locations c4"
    using c5 by (auto simp: tock_timestamp_def read_clock_def)
  note b5 = book_tock [OF c5]
  have len: "i < length (id_to_config c)" "length (id_to_config c ! i) = length new"
    using occupied_running(1) [OF wf_occupied, of c i] sr' by (auto simp: movable_def)
  have "vm_update_config Y i new c = Inr c5"
    using c1(1) c2(1) c3(1) c4(1) c5 same(5) len
    by (simp add: vm_update_config_def vec_at_in)
  moreover have "wf c5" "is_running c5 = is_running c"
    using c4(2,3) run3 book_wf [OF b5] is_running_cong [OF book_fields(8) [OF b5]] by simp_all
  ultimately show ?thesis
    using c3(3-5) c4(4,5) c2(7) book_fields(3) [OF b5] tock_comm [OF c5] locs5 more4 run3 f3(3)
    by (intro exI [of _ c5]) (simp del: split_paired_All)
qed

text \<open>
  C6: moving a job to other machines with the controller for virtual machines returns, with the
  requests sent to the source hosts in order; the job has the new slots, and it and every other
  running job still run in the same virtual machines, entry by entry of their configurations.
\<close>

theorem vm_update_keeps_machines:
  assumes "swap_ready c i new" and "swap_mail Y c i new p rest" and "swap_timers_free c i new"
  shows "\<exists>c'. vm_update_config Y i new c = Inr c' \<and> wf c' \<and> is_running c' = is_running c \<and>
    id_to_config c' ! i = new \<and>
    (\<forall>j. is_running c j \<longrightarrow> map (get2 (vm_locations c')) (id_to_config c' ! j) =
       map (get2 (vm_locations c)) (id_to_config c ! j)) \<and>
    published (comm c') = published (comm c) @ map (message_of Y c i new) (moves_among c i new [0..<length new])"
proof -
  from vm_update_ok [OF assms] obtain c' where
    c': "vm_update_config Y i new c = Inr c'" "wf c'" "is_running c' = is_running c"
    "id_to_config c' ! i = new" "\<And>j. is_running c j \<Longrightarrow>
       id_to_config c' ! j = map (onward (id_to_config c ! i) new [0..<length new]) (id_to_config c ! j)"
    "\<And>q. get2 (vm_locations c') q =
       get2 (vm_locations c) (origin (id_to_config c ! i) new [0..<length new] q)"
    "published (comm c') = published (comm c) @ map (message_of Y c i new) (moves_among c i new [0..<length new])"
    by blast
  have "map (get2 (vm_locations c')) (id_to_config c' ! j) =
      map (get2 (vm_locations c)) (id_to_config c ! j)" if "is_running c j" for j
    by (simp add: c'(5) [OF that] c'(6) origin_onward)
  with c' show ?thesis by blast
qed

definition example_vm :: vm_controllerT where
  "example_vm = controllerT.extend example_controller
     \<lparr>slot_path = ''slots'', vm_locations = [[''v1'', ''v2''], [''v3'', ''v4'']],
      vm_pool = [], slot_files = (\<lambda>_. ''''), uuids = show_nat, uuid_count = 0\<rparr>"

lemma extend_fields [simp]:
  "machines (controllerT.extend c m) = machines c" "machine_usage (controllerT.extend c m) = machine_usage c"
  "id_to_config (controllerT.extend c m) = id_to_config c" "id_to_job (controllerT.extend c m) = id_to_job c"
  "system_config (controllerT.extend c m) = system_config c" "comm (controllerT.extend c m) = comm c"
  "cmd_counter (controllerT.extend c m) = cmd_counter c" "timestamps (controllerT.extend c m) = timestamps c"
  "lock_owned (controllerT.extend c m) = lock_owned c" "wakeups (controllerT.extend c m) = wakeups c"
  "done_called (controllerT.extend c m) = done_called c" "thread_pool (controllerT.extend c m) = thread_pool c"
  by (simp_all add: controllerT.defs)

lemma extend_running [simp]: "is_running (controllerT.extend c m) = is_running c"
  by (simp add: is_running_def fun_eq_iff)

lemma extend_wf [simp]: "wf (controllerT.extend c m) = wf c"
proof -
  have "wf (controllerT.extend c m) \<longleftrightarrow> (wf c :: bool)" if "is_running (controllerT.extend c m) = is_running c"
    using that by (simp add: wf_def) (simp add: controllerT.defs)
  then show ?thesis by simp
qed

lemma success_front_example: "success_front example_yaml p"
  by (simp add: success_front_def result_container_from_string_def from_string_def example_yaml_def
      load_list_reply result_of_def front_result_def)

lemma example_vm_fields:
  "vm_locations example_vm = [[''v1'', ''v2''], [''v3'', ''v4'']]" "wf example_vm"
  "is_running example_vm = is_running example_controller" "comm example_vm = comm example_controller"
  "machines example_vm = [''n1'', ''n2'']" "machine_usage example_vm = [[0, 1], [0, size_max]]"
  "id_to_config example_vm = [[(0, 0), (1, 0)], [(0, 1)]]" "system_config example_vm = example_config"
  "timestamps example_vm = timestamps example_controller"
  by (simp_all add: example_vm_def example_wf example_fields) (simp add: controllerT.defs)

lemma example_moves: "moves_among example_vm 1 [(1, 0)] [0..<1] = [0]"
  by (simp add: moves_among_def moved_def example_vm_fields)

lemma example_swap:
  "swap_ready example_vm 1 [(1, 0)]"
  "swap_timers_free example_vm 1 [(1, 0)]"
  "swap_mail example_yaml example_vm 1 [(1, 0)] (\<lambda>_. ''ok'')
     (\<lambda>t. if t = ''fast/migfra/n2/result'' then [''ok''] else [])"
proof -
  show "swap_ready example_vm 1 [(1, 0)]"
    by (auto simp: swap_ready_def example_vm_fields example_running movable_def
        in2_example get2_def size_max_def example_config_def)
  show "swap_timers_free example_vm 1 [(1, 0)]"
    using example_moves by (simp add: swap_timers_free_def timer_of_def update_timer_def swap_timer_def
        example_vm_fields) (simp add: example_controller_def new_time_measurement_def timer_names_def)
  show "swap_mail example_yaml example_vm 1 [(1, 0)] (\<lambda>_. ''ok'')
     (\<lambda>t. if t = ''fast/migfra/n2/result'' then [''ok''] else [])"
    using example_moves by (auto simp: swap_mail_def reply_topic_def swap_replies_def fun_eq_iff
        example_vm_fields success_front_example ready_example pending_example result_topic_def)
qed

theorem vm_update_keeps_machines_witness:
  "\<exists>c'. vm_update_config example_yaml 1 [(1, 0)] example_vm = Inr c' \<and>
     id_to_config c' ! 1 = [(1, 0)] \<and> get2 (vm_locations c') (1, 0) = ''v2'' \<and> length (published (comm c')) = 1"
proof -
  from vm_update_keeps_machines [OF example_swap(1,3,2)] obtain c' where
    c': "vm_update_config example_yaml 1 [(1, 0)] example_vm = Inr c'" "id_to_config c' ! 1 = [(1, 0)]"
    "\<And>j. is_running example_vm j \<Longrightarrow> map (get2 (vm_locations c')) (id_to_config c' ! j) =
       map (get2 (vm_locations example_vm)) (id_to_config example_vm ! j)"
    "published (comm c') = published (comm example_vm) @ map (message_of example_yaml example_vm 1 [(1, 0)])
       (moves_among example_vm 1 [(1, 0)] [0..<length [(1 :: nat, 0 :: nat)]])" by blast
  have "published (comm example_controller) = []" by (simp add: example_controller_def)
  with c'(4) example_moves have "length (published (comm c')) = 1" by (simp add: example_vm_fields)
  moreover have "get2 (vm_locations c') (1, 0) = ''v2''"
    using c'(3) [of 1] c'(2) by (simp add: example_vm_fields example_running get2_def)
  ultimately show ?thesis using c'(1,2) by blast
qed

subsection \<open>Moves that fail\<close>

lemma for_each_idle: "(\<And>x. x \<in> set xs \<Longrightarrow> f x s = Inr s) \<Longrightarrow> for_each f xs s = Inr s"
  by (induction xs) auto

lemma request_swap_stays:
  assumes "i < length (id_to_config c)" and "k < length (id_to_config c ! i)" and "k < length new"
    and "new ! k = id_to_config c ! i ! k"
  shows "request_swap Y i new k c = Inr c"
  using assms by (simp add: request_swap_def at2_in vec_at_in in2_def get2_def split_def)

text \<open>
  C23: a job can only be moved to other machines into slots that other jobs occupy: the owner
  of a free destination slot is looked up in the table of jobs with the id that marks free
  slots, out of its range, before any message is sent for that entry.
\<close>

theorem vm_update_free_slot:
  assumes "wf c" and "is_running c i" and "length new = length (id_to_config c ! i)" and "k < length new"
    and "\<forall>m < k. new ! m = id_to_config c ! i ! m" and "fst (new ! k) \<noteq> fst (id_to_config c ! i ! k)"
    and "in2 (machine_usage c) (new ! k)" and "get2 (machine_usage c) (new ! k) = size_max"
    and "\<forall>p. in2 (machine_usage c) p \<longrightarrow> in2 (vm_locations c) p"
    and "update_timer i \<notin> timer_names (timestamps c)"
  shows "vm_update_config Y i new c = Inl (Undefined_behaviour ''vector index'')"
proof -
  from tick_timestamp_total [OF assms(10)] obtain c1 where c1: "tick_timestamp (update_timer i) c = Inr c1"
    by blast
  note same = book_fields [OF book_tick [OF c1]]
  have locs: "vm_locations c1 = vm_locations c"
    using c1 by (auto simp: tick_timestamp_def read_clock_def)
  note run = occupied_running [OF wf_occupied [OF assms(1)] assms(2)]
  let ?a = "id_to_config c ! i ! k" and ?b = "new ! k"
  have "?a \<in> set (id_to_config c ! i)" using assms(3,4) by simp
  from run(4) [OF this] have a: "in2 (machine_usage c) ?a" .
  have w: "shape 2 (machine_usage c)" "length (machine_usage c) = length (machines c)"
    "length (id_to_job c) = cmd_counter c" "length (id_to_config c) = cmd_counter c"
    "cmd_counter c \<le> size_max" using assms(1) by (simp_all add: wf_def)
  have m: "fst ?a < length (machines c)" "fst ?b < length (machines c)"
    using a assms(7) w(2) by (simp_all add: in2_def)
  have "vec_at (id_to_job c) size_max = Inl (Undefined_behaviour ''vector index'')"
    using w(3,5) by (simp add: vec_at_def)
  moreover have "in2 (vm_locations c) ?a" "in2 (vm_locations c) ?b"
    using assms(9) a assms(7) by (simp_all del: split_paired_All)
  moreover have "in2 (id_to_config c) (i, k)" "get2 (id_to_config c) (i, k) = ?a"
    using assms(3,4) run(1) by (simp_all add: in2_def get2_def)
  ultimately have bad: "request_swap Y i new k c1 = Inl (Undefined_behaviour ''vector index'')"
    using assms(4,6-8) m run(1) w(3,4) same(1-4) locs
    by (simp add: request_swap_def vec_at_in split_def at2_in)
  have "for_each (request_swap Y i new) [0..<k] c1 = Inr c1"
    using assms(3-5) run(1) same(3) by (intro for_each_idle request_swap_stays) auto
  moreover have "[0..<length new] = [0..<k] @ k # [Suc k..<length new]"
    using assms(4) by (metis le_add1 less_imp_add_positive upt_add_eq_append upt_conv_Cons add_0)
  ultimately have "for_each (request_swap Y i new) [0..<length new] c1 =
      Inl (Undefined_behaviour ''vector index'')" using bad by (simp add: for_each_append)
  with c1 same(3) run(1) assms(3) show ?thesis by (simp add: vm_update_config_def vec_at_in)
qed

theorem vm_update_free_slot_witness:
  "vm_update_config example_yaml 1 [(1, 1)] example_vm = Inl (Undefined_behaviour ''vector index'')"
proof -
  have "update_timer 1 \<notin> timer_names (timestamps example_vm)"
    using example_swap(2) by (simp add: swap_timers_free_def Let_def)
  moreover have "\<forall>p. in2 (machine_usage example_vm) p \<longrightarrow> in2 (vm_locations example_vm) p"
    using example_swap(1) by (simp add: swap_ready_def)
  ultimately show ?thesis
    using vm_update_free_slot [of example_vm 1 "[(1, 1)]" 0]
    by (simp add: example_vm_fields example_running in2_def get2_def)
qed

lemma timers_enabled:
  "tick_timestamp n c = Inr c' \<Longrightarrow> enabled (timestamps c') = enabled (timestamps c)"
  "tock_timestamp n c = Inr c' \<Longrightarrow> enabled (timestamps c') = enabled (timestamps c)"
  by (auto simp: tick_timestamp_def tock_timestamp_def read_clock_def tick_def tock_def
      split: if_splits option.splits)

lemma request_swap_enabled:
  "request_swap Y i new idx c = Inr c' \<Longrightarrow> enabled (timestamps c') = enabled (timestamps c)"
  by (auto simp: request_swap_def split: if_splits prod.splits dest: timers_enabled)

lemma await_swap_enabled:
  "await_swap Y i new idx (r, c) = Inr (r', c') \<Longrightarrow> enabled (timestamps c') = enabled (timestamps c)"
  by (auto simp: await_swap_def split: if_splits prod.splits dest: timers_enabled)

text \<open>
  C26: with the timers on, a job is moved at most once: the timer of its first move stays, and
  the next move throws before any message is sent.
\<close>

theorem vm_update_again_throws:
  assumes "enabled (timestamps c)" and "vm_update_config Y i new c = Inr c'"
  shows "vm_update_config Y i new' c' =
    Inl (Exception (''Timer with name '' @ update_timer i @ '' already exists.''))"
proof -
  from assms(2) obtain c1 c2 c3 r c4 where st: "tick_timestamp (update_timer i) c = Inr c1"
    "for_each (request_swap Y i new) [0..<length new] c1 = Inr c2"
    "for_each (await_swap Y i new) [0..<length new] (new_result_container, c2) = Inr (r, c3)"
    "base_update_config i new c3 = Inr c4" "tock_timestamp (update_timer i) c4 = Inr c'"
    by (rule vm_update_phases)
  have "enabled (timestamps c1)" using timers_enabled(1) [OF st(1)] assms(1) by simp
  then have "enabled (timestamps c2)"
    by (rule for_each_invariant [OF st(2), of "\<lambda>d. enabled (timestamps d)"]) (simp add: request_swap_enabled)
  then have "enabled (timestamps (snd (r, c3)))"
    by (intro for_each_invariant [OF st(3), of "\<lambda>d. enabled (timestamps (snd d))"])
      (auto simp: await_swap_enabled)
  then have "enabled (timestamps c4)" using st(4) by (auto simp: base_update_config_def)
  then have "enabled (timestamps c')" "map_of (timers (timestamps c')) (update_timer i) \<noteq> None"
    using st(5)
    by (auto simp: tock_timestamp_def read_clock_def tock_def update_conv' split: if_splits option.splits)
  then show ?thesis by (simp add: vm_update_config_def tick_timestamp_def read_clock_def tick_def)
qed

theorem vm_update_again_throws_witness:
  "\<exists>c'. vm_update_config example_yaml 1 [(1, 0)] example_vm = Inr c' \<and>
     vm_update_config example_yaml 1 [(0, 1)] c' =
       Inl (Exception (''Timer with name update-config-job-#1 already exists.''))"
proof -
  from vm_update_ok [OF example_swap(1,3,2)] obtain c' where
    c': "vm_update_config example_yaml 1 [(1, 0)] example_vm = Inr c'" by blast
  have "enabled (timestamps example_vm)" using example_swap(2) by (simp add: swap_timers_free_def)
  from vm_update_again_throws [OF this c'] c' show ?thesis
    by (simp add: update_timer_def show_nat.simps digit_char_def)
qed

end
