(* ===== verification/Vm_Start.thy ===== *)
theory Vm_Start
  imports Vm_Properties
begin

section \<open>Starting the virtual machines\<close>

text \<open>
  \<open>init\<close> of the controller for virtual machines stops what runs on the hosts and starts one
  machine of the pool for every slot: \<open>vm_locations\<close> gives every slot its own machine, and the
  pool keeps the rest. The pool is a list that is read without a test, so a cluster with more
  slots than the pool has machines leaves the defined behaviour.
\<close>

subsection \<open>The machines of one host\<close>

definition slot_start :: "vm_controllerT \<Rightarrow> nat \<Rightarrow> vm_pool_elemT \<Rightarrow> nat \<Rightarrow> Start" where
  "slot_start c slot vm u = fst (generate_start_task slot vm (c\<lparr>uuid_count := u\<rparr>))"

abbreviation slots_per_machine :: "vm_controllerT \<Rightarrow> nat" where
  "slots_per_machine c \<equiv> length (slots (system_config c))"

text \<open>The state once \<open>s\<close> machines have been taken from the pool.\<close>

definition taken :: "vm_controllerT \<Rightarrow> nat \<Rightarrow> vm_controllerT" where
  "taken c s = c\<lparr>vm_pool := drop s (vm_pool c), uuid_count := uuid_count c + s\<rparr>"

definition host_tasks :: "vm_controllerT \<Rightarrow> nat \<Rightarrow> any_task list" where
  "host_tasks c s = map (\<lambda>k. Start_task (slot_start c k (vm_pool c ! k) (uuid_count c + k))) [0..<s]"

definition host_names :: "vm_controllerT \<Rightarrow> nat \<Rightarrow> string list" where
  "host_names c n = map pool_name (take n (vm_pool c))"

lemma add_vm_step:
  assumes "s < n" and "s < length (vm_pool c)"
  shows "add_vm s ((host_tasks c s, host_names c s @ replicate (n - s) ''''), taken c s) =
    Inr ((host_tasks c (Suc s), host_names c (Suc s) @ replicate (n - Suc s) ''''), taken c (Suc s))"
proof -
  have pool: "drop s (vm_pool c) = vm_pool c ! s # drop (Suc s) (vm_pool c)"
    using assms(2) by (simp add: Cons_nth_drop_Suc)
  have len: "length (host_names c s) = s" using assms(2) by (simp add: host_names_def)
  have rest: "replicate (n - s) '''' = '''' # replicate (n - Suc s) ''''"
    using assms(1) by (metis Suc_diff_Suc replicate_Suc)
  have names: "vec_set (host_names c s @ replicate (n - s) '''') s (pool_name (vm_pool c ! s)) =
      Inr (host_names c (Suc s) @ replicate (n - Suc s) '''')"
    using len assms(2) unfolding rest
    by (simp add: list_update_append) (simp add: host_names_def take_Suc_conv_app_nth)
  show ?thesis
    using names pool
    by (simp add: add_vm_def taken_def generate_start_task_def Let_def host_tasks_def slot_start_def)
qed

lemma add_vm_all:
  assumes "m \<le> n" and "m \<le> length (vm_pool c)"
  shows "for_each add_vm [0..<m] (([], replicate n ''''), c) =
    Inr ((host_tasks c m, host_names c m @ replicate (n - m) ''''), taken c m)"
  using assms
proof (induction m)
  case 0
  then show ?case by (simp add: host_tasks_def host_names_def taken_def)
next
  case (Suc m)
  then show ?case using add_vm_step [of m n c] by (simp add: for_each_append)
qed

definition start_vms_message :: "any_task list \<Rightarrow> yaml" where
  "start_vms_message ts =
     set_key (set_key Null ''task'' (Scalar ''start vm'')) ''vm-configurations'' (encode_seq emit_any ts)"

lemma emit_host_tasks:
  assumes "0 < n"
  shows "emit_task_container (new_task_container\<lparr>tasks := host_tasks c n\<rparr>) =
    Inr (start_vms_message (host_tasks c n))"
proof -
  obtain s ts where "host_tasks c n = Start_task s # ts"
    using assms by (simp add: host_tasks_def upt_rec [of 0 n])
  then show ?thesis
    by (simp add: emit_task_container_def container_type_def new_task_container_def no_value_def
        start_vms_message_def optional_emit_def merge_node_def set_key_def)
qed

lemma start_machine_ok:
  assumes "0 < slots_per_machine c" and "slots_per_machine c \<le> length (vm_pool c)"
    and "ready (comm c)"
  shows "\<exists>m. start_machine Y mach c = Inr ((taken c (slots_per_machine c))
      \<lparr>comm := m, vm_locations := vm_locations c @ [host_names c (slots_per_machine c)]\<rparr>) \<and>
    ready m \<and> subscribed m = subscribed (comm c) \<and> pending m = pending (comm c) \<and>
    published m = published (comm c) @
      [(task_topic mach, to_string Y (start_vms_message (host_tasks c (slots_per_machine c))))]"
proof -
  let ?n = "slots_per_machine c"
  from mb.send_ok [OF assms(3), of "task_topic mach" "to_string Y (start_vms_message (host_tasks c ?n))"]
  obtain m where m: "send_message (to_string Y (start_vms_message (host_tasks c ?n))) (task_topic mach)
      (comm c) = Inr m" "ready m" "subscribed m = subscribed (comm c)" "pending m = pending (comm c)"
    "published m = published (comm c) @
      [(task_topic mach, to_string Y (start_vms_message (host_tasks c ?n)))]"
    by (auto simp: task_topic_def)
  have "comm (taken c ?n) = comm c" "vm_locations (taken c ?n) = vm_locations c"
    by (simp_all add: taken_def)
  with m add_vm_all [of ?n ?n c] assms(2) emit_host_tasks [OF assms(1), of c] show ?thesis
    by (intro exI [of _ m]) (simp add: start_machine_def task_container_to_string_def Let_def)
qed

lemma start_machine_exhausted:
  assumes "length (vm_pool c) < slots_per_machine c"
  shows "start_machine Y mach c = Inl (Undefined_behaviour ''front of an empty list'')"
proof -
  let ?n = "slots_per_machine c" and ?m = "length (vm_pool c)"
  have "[0..<?n] = [0..<?m] @ ?m # [Suc ?m..<?n]"
    using assms by (metis le_add1 less_imp_add_positive upt_add_eq_append upt_conv_Cons add_0)
  moreover have "vm_pool (taken c ?m) = []" by (simp add: taken_def)
  ultimately show ?thesis
    using add_vm_all [of ?m ?n c] assms
    by (simp add: start_machine_def Let_def for_each_append add_vm_def)
qed

subsection \<open>All hosts\<close>

text \<open>The machines and the tasks of host \<open>k\<close>, when every host takes \<open>n\<close> from the pool.\<close>

definition names_of :: "vm_controllerT \<Rightarrow> nat \<Rightarrow> nat \<Rightarrow> string list" where
  "names_of c n k = host_names (taken c (k * n)) n"

definition start_of :: "yaml_lib \<Rightarrow> vm_controllerT \<Rightarrow> nat \<Rightarrow> string list \<Rightarrow> nat \<Rightarrow> string \<times> string" where
  "start_of Y c n ms k =
     (task_topic (ms ! k), to_string Y (start_vms_message (host_tasks (taken c (k * n)) n)))"

definition started :: "yaml_lib \<Rightarrow> vm_controllerT \<Rightarrow> string list \<Rightarrow> nat \<Rightarrow> vm_controllerT \<Rightarrow> bool" where
  "started Y c ms k d \<longleftrightarrow>
     (let n = slots_per_machine c in
      d = (taken c (k * n))\<lparr>comm := comm d, vm_locations := vm_locations c @ map (names_of c n) [0..<k]\<rparr> \<and>
      ready (comm d) \<and> subscribed (comm d) = subscribed (comm c) \<and> pending (comm d) = pending (comm c) \<and>
      published (comm d) = published (comm c) @ map (start_of Y c n ms) [0..<k])"

lemma taken_parts:
  "taken (d\<lparr>comm := m, vm_locations := l\<rparr>) s = (taken d s)\<lparr>comm := m, vm_locations := l\<rparr>"
  "host_names (d\<lparr>comm := m, vm_locations := l\<rparr>) s = host_names d s"
  "host_tasks (d\<lparr>comm := m, vm_locations := l\<rparr>) s = host_tasks d s"
  "taken (taken d s) t = taken d (s + t)" "system_config (taken d s) = system_config d"
  "vm_pool (taken d s) = drop s (vm_pool d)" "vm_locations (taken d s) = vm_locations d"
  by (simp_all add: taken_def host_names_def host_tasks_def slot_start_def generate_start_task_def
      Let_def add.commute)

lemma start_all_ok:
  assumes "0 < slots_per_machine c" and "length ms * slots_per_machine c \<le> length (vm_pool c)"
    and "ready (comm c)"
  shows "\<exists>d. for_each (start_machine Y) ms c = Inr d \<and> started Y c ms (length ms) d"
proof (rule for_each_total [where I = "\<lambda>pre. started Y c ms (length pre)"])
  show "started Y c ms (length []) c" using assms(3) by (simp add: started_def taken_def Let_def)
next
  fix pre mach post d
  assume split: "ms = pre @ mach # post" and I: "started Y c ms (length pre) d"
  let ?n = "slots_per_machine c" and ?k = "length pre"
  from I obtain m where d: "d = (taken c (?k * ?n))\<lparr>comm := m, vm_locations := vm_locations c @
      map (names_of c ?n) [0..<?k]\<rparr>" by (auto simp: started_def Let_def)
  have m: "ready m" "subscribed m = subscribed (comm c)" "pending m = pending (comm c)"
    "published m = published (comm c) @ map (start_of Y c ?n ms) [0..<?k]"
    using I unfolding started_def Let_def by (simp_all add: d)
  have n: "slots_per_machine d = ?n" "comm d = m" by (simp_all add: d taken_parts)
  have "?k * ?n + ?n \<le> length ms * ?n" using split by simp
  then have "?n \<le> length (vm_pool d)" using assms(2) by (simp add: d taken_parts)
  with start_machine_ok [of d Y mach] assms(1) m(1) n obtain m' where
    step: "start_machine Y mach d = Inr ((taken d ?n)\<lparr>comm := m', vm_locations := vm_locations d @ [host_names d ?n]\<rparr>)"
    "ready m'" "subscribed m' = subscribed m" "pending m' = pending m"
    "published m' = published m @ [(task_topic mach, to_string Y (start_vms_message (host_tasks d ?n)))]"
    by auto
  have "ms ! ?k = mach" using split by simp
  then have "started Y c ms (Suc ?k) ((taken d ?n)\<lparr>comm := m', vm_locations := vm_locations d @ [host_names d ?n]\<rparr>)"
    using step(2-5) m
    by (simp add: started_def Let_def d taken_parts names_of_def start_of_def add.commute)
  with step(1) show "\<exists>d'. start_machine Y mach d = Inr d' \<and> started Y c ms (length (pre @ [mach])) d'"
    by auto
qed

text \<open>Without enough machines in the pool the list is read while it is empty.\<close>

lemma start_all_exhausted:
  assumes "length (vm_pool c) < length ms * slots_per_machine c" and "ready (comm c)"
  shows "for_each (start_machine Y) ms c = Inl (Undefined_behaviour ''front of an empty list'')"
proof -
  let ?n = "slots_per_machine c"
  let ?k = "length (vm_pool c) div ?n"
  have n: "0 < ?n" using assms(1) by (cases "?n") auto
  have k: "?k < length ms" using assms(1) n by (simp add: less_mult_imp_div_less)
  have "?k * ?n \<le> length (vm_pool c)" by simp
  with start_all_ok [of c "take ?k ms" Y] n k assms(2) obtain d where
    d: "for_each (start_machine Y) (take ?k ms) c = Inr d" "started Y c (take ?k ms) ?k d" by auto
  from d(2) obtain m l where "d = (taken c (?k * ?n))\<lparr>comm := m, vm_locations := l\<rparr>"
    by (auto simp: started_def Let_def)
  moreover have "length (vm_pool c) - ?k * ?n < ?n"
    using n by (simp add: minus_div_mult_eq_mod)
  ultimately have "length (vm_pool d) < slots_per_machine d" by (simp add: taken_parts)
  from start_machine_exhausted [OF this]
  have "for_each (start_machine Y) (drop ?k ms) d = Inl (Undefined_behaviour ''front of an empty list'')"
    using k by (simp add: Cons_nth_drop_Suc [symmetric])
  with d(1) have "for_each (start_machine Y) (take ?k ms @ drop ?k ms) c =
      Inl (Undefined_behaviour ''front of an empty list'')" by (simp only: for_each_append) simp
  then show ?thesis by simp
qed

subsection \<open>The replies of all hosts\<close>

lemma await_all_ok:
  assumes "mail_ready Y ms [0..<length ms] cm rest"
  shows "\<exists>r m. for_each (await_machine Y) ms (new_result_container, cm) = Inr (r, m) \<and> ready m \<and>
    subscribed m = subscribed cm \<and> published m = published cm \<and> pending m = rest"
proof -
  note mail = assms [unfolded mail_ready_def]
  from mail have dist: "distinct ms" and rd: "ready cm" by blast+
  have here: "result_topic mach \<in> subscribed cm \<and> (\<exists>p. success_reply Y p \<and>
      pending cm (result_topic mach) = p # rest (result_topic mach))" if "mach \<in> set ms" for mach
  proof -
    from that obtain k where "k \<in> set [0..<length ms]" "mach = ms ! k" by (auto simp: in_set_conv_nth)
    with mail show ?thesis by blast
  qed
  have "(\<lambda>k. result_topic (ms ! k)) ` set [0..<length ms] = result_topic ` set ms"
    by (simp add: set_conv_nth image_image atLeast0LessThan setcompr_eq_image lessThan_def)
  with mail have other: "\<And>t. t \<notin> result_topic ` set ms \<Longrightarrow> pending cm t = rest t" by metis
  define I where "I pre st \<longleftrightarrow> ready (snd st) \<and> subscribed (snd st) = subscribed cm \<and>
      published (snd st) = published cm \<and>
      pending (snd st) = (\<lambda>t. if t \<in> result_topic ` set pre then rest t else pending cm t)"
    for pre and st :: "Result_container \<times> mqtt"
  have "\<exists>st. for_each (await_machine Y) ms (new_result_container, cm) = Inr st \<and> I ms st"
  proof (rule for_each_total)
    show "I [] (new_result_container, cm)" using rd by (simp add: I_def)
  next
    fix pre mach post st
    assume split: "ms = pre @ mach # post" and I: "I pre st"
    obtain r m where st: "st = (r, m)" by (cases st)
    from here [of mach] split obtain p where p: "success_reply Y p" "result_topic mach \<in> subscribed cm"
      "pending cm (result_topic mach) = p # rest (result_topic mach)" by auto
    from dist split have new: "mach \<notin> set pre" by auto
    from I st new p have "pending m (result_topic mach) = p # rest (result_topic mach)" by (auto simp: I_def)
    with mb.recv_ok [of m "result_topic mach"] I st p(2) obtain m' where
      m': "get_message (result_topic mach) m = Inr (p, m')" "ready m'" "subscribed m' = subscribed cm"
      "published m' = published cm" "pending m' = (pending m)(result_topic mach := rest (result_topic mach))"
      by (auto simp: I_def)
    from p(1) obtain q where "result_container_from_string Y r p = Inr q"
      "all_success (results q) = Inr ()" unfolding success_reply_def by blast
    with m' I st show "\<exists>st'. await_machine Y mach st = Inr st' \<and> I (pre @ [mach]) st'"
      by (auto simp: await_machine_def I_def fun_eq_iff)
  qed
  then obtain r m where "for_each (await_machine Y) ms (new_result_container, cm) = Inr (r, m)" "I ms (r, m)"
    by auto
  with other show ?thesis by (auto simp: I_def fun_eq_iff)
qed

subsection \<open>Stopping and starting everything\<close>

definition stop_all_message :: yaml where
  "stop_all_message = set_key (set_key Null ''task'' (Scalar ''stop vm''))
     ''list'' (Seq [emit_stop stop_all_task])"

lemma emit_stop_all:
  "emit_task_container (new_task_container\<lparr>tasks := [Stop_task stop_all_task]\<rparr>) = Inr stop_all_message"
  by (simp add: emit_task_container_def container_type_def new_task_container_def no_value_def
      stop_all_message_def encode_seq_def optional_emit_def merge_node_def set_key_def)

lemma stop_all_ok:
  assumes "mail_ready Y (machines c) [0..<length (machines c)] (comm c) rest"
  shows "\<exists>m. stop_all_VMs Y c = Inr (c\<lparr>comm := m\<rparr>) \<and> ready m \<and> subscribed m = subscribed (comm c) \<and>
    pending m = rest \<and> published m = published (comm c) @
      map (\<lambda>mach. (task_topic mach, to_string Y stop_all_message)) (machines c)"
proof -
  have "ready (comm c)" using assms by (simp add: mail_ready_def)
  from mb.send_each [OF this, of "machines c" task_topic "\<lambda>_. to_string Y stop_all_message"]
  obtain m1 where m1: "for_each (stop_machine Y) (machines c) (comm c) = Inr m1" "ready m1"
    "subscribed m1 = subscribed (comm c)" "pending m1 = pending (comm c)"
    "published m1 = published (comm c) @ map (\<lambda>mach. (task_topic mach, to_string Y stop_all_message)) (machines c)"
    by (auto simp: task_topic_def stop_machine_def [abs_def] task_container_to_string_def emit_stop_all)
  have "mail_ready Y (machines c) [0..<length (machines c)] m1 rest"
    using assms m1 by (simp add: mail_ready_def)
  from await_all_ok [OF this] m1 show ?thesis
    by (auto simp: stop_all_VMs_def await_machines_def)
qed

text \<open>Every host answers twice, then the mail is \<open>rest\<close>.\<close>

definition two_replies :: "yaml_lib \<Rightarrow> vm_controllerT \<Rightarrow> (string \<Rightarrow> string list) \<Rightarrow> bool" where
  "two_replies Y c rest \<longleftrightarrow> (\<exists>mid. mail_ready Y (machines c) [0..<length (machines c)] (comm c) mid \<and>
     (\<forall>mach \<in> set (machines c). \<exists>p. success_reply Y p \<and>
        mid (result_topic mach) = p # rest (result_topic mach)) \<and>
     (\<forall>t. t \<notin> result_topic ` set (machines c) \<longrightarrow> mid t = rest t))"

lemma mail_ready_all:
  assumes "mail_ready Y ms [0..<length ms] cm mid" and "ready m" and "subscribed m = subscribed cm"
    and "pending m = mid" and "\<forall>mach \<in> set ms. \<exists>p. success_reply Y p \<and>
        mid (result_topic mach) = p # rest (result_topic mach)"
    and "\<forall>t. t \<notin> result_topic ` set ms \<longrightarrow> mid t = rest t"
  shows "mail_ready Y ms [0..<length ms] m rest"
proof -
  have "(\<lambda>k. result_topic (ms ! k)) ` set [0..<length ms] = result_topic ` set ms"
    by (simp add: set_conv_nth image_image atLeast0LessThan setcompr_eq_image lessThan_def)
  with assms show ?thesis unfolding mail_ready_def by auto
qed

lemma vm_init_ok:
  assumes "0 < slots_per_machine c"
    and "length (machines c) * slots_per_machine c \<le> length (vm_pool c)" and "two_replies Y c rest"
  shows "\<exists>m. vm_init Y c = Inr ((taken c (length (machines c) * slots_per_machine c))
      \<lparr>comm := m, vm_locations := vm_locations c @
         map (names_of c (slots_per_machine c)) [0..<length (machines c)]\<rparr>) \<and>
    ready m \<and> subscribed m = subscribed (comm c) \<and> pending m = rest \<and>
    published m = published (comm c) @
      map (\<lambda>mach. (task_topic mach, to_string Y stop_all_message)) (machines c) @
      map (start_of Y c (slots_per_machine c) (machines c)) [0..<length (machines c)]"
proof -
  let ?ms = "machines c" and ?n = "slots_per_machine c"
  from assms(3) obtain mid where mid: "mail_ready Y ?ms [0..<length ?ms] (comm c) mid"
    "\<forall>mach \<in> set ?ms. \<exists>p. success_reply Y p \<and> mid (result_topic mach) = p # rest (result_topic mach)"
    "\<forall>t. t \<notin> result_topic ` set ?ms \<longrightarrow> mid t = rest t"
    unfolding two_replies_def by blast
  from stop_all_ok [OF mid(1)] obtain m1 where m1: "stop_all_VMs Y c = Inr (c\<lparr>comm := m1\<rparr>)" "ready m1"
    "subscribed m1 = subscribed (comm c)" "pending m1 = mid"
    "published m1 = published (comm c) @ map (\<lambda>mach. (task_topic mach, to_string Y stop_all_message)) ?ms"
    by blast
  let ?c = "c\<lparr>comm := m1\<rparr>"
  have parts: "taken ?c s = (taken c s)\<lparr>comm := m1\<rparr>" "names_of ?c n = names_of c n"
    "start_of Y ?c n ?ms = start_of Y c n ?ms" for s n
    by (simp_all add: taken_def names_of_def start_of_def fun_eq_iff host_names_def host_tasks_def
        slot_start_def generate_start_task_def Let_def)
  from start_all_ok [of ?c ?ms Y] assms(1,2) m1(2) obtain d where
    d: "for_each (start_machine Y) ?ms ?c = Inr d" "started Y ?c ?ms (length ?ms) d" by auto
  from d(2) obtain m2 where m2: "d = (taken c (length ?ms * ?n))\<lparr>comm := m2, vm_locations :=
      vm_locations c @ map (names_of c ?n) [0..<length ?ms]\<rparr>"
    "ready m2" "subscribed m2 = subscribed m1" "pending m2 = mid"
    "published m2 = published m1 @ map (start_of Y c ?n ?ms) [0..<length ?ms]"
    using m1(4) by (auto simp: started_def Let_def parts)
  have dm: "machines d = ?ms" "comm d = m2" by (simp_all add: m2(1) taken_def)
  have "mail_ready Y ?ms [0..<length ?ms] m2 rest"
    using mail_ready_all [OF mid(1) m2(2) _ m2(4) mid(2,3)] m2(3) m1(3) by simp
  from await_all_ok [OF this] obtain r m3 where m3: "for_each (await_machine Y) ?ms
      (new_result_container, m2) = Inr (r, m3)" "ready m3" "subscribed m3 = subscribed m2"
    "published m3 = published m2" "pending m3 = rest" by blast
  have "vm_init Y c = Inr (d\<lparr>comm := m3\<rparr>)"
    using m1(1) d(1) dm m3(1) by (simp add: vm_init_def start_all_VMs_def await_machines_def)
  moreover have "d\<lparr>comm := m3\<rparr> = (taken c (length ?ms * ?n))\<lparr>comm := m3, vm_locations :=
      vm_locations c @ map (names_of c ?n) [0..<length ?ms]\<rparr>" by (simp add: m2(1))
  ultimately show ?thesis using m3 m2 m1 by (intro exI [of _ m3]) simp
qed

lemma concat_names:
  assumes "k * n \<le> length (vm_pool c)"
  shows "concat (map (names_of c n) [0..<k]) = map pool_name (take (k * n) (vm_pool c))"
  using assms
proof (induction k)
  case 0
  then show ?case by simp
next
  case (Suc k)
  have "take (k * n) (vm_pool c) @ take n (drop (k * n) (vm_pool c)) = take (k * n + n) (vm_pool c)"
    by (simp add: take_add)
  then have "map pool_name (take (k * n + n) (vm_pool c)) =
      map pool_name (take (k * n) (vm_pool c)) @ map pool_name (take n (drop (k * n) (vm_pool c)))"
    by (metis map_append)
  with Suc show ?case
    by (simp add: names_of_def host_names_def taken_parts add.commute)
qed

lemma length_names: "k * n + n \<le> length (vm_pool c) \<Longrightarrow> length (names_of c n k) = n"
  by (simp add: names_of_def host_names_def taken_parts)

text \<open>
  C9: \<open>init\<close> of the controller for virtual machines returns and gives every slot its own virtual
  machine: the rows of \<open>vm_locations\<close>, one of the length of the slots per host, are the first
  machines of the pool in order, no machine twice, and the pool keeps the others. Every host is
  sent one message that stops everything, then one that starts its machines; the tables of the
  base class stay.
\<close>

theorem vm_init_own_machines:
  assumes "0 < slots_per_machine c" and "vm_locations c = []" and "two_replies Y c rest"
    and "length (machines c) * slots_per_machine c \<le> length (vm_pool c)"
    and "distinct (map pool_name (vm_pool c))"
  shows "\<exists>c'. vm_init Y c = Inr c' \<and> book c' = book c \<and>
    map length (vm_locations c') = replicate (length (machines c)) (slots_per_machine c) \<and>
    concat (vm_locations c') =
      map pool_name (take (length (machines c) * slots_per_machine c) (vm_pool c)) \<and>
    distinct (concat (vm_locations c')) \<and>
    vm_pool c' = drop (length (machines c) * slots_per_machine c) (vm_pool c) \<and>
    published (comm c') = published (comm c) @
      map (\<lambda>mach. (task_topic mach, to_string Y stop_all_message)) (machines c) @
      map (start_of Y c (slots_per_machine c) (machines c)) [0..<length (machines c)]"
proof -
  let ?n = "slots_per_machine c" and ?k = "length (machines c)"
  from vm_init_ok [OF assms(1,4,3)] obtain m where m:
    "vm_init Y c = Inr ((taken c (?k * ?n))\<lparr>comm := m, vm_locations := map (names_of c ?n) [0..<?k]\<rparr>)"
    "published m = published (comm c) @ map (\<lambda>mach. (task_topic mach, to_string Y stop_all_message)) (machines c) @
      map (start_of Y c ?n (machines c)) [0..<?k]" using assms(2) by auto
  have "length (names_of c ?n k) = ?n" if "k < ?k" for k
  proof -
    have "Suc k * ?n \<le> ?k * ?n" using that by (intro mult_le_mono1) simp
    with assms(4) show ?thesis by (intro length_names) simp
  qed
  then have "map length (map (names_of c ?n) [0..<?k]) = replicate ?k ?n"
    by (intro replicate_eqI) auto
  moreover have "distinct (map pool_name (take (?k * ?n) (vm_pool c)))"
    using assms(5) by (simp add: take_map [symmetric])
  ultimately show ?thesis
    using m concat_names [OF assms(4)]
    by (intro exI [of _ "(taken c (?k * ?n))\<lparr>comm := m, vm_locations := map (names_of c ?n) [0..<?k]\<rparr>"])
      (simp add: taken_def book_def)
qed

text \<open>The names of the pool are numbered.\<close>

lemma glob_pool_names: "map pool_name glob_vm_pool = map (\<lambda>i. ''parastation-'' @ show_nat (Suc i)) [0..<80]"
  by code_simp

lemma glob_pool_distinct: "distinct (map pool_name glob_vm_pool)"
  unfolding glob_pool_names by (simp add: distinct_map inj_on_def del: upt_Suc)

lemma glob_pool_size: "length glob_vm_pool = 80"
  by (simp add: glob_vm_pool_def)

text \<open>Two hosts with two slots each, both answer twice.\<close>

definition example_hosts :: vm_controllerT where
  "example_hosts = example_vm\<lparr>vm_locations := [], vm_pool := glob_vm_pool,
     comm := (comm example_controller)\<lparr>incoming :=
       [Ev_message ''fast/migfra/n1/result'' ''ok'', Ev_message ''fast/migfra/n2/result'' ''ok'',
        Ev_message ''fast/migfra/n1/result'' ''ok'', Ev_message ''fast/migfra/n2/result'' ''ok'']\<rparr>\<rparr>"

lemma example_hosts_fields:
  "vm_locations example_hosts = []" "vm_pool example_hosts = glob_vm_pool"
  "machines example_hosts = [''n1'', ''n2'']" "system_config example_hosts = example_config"
  "published (comm example_hosts) = []" "ready (comm example_hosts)"
  using ready_example
  by (simp_all add: example_hosts_def example_vm_fields)
    (simp_all add: example_controller_def ready_def in_service_def no_disconnect_def)

lemma example_hosts_mail:
  "subscribed (comm example_hosts) = {''fast/migfra/n1/result'', ''fast/migfra/n2/result''}"
  "pending (comm example_hosts) t =
     (if t \<in> {''fast/migfra/n1/result'', ''fast/migfra/n2/result''} then [''ok'', ''ok''] else [])"
proof -
  show s: "subscribed (comm example_hosts) = {''fast/migfra/n1/result'', ''fast/migfra/n2/result''}"
    using pending_example(2) by (simp add: example_hosts_def subscribed_def)
  show "pending (comm example_hosts) t =
     (if t \<in> {''fast/migfra/n1/result'', ''fast/migfra/n2/result''} then [''ok'', ''ok''] else [])"
    unfolding pending_def s by (auto simp: example_hosts_def example_controller_def queue_of_def)
qed

lemma example_hosts_once:
  "mail_ready example_yaml (machines example_hosts) [0..<length (machines example_hosts)]
     (comm example_hosts) (\<lambda>t. if t \<in> {''fast/migfra/n1/result'', ''fast/migfra/n2/result''} then [''ok''] else [])"
  using example_hosts_fields(6)
  by (auto simp: mail_ready_def example_hosts_fields example_hosts_mail success_reply_example
      result_topic_def less_Suc_eq)

lemma example_hosts_twice: "two_replies example_yaml example_hosts (\<lambda>_. [])"
  unfolding two_replies_def
  using example_hosts_once success_reply_example
  by (intro exI conjI) (auto simp: example_hosts_fields result_topic_def)

theorem vm_init_own_machines_witness:
  "\<exists>c'. vm_init example_yaml example_hosts = Inr c' \<and>
     concat (vm_locations c') = [''parastation-1'', ''parastation-2'', ''parastation-3'', ''parastation-4''] \<and>
     map length (vm_locations c') = [2, 2]"
proof -
  have n: "slots_per_machine example_hosts = 2" "length (machines example_hosts) = 2"
    by (simp_all add: example_hosts_fields example_fields)
  have four: "map pool_name (take 4 glob_vm_pool) =
      [''parastation-1'', ''parastation-2'', ''parastation-3'', ''parastation-4'']"
    by (simp add: glob_vm_pool_def pool_elem_def)
  have "distinct (map pool_name (vm_pool example_hosts))"
    "length (machines example_hosts) * slots_per_machine example_hosts \<le> length (vm_pool example_hosts)"
    using n glob_pool_distinct glob_pool_size by (simp_all add: example_hosts_fields)
  with vm_init_own_machines [of example_hosts example_yaml] example_hosts_twice n
  obtain c' where "vm_init example_yaml example_hosts = Inr c'"
    "map length (vm_locations c') = replicate 2 2"
    "concat (vm_locations c') = map pool_name (take 4 (vm_pool example_hosts))"
    by (auto simp: example_hosts_fields(1))
  with four show ?thesis by (simp add: example_hosts_fields numeral_2_eq_2)
qed

text \<open>
  C27: with more slots than the pool has machines, \<open>init\<close> stops everything and then takes the
  front of the empty list, whatever the hosts are.
\<close>

theorem vm_init_pool_exhausted:
  assumes "length (vm_pool c) < length (machines c) * slots_per_machine c"
    and "mail_ready Y (machines c) [0..<length (machines c)] (comm c) rest"
  shows "vm_init Y c = Inl (Undefined_behaviour ''front of an empty list'')"
proof -
  from stop_all_ok [OF assms(2)] obtain m where
    m: "stop_all_VMs Y c = Inr (c\<lparr>comm := m\<rparr>)" "ready m" by blast
  with start_all_exhausted [of "c\<lparr>comm := m\<rparr>" "machines c" Y] assms(1) show ?thesis
    by (simp add: vm_init_def start_all_VMs_def)
qed

theorem vm_init_pool_exhausted_witness:
  "vm_init example_yaml (example_hosts\<lparr>vm_pool := take 3 glob_vm_pool\<rparr>) =
     Inl (Undefined_behaviour ''front of an empty list'')"
  by (rule vm_init_pool_exhausted [where rest =
        "\<lambda>t. if t \<in> {''fast/migfra/n1/result'', ''fast/migfra/n2/result''} then [''ok''] else []"])
    (use example_hosts_once in \<open>simp_all add: example_hosts_fields example_fields glob_pool_size\<close>)

end
