(* ===== verification/Controller_Refinement.thy ===== *)
theory Controller_Refinement
  imports Vm_Start
begin

section \<open>The controllers refine the allocation\<close>

text \<open>
  The life of a controller as a step relation: the operations a scheduler calls on it, and the
  ends of jobs. Each step is a run of the abstract allocation, so however the operations are
  interleaved, no slot ever has two jobs. Further, \<open>done\<close> returns, and only when all is free.
\<close>

inductive controller_step ::
  "yaml_lib \<Rightarrow> 'z controllerT_scheme virtuals \<Rightarrow> (nat \<Rightarrow> 'z controllerT_scheme \<Rightarrow> 's \<Rightarrow> 's result) \<Rightarrow>
     'z controllerT_scheme \<times> 's \<Rightarrow> 'z controllerT_scheme \<times> 's \<Rightarrow> bool"
  for Y :: yaml_lib and V :: "'z controllerT_scheme virtuals"
    and callback :: "nat \<Rightarrow> 'z controllerT_scheme \<Rightarrow> 's \<Rightarrow> 's result"
where
  Start: "cmd_counter c < size_max \<Longrightarrow> execute V job cfg c = Inr (i, c') \<Longrightarrow>
    controller_step Y V callback (c, s) (c', s)"
| Finish: "run_thread V callback t st = Inr st' \<Longrightarrow> controller_step Y V callback st st'"
| Move: "is_running c i \<Longrightarrow> update_config V i cfg c = Inr c' \<Longrightarrow>
    controller_step Y V callback (c, s) (c', s)"
| Freeze: "freeze Y V i c = Inr c' \<Longrightarrow> controller_step Y V callback (c, s) (c', s)"
| Thaw: "thaw Y V i c = Inr c' \<Longrightarrow> controller_step Y V callback (c, s) (c', s)"
| Freeze_opposing: "freeze_opposing Y V i c = Inr c' \<Longrightarrow> controller_step Y V callback (c, s) (c', s)"
| Thaw_opposing: "thaw_opposing Y V i c = Inr c' \<Longrightarrow> controller_step Y V callback (c, s) (c', s)"
| Wait: "wait_until V callback pred st = Inr st' \<Longrightarrow> controller_step Y V callback st st'"

abbreviation controller_run where
  "controller_run Y V callback \<equiv> (controller_step Y V callback)\<^sup>*\<^sup>*"

context allocating
begin

lemma step_moves:
  "controller_step Y V callback st st' \<Longrightarrow> wf (fst st) \<Longrightarrow> moves (fst st) (fst st')"
proof (induction rule: controller_step.induct)
  case (Start c job cfg i c' s)
  then show ?case using execute_takes(2) by simp
next
  case (Finish t st st')
  then show ?case using run_thread_moves [of "fst st" callback t "snd st" "fst st'" "snd st'"] by simp
next
  case (Move c i cfg c' s)
  then show ?case using update_moves by simp
next
  case (Freeze i c c' s)
  then show ?case using moves_book freeze_book by fastforce
next
  case (Thaw i c c' s)
  then show ?case using moves_book thaw_book by fastforce
next
  case (Freeze_opposing i c c' s)
  then show ?case using moves_book freeze_opposing_book by fastforce
next
  case (Thaw_opposing i c c' s)
  then show ?case using moves_book thaw_opposing_book by fastforce
next
  case (Wait pred st st')
  then show ?case
    using wait_until_steady [of callback pred "fst st" "snd st" "fst st'" "snd st'"] by (simp add: steady_def)
qed

lemma run_moves: "controller_run Y V callback st st' \<Longrightarrow> wf (fst st) \<Longrightarrow> moves (fst st) (fst st')"
proof (induction rule: rtranclp_induct)
  case base
  then show ?case by (simp add: moves_refl)
next
  case (step st1 st2)
  then have "moves (fst st) (fst st1)" by simp
  moreover from this have "wf (fst st1)" by (simp add: moves_def)
  ultimately show ?case using step_moves [OF step(2)] moves_trans by blast
qed

lemma run_exclusive:
  assumes "controller_run Y V callback st st'" and "wf (fst st)"
  shows "exclusive (all_slots (fst st)) (held (fst st'))"
  using wf_exclusive [of "fst st'"] run_moves [OF assms] by (simp add: moves_def)

end

subsection \<open>The refinement\<close>

text \<open>
  C1: whatever a scheduler does with the controller for virtual machines - starting, moving,
  freezing and thawing jobs, waiting, and the ends of jobs in between - is a run of the abstract
  allocation, in which a step takes free slots for a new job, gives a job's slots back or
  exchanges two slots. The tables stay well formed and no slot is ever held by two jobs.
\<close>

theorem vm_run_refines_allocation:
  assumes "controller_run Y (vm_virtuals Y) callback (c, s) (c', s')" and "wf c"
  shows "wf c' \<and> alloc_run (all_slots c) (held c) (held c') \<and> exclusive (all_slots c) (held c')"
  using vma.run_moves [OF assms(1)] vma.run_exclusive [OF assms(1)] assms(2) by (simp add: moves_def)

theorem vm_run_refines_allocation_witness:
  "\<exists>c'. vm_update_config example_yaml 1 [(1, 0)] example_vm = Inr c' \<and>
     alloc_run (all_slots example_vm) (held example_vm) (held c') \<and> held c' 1 = {(1, 0)} \<and> held c' 0 \<inter> held c' 1 = {}"
proof -
  from vm_update_ok [OF example_swap(1,3,2)] obtain c' where
    c': "vm_update_config example_yaml 1 [(1, 0)] example_vm = Inr c'" "id_to_config c' ! 1 = [(1, 0)]"
    "is_running c' = is_running example_vm" by blast
  have run: "is_running example_vm 1" by (simp add: example_vm_fields example_running)
  have "update_config (vm_virtuals example_yaml) 1 [(1, 0)] example_vm = Inr c'"
    using c'(1) by (simp add: vm_virtuals_def)
  from Move [OF run this, of example_yaml "\<lambda>_ _. Inr" "()"]
  have "controller_run example_yaml (vm_virtuals example_yaml) (\<lambda>_ _. Inr) (example_vm, ()) (c', ())"
    by (rule r_into_rtranclp)
  from vm_run_refines_allocation [OF this example_vm_fields(2)]
  have "alloc_run (all_slots example_vm) (held example_vm) (held c')"
    "exclusive (all_slots example_vm) (held c')" by auto
  moreover have "held c' 1 = {(1, 0)}" using c' run by (simp add: held_def alloc_of_def)
  moreover have "held c' 0 \<inter> held c' 1 = {}"
    using calculation(2) unfolding exclusive_def by (meson zero_neq_one)
  ultimately show ?thesis using c'(1) by blast
qed

text \<open>
  C5: with the controller for control groups, too, at every moment of every run two jobs that
  run have no slot in common, and every slot of a running job exists on one of the machines.
\<close>

theorem cgroup_slots_exclusive:
  assumes "controller_run Y (cgroup_virtuals Y order) callback (c, s) (c', s')" and "wf c"
  shows "(\<forall>j k. is_running c' j \<and> is_running c' k \<and> j \<noteq> k \<longrightarrow>
      set (id_to_config c' ! j) \<inter> set (id_to_config c' ! k) = {}) \<and>
    (\<forall>j p. is_running c' j \<and> p \<in> set (id_to_config c' ! j) \<longrightarrow> fst p < length (machines c) \<and> snd p < 2)"
proof (intro conjI allI impI)
  have ex: "exclusive (all_slots c) (held c')" using cga.run_exclusive [OF assms(1)] assms(2) by simp
  have h: "held c' j = set (id_to_config c' ! j)" if "is_running c' j" for j
    using that by (simp add: held_def alloc_of_def)
  show "set (id_to_config c' ! j) \<inter> set (id_to_config c' ! k) = {}"
    if "is_running c' j \<and> is_running c' k \<and> j \<noteq> k" for j k
  proof -
    have "held c' j \<inter> held c' k = {}" using ex that unfolding exclusive_def by blast
    with h that show ?thesis by simp
  qed
  fix j p
  assume j: "is_running c' j \<and> p \<in> set (id_to_config c' ! j)"
  have "held c' j \<subseteq> all_slots c" using ex unfolding exclusive_def by blast
  with j h have "in2 (machine_usage c) p" by (auto simp: all_slots_def)
  moreover have "shape 2 (machine_usage c)" "length (machine_usage c) = length (machines c)"
    using assms(2) by (simp_all add: wf_def)
  ultimately show "fst p < length (machines c)" "snd p < 2"
    using in2_shape [of 2 "machine_usage c" "(fst p, snd p)"] by simp_all
qed

text \<open>
  A run of two steps: a third job starts on the free slot of the second machine, then the second
  job ends. In the state after it the first and the third job run, on the same machine.
\<close>

lemma example_start:
  obtains m cmd fs where
    "execute (cgroup_virtuals example_yaml id) (example_job\<lparr>nprocs := 2\<rparr>) [(1, 1)] example_controller =
      Inr (2, launched (example_job\<lparr>nprocs := 2\<rparr>) [(1, 1)] cmd m fs example_controller)"
    and "mail_ready example_yaml [''n1'', ''n2''] [0] m
      (\<lambda>t. if t = ''fast/migfra/n1/result'' then [] else pending m t)"
proof -
  have "mail_ready example_yaml (machines example_controller) (map fst [(1, 1 :: nat)])
      (comm example_controller) (\<lambda>t. if t = ''fast/migfra/n1/result'' then [''ok''] else [])"
    using success_reply_example ready_example
    by (simp add: mail_ready_def example_fields pending_example result_topic_def)
  from execute_cgroup [OF example_wf example_fields(5) _ _ _ _ _ _ this, of id 2
      "example_job\<lparr>nprocs := 2\<rparr>"] obtain m cmd fs where
    m: "execute (cgroup_virtuals example_yaml id) (example_job\<lparr>nprocs := 2\<rparr>) [(1, 1)] example_controller =
      Inr (2, launched (example_job\<lparr>nprocs := 2\<rparr>) [(1, 1)] cmd m fs example_controller)"
    "ready m" "subscribed m = subscribed (comm example_controller)"
    "\<forall>t \<in> subscribed (comm example_controller).
       pending m t = (if t = ''fast/migfra/n1/result'' then [''ok''] else [])"
    by (auto simp: example_fields in2_def get2_def example_job_def req_cpus_def size_max_def)
  have "mail_ready example_yaml [''n1'', ''n2''] [0] m
      (\<lambda>t. if t = ''fast/migfra/n1/result'' then [] else pending m t)"
    using m(2-4) success_reply_example by (simp add: mail_ready_def pending_example result_topic_def)
  with m(1) show thesis by (rule that)
qed

theorem cgroup_slots_exclusive_witness:
  "\<exists>c1 c'. execute (cgroup_virtuals example_yaml id) (example_job\<lparr>nprocs := 2\<rparr>) [(1, 1)]
       example_controller = Inr (2, c1) \<and>
     run_thread (cgroup_virtuals example_yaml id) (\<lambda>_ _. Inr) 1 (c1, ()) = Inr (c', ()) \<and>
     is_running c' 0 \<and> \<not> is_running c' 1 \<and> is_running c' 2 \<and>
     id_to_config c' ! 0 = [(0, 0), (1, 0)] \<and> id_to_config c' ! 2 = [(1, 1)] \<and>
     set (id_to_config c' ! 0) \<inter> set (id_to_config c' ! 2) = {} \<and>
     (\<forall>p \<in> set (id_to_config c' ! 2). fst p < length (machines example_controller) \<and> snd p < 2)"
proof -
  let ?V = "cgroup_virtuals example_yaml id" and ?cb = "\<lambda>(_ :: nat) (_ :: controllerT). Inr :: unit \<Rightarrow> unit result"
  from example_start obtain m cmd fs where
    ex: "execute ?V (example_job\<lparr>nprocs := 2\<rparr>) [(1, 1)] example_controller =
      Inr (2, launched (example_job\<lparr>nprocs := 2\<rparr>) [(1, 1)] cmd m fs example_controller)" (is "_ = Inr (2, ?c1)")
    and mail: "mail_ready example_yaml [''n1'', ''n2''] [0] m
      (\<lambda>t. if t = ''fast/migfra/n1/result'' then [] else pending m t)" (is "mail_ready _ _ _ _ ?rest") by blast
  have small: "cmd_counter example_controller < size_max" by (simp add: example_fields size_max_def)
  note c1 = cg.execute_started [OF example_wf small ex]
  have "mail_ready example_yaml (machines ?c1) (map fst (id_to_config ?c1 ! 1)) (comm ?c1) ?rest"
    using mail by (simp add: launched_def example_fields)
  moreover have "is_running ?c1 1" using c1(4) example_running by simp
  moreover have "job_timer 1 \<notin> timer_names (timestamps ?c1)" "\<And>cmd. system_call ?c1 cmd \<noteq> -1"
    by (simp_all add: launched_def example_controller_def new_time_measurement_def timer_names_def)
  ultimately obtain c' where c': "run_thread ?V ?cb 1 (?c1, ()) = Inr (c', ())"
    "is_running c' = (\<lambda>j. is_running ?c1 j \<and> j \<noteq> 1)" "id_to_config c' = id_to_config ?c1"
    using worker_ends [OF c1(1), of 1 id example_yaml ?rest ?cb "()" id] by auto
  have "controller_run example_yaml ?V ?cb (example_controller, ()) (c', ())"
    using Start [OF small ex, of example_yaml ?cb "()"] Finish [OF c'(1), of example_yaml]
    by (meson converse_rtranclp_into_rtranclp r_into_rtranclp)
  note safe = cgroup_slots_exclusive [OF this example_wf]
  have run: "is_running c' 0" "\<not> is_running c' 1" "is_running c' 2"
    using c'(2) c1(4) example_running by simp_all
  have "id_to_config c' ! 0 = [(0, 0), (1, 0)]" "id_to_config c' ! 2 = [(1, 1)]"
    using c'(3) by (simp_all add: launched_def example_fields)
  moreover have "set (id_to_config c' ! 0) \<inter> set (id_to_config c' ! 2) = {}"
    using safe run by (meson zero_neq_numeral)
  moreover have "\<forall>p \<in> set (id_to_config c' ! 2). fst p < length (machines example_controller) \<and> snd p < 2"
    using safe run(3) by blast
  ultimately show ?thesis using ex c'(1) run by blast
qed

subsection \<open>Shutting down\<close>

lemma joins_ok:
  assumes "\<forall>t < length (thread_pool c). worker_state (thread_pool c ! t) \<noteq> Running"
    and "n \<le> length (thread_pool c)"
  shows "\<exists>c'. for_each (join_if_joinable V callback) [0..<n] (c, s) = Inr (c', s) \<and>
    length (thread_pool c') = length (thread_pool c) \<and> book (c'\<lparr>thread_pool := []\<rparr>) = book (c\<lparr>thread_pool := []\<rparr>) \<and>
    (\<forall>t < length (thread_pool c). worker_state (thread_pool c' ! t) \<noteq> Running)"
  using assms(2)
proof (induction n)
  case 0
  with assms(1) show ?case by simp
next
  case (Suc n)
  then obtain d where d: "for_each (join_if_joinable V callback) [0..<n] (c, s) = Inr (d, s)"
    "length (thread_pool d) = length (thread_pool c)" "book (d\<lparr>thread_pool := []\<rparr>) = book (c\<lparr>thread_pool := []\<rparr>)"
    "\<forall>t < length (thread_pool c). worker_state (thread_pool d ! t) \<noteq> Running" by auto
  have n: "n < length (thread_pool c)" using Suc.prems by simp
  show ?case
  proof (cases "worker_state (thread_pool d ! n)")
    case Joined
    then have "join_if_joinable V callback n (d, s) = Inr (d, s)" by (simp add: join_if_joinable_def)
    with d show ?thesis by (intro exI [of _ d]) (simp add: for_each_append)
  next
    case Running
    with d(4) n show ?thesis by simp
  next
    case Finished
    let ?d = "set_thread_state n Joined (d\<lparr>wakeups := wakeups d\<rparr>)"
    have "join_if_joinable V callback n (d, s) = Inr (?d, s)"
      using Finished d(2) n by (subst join_if_joinable_def, subst join_loop.simps) simp
    with d n show ?thesis
      by (intro exI [of _ ?d])
        (auto simp: for_each_append set_thread_state_def nth_list_update book_def)
  qed
qed

text \<open>
  C12: when every running job is let finish, the calls of the system return and the scheduler's
  callback returns, \<open>done\<close> of the controller for virtual machines returns; then no job runs and
  every slot is free, and the destructor after it joins all the threads without waiting.
\<close>

theorem vm_shutdown_completes:
  assumes "wf c" and "fresh_timers c" and "\<forall>cmd. system_call c cmd \<noteq> -1" and "callback_returns callback"
    and "length (slots (system_config c)) = 2" and "all_finish c"
  shows "\<exists>c1 c2 s'. controller_done (vm_virtuals Y) callback (c, s) = Inr (c1, s') \<and>
    (\<forall>p. in2 (machine_usage c) p \<longrightarrow> get2 (machine_usage c1) p = size_max) \<and> (\<forall>j. \<not> is_running c1 j) \<and>
    controller_dtor (vm_virtuals Y) callback (c1, s') = Inr (c2, s') \<and> thread_pool c2 = []"
proof -
  from vmc.done_returns [OF assms] obtain c1 s' where
    d: "controller_done (vm_virtuals Y) callback (c, s) = Inr (c1, s')" by blast
  note idle = vmc.done_idle [OF d assms(1,5)]
  have free: "get2 (machine_usage c1) p = size_max" if "in2 (machine_usage c) p" for p
  proof -
    have "in2 (machine_usage c1) p" using idle(1) that by (simp add: later_def del: split_paired_All)
    then show ?thesis by (rule idle(3))
  qed
  have "\<forall>t < length (thread_pool c1). worker_state (thread_pool c1 ! t) \<noteq> Running"
    using idle(4) by (auto simp: is_running_def)
  from joins_ok [OF this le_refl, of "vm_virtuals Y" callback s'] obtain c2 where
    "for_each (join_if_joinable (vm_virtuals Y) callback) [0..<length (thread_pool c1)] (c1, s') = Inr (c2, s')"
    by blast
  then have "controller_dtor (vm_virtuals Y) callback (c1, s') = Inr (c2\<lparr>thread_pool := []\<rparr>, s')"
    using idle(2) by (simp add: controller_dtor_def)
  with d free idle(4) show ?thesis
    by (intro exI [of _ c1] exI [of _ "c2\<lparr>thread_pool := []\<rparr>"] exI [of _ s']) (simp del: split_paired_All)
qed

theorem vm_shutdown_completes_witness:
  "\<exists>c1 c2. controller_done (vm_virtuals example_yaml) (\<lambda>_ _. Inr) (example_vm, ()) = Inr (c1, ()) \<and>
     get2 (machine_usage c1) (0, 0) = size_max \<and>
     controller_dtor (vm_virtuals example_yaml) (\<lambda>_ _. Inr) (c1, ()) = Inr (c2, ()) \<and> thread_pool c2 = []"
proof -
  have parts: "fresh_timers example_vm" "\<forall>cmd. system_call example_vm cmd \<noteq> -1" "all_finish example_vm"
    "length (slots (system_config example_vm)) = 2"
    by (auto simp: fresh_timers_def all_finish_def example_vm_fields example_running example_fields)
      (auto simp: example_vm_def controllerT.defs example_controller_def new_time_measurement_def timer_names_def)
  have "callback_returns (\<lambda>_ (_ :: vm_controllerT). Inr :: unit \<Rightarrow> unit result)"
    by (simp add: callback_returns_def)
  from vm_shutdown_completes [OF example_vm_fields(2) parts(1,2) this parts(4,3), of example_yaml "()"]
  obtain c1 c2 where c: "controller_done (vm_virtuals example_yaml) (\<lambda>_ _. Inr) (example_vm, ()) = Inr (c1, ())"
    "\<And>p. in2 (machine_usage example_vm) p \<Longrightarrow> get2 (machine_usage c1) p = size_max"
    "controller_dtor (vm_virtuals example_yaml) (\<lambda>_ _. Inr) (c1, ()) = Inr (c2, ())" "thread_pool c2 = []"
    by auto
  have "in2 (machine_usage example_vm) (0, 0)" by (simp add: example_vm_fields in2_def)
  from c(2) [OF this] c(1,3,4) show ?thesis by blast
qed

end
