(* ===== verification/Consec_Properties.thy ===== *)
theory Consec_Properties
  imports Scheduler_Consec Controller_Refinement
begin

section \<open>Properties of the exclusive scheduler\<close>

text \<open>
  The exclusive scheduler keeps the two slots of every machine with the same job, which is what
  the assertion in its loop over the machines relies on. It takes the first free machines, as
  few as the job needs, so jobs never share a machine; and with enough wake-ups it runs the
  whole queue to its end.
\<close>

subsection \<open>Selecting machines\<close>

definition paired_rows :: "machine_usageT \<Rightarrow> bool" where
  "paired_rows u \<longleftrightarrow> (\<forall>row \<in> set u. length row = 2 \<and> row ! 0 = row ! 1)"

definition whole :: "nat \<Rightarrow> execute_config" where
  "whole m = [(m, 0), (m, 1)]"

definition free_machines :: "(nat \<times> nat list) list \<Rightarrow> nat list" where
  "free_machines us = map fst (filter (\<lambda>(m, mu). mu ! 0 = size_max) us)"

text \<open>\<open>k\<close> is the number of whole machines the loop adds to \<open>l\<close> slots.\<close>

definition fewest :: "nat \<Rightarrow> nat \<Rightarrow> nat \<Rightarrow> nat \<Rightarrow> nat \<Rightarrow> bool" where
  "fewest l sz req avail k \<longleftrightarrow> k \<le> avail \<and> (\<forall>j < k. (l + 2 * j) * sz < req) \<and>
     (k < avail \<longrightarrow> req \<le> (l + 2 * k) * sz)"

lemma map_Pair_two: "map (Pair m) [0..<2] = whole m"
  by (simp add: whole_def upt_rec numeral_2_eq_2)

lemma select_machines_ok:
  assumes "paired_rows (map snd us)" and "length config * sz < req"
    and "(length config + 2 * length us) * sz \<le> size_max"
  shows "\<exists>k. select_machines 2 sz req us config =
      Inr (config @ concat (map whole (take k (free_machines us)))) \<and>
    fewest (length config) sz req (length (free_machines us)) k"
  using assms
proof (induction us arbitrary: config)
  case Nil
  then show ?case by (simp add: free_machines_def fewest_def)
next
  case (Cons u us)
  obtain m mu where u: "u = (m, mu)" by (cases u)
  from Cons.prems(1) have mu: "length mu = 2" "mu ! 0 = mu ! 1" and rest: "paired_rows (map snd us)"
    by (auto simp: paired_rows_def u)
  have small: "length config * sz \<le> size_max" "(length config + 2) * sz \<le> size_max"
    "(length (config @ whole m) + 2 * length us) * sz \<le> size_max"
    "(length config + 2 * length us) * sz \<le> size_max"
    using Cons.prems(3) by (auto simp: whole_def algebra_simps)
  show ?case
  proof (cases "mu ! 0 = size_max")
    case False
    from Cons.IH [OF rest Cons.prems(2) small(4)] False mu Cons.prems(2) small(1) show ?thesis
      by (simp add: u vec_at_in free_machines_def numeral_2_eq_2)
  next
    case True
    let ?c = "config @ whole m"
    have len: "length ?c = length config + 2" by (simp add: whole_def)
    have free: "free_machines (u # us) = m # free_machines us"
      using True by (simp add: u free_machines_def)
    have step: "select_machines 2 sz req (u # us) config =
        (if req \<le> (length config + 2) * sz then Inr ?c else select_machines 2 sz req us ?c)"
      using True mu small(2) by (simp add: u vec_at_in map_Pair_two whole_def numeral_2_eq_2)
    show ?thesis
    proof (cases "req \<le> (length config + 2) * sz")
      case enough: True
      have "fewest (length config) sz req (length (free_machines (u # us))) 1"
        using enough Cons.prems(2) by (simp add: fewest_def free)
      then show ?thesis using enough by (intro exI [of _ 1]) (simp add: step free)
    next
      case False
      from Cons.IH [OF rest, of ?c] False small(3) len obtain k where
        k: "select_machines 2 sz req us ?c = Inr (?c @ concat (map whole (take k (free_machines us))))"
        "fewest (length config + 2) sz req (length (free_machines us)) k" by auto
      have "fewest (length config) sz req (length (free_machines (u # us))) (Suc k)"
        using k(2) Cons.prems(2)
        by (auto simp: fewest_def free less_Suc_eq_0_disj algebra_simps)
      with k(1) False show ?thesis by (intro exI [of _ "Suc k"]) (simp add: step free)
    qed
  qed
qed

subsection \<open>Machines with one job\<close>

definition paired :: "'z controllerT_scheme \<Rightarrow> bool" where
  "paired c \<longleftrightarrow> paired_rows (machine_usage c)"

lemma paired_iff:
  "shape 2 u \<Longrightarrow> paired_rows u \<longleftrightarrow> (\<forall>m < length u. get2 u (m, 0) = get2 u (m, 1))"
  by (auto simp: paired_rows_def shape_nth get2_def all_set_conv_all_nth)

lemma wf_shape: "wf c \<Longrightarrow> shape 2 (machine_usage c) \<and> length (machine_usage c) = length (machines c)"
  by (simp add: wf_def)

text \<open>Two jobs on one machine would be one job.\<close>

lemma paired_machines:
  assumes "wf c" and "paired c" and "is_running c j" and "is_running c k"
    and "e \<in> set (id_to_config c ! j)" and "e' \<in> set (id_to_config c ! k)" and "fst e = fst e'"
  shows "j = k"
proof -
  note occ = wf_occupied [OF assms(1)]
  have own: "in2 (machine_usage c) e" "get2 (machine_usage c) e = j" "in2 (machine_usage c) e'"
    "get2 (machine_usage c) e' = k"
    using occupied_running(4,5) [OF occ assms(3) assms(5)] occupied_running(4,5) [OF occ assms(4) assms(6)]
    by auto
  have sh: "shape 2 (machine_usage c)" using wf_shape [OF assms(1)] by simp
  have "get2 (machine_usage c) (fst e, x) = get2 (machine_usage c) (fst e, 0)" if "x < 2" for x
    using assms(2) own(1) sh that unfolding paired_def paired_iff [OF sh]
    by (auto simp: in2_shape less_2_cases_iff)
  from this [of "snd e"] this [of "snd e'"] own sh assms(7) show ?thesis
    by (metis in2_shape prod.collapse)
qed

lemma free_count: "length (filter (\<lambda>(m, mu). P mu) (enumerate n u)) = length (filter P u)"
  by (induction u arbitrary: n) auto

lemma free_slots_two:
  "length row = 2 \<Longrightarrow> row ! 0 = row ! 1 \<Longrightarrow> 2 \<le> free_slots 2 row \<longleftrightarrow> row ! 0 = size_max"
  by (simp add: free_slots_def upt_rec numeral_2_eq_2)

lemma resource_available_paired:
  assumes "wf c" and "paired c" and "length (slots (system_config c)) = 2"
    and "slot_size (system_config c) = Inr sz" and "2 * sz * length (machines c) \<le> size_max"
  shows "resource_available req 2 c =
    Inr (req \<le> sz * 2 * length (free_machines (enumerate 0 (machine_usage c))))"
proof -
  have sh: "shape 2 (machine_usage c)" "length (machine_usage c) = length (machines c)"
    using wf_shape [OF assms(1)] by auto
  have "resource_counter (system_config c) 2 (machine_usage c) 0 = Inr (0 + sz * 2 *
      length (filter (\<lambda>row. 2 \<le> free_slots (length (slots (system_config c))) row) (machine_usage c)))"
    using assms(3-5) sh by (intro resource_counter_total [OF sh(1)]) (auto simp: mult.commute)
  moreover have "filter (\<lambda>row. 2 \<le> free_slots 2 row) (machine_usage c) =
      filter (\<lambda>row. row ! 0 = size_max) (machine_usage c)"
    using assms(2) by (intro filter_cong) (auto simp: paired_def paired_rows_def free_slots_two)
  ultimately show ?thesis
    using assms(3) by (simp add: resource_available_def free_machines_def free_count)
qed

lemma free_machines_enumerate:
  "free_machines (enumerate n u) = map (\<lambda>m. n + m) (filter (\<lambda>m. u ! m ! 0 = size_max) [0..<length u])"
proof (induction u arbitrary: n)
  case Nil
  then show ?case by (simp add: free_machines_def)
next
  case (Cons row u)
  have "[0..<length (row # u)] = 0 # map Suc [0..<length u]"
    by (simp add: upt_conv_Cons map_Suc_upt del: upt_Suc)
  with Cons [of "Suc n"] show ?case by (simp add: free_machines_def filter_map comp_def)
qed

text \<open>The machines that are taken: the first \<open>k\<close> free ones.\<close>

definition first_free_machines :: "machine_usageT \<Rightarrow> nat list" where
  "first_free_machines u = filter (\<lambda>m. u ! m ! 0 = size_max) [0..<length u]"

lemma free_machines_first: "free_machines (enumerate 0 u) = first_free_machines u"
  by (simp add: free_machines_enumerate first_free_machines_def)

lemma set_whole: "set (concat (map whole ms)) = {e. fst e \<in> set ms \<and> snd e < 2}"
  by (auto simp: whole_def less_2_cases_iff)

lemma length_whole: "length (concat (map whole ms)) = 2 * length ms"
  by (induction ms) (auto simp: whole_def)

lemma paired_put_whole:
  assumes "shape 2 u" and "paired_rows u" and "\<forall>m \<in> set ms. m < length u"
  shows "paired_rows (put_all (concat (map whole ms)) v u)"
proof -
  have "in2 u e" if "e \<in> set (concat (map whole ms))" for e
    using that assms(3) unfolding set_whole in2_shape [OF assms(1)] by simp
  then have "get2 (put_all (concat (map whole ms)) v u) p =
      (if p \<in> set (concat (map whole ms)) then v else get2 u p)" for p
    by (intro get2_put_all) blast
  then have "get2 (put_all (concat (map whole ms)) v u) p =
      (if fst p \<in> set ms \<and> snd p < 2 then v else get2 u p)" for p
    unfolding set_whole by simp
  moreover have "shape 2 (put_all (concat (map whole ms)) v u)"
    "length (put_all (concat (map whole ms)) v u) = length u" using assms(1) by simp_all
  ultimately show ?thesis
    using assms(1,2) by (simp add: paired_iff)
qed

subsection \<open>One job\<close>

text \<open>What the scheduler needs of the cluster: two slots per machine, and sums that do not wrap.\<close>

definition two_slots :: "nat \<Rightarrow> 'z controllerT_scheme \<Rightarrow> bool" where
  "two_slots sz c \<longleftrightarrow> length (slots (system_config c)) = 2 \<and> slot_size (system_config c) = Inr sz \<and>
     2 * sz * length (machines c) \<le> size_max"

definition consec_ok :: "nat \<Rightarrow> 'z controllerT_scheme \<Rightarrow> bool" where
  "consec_ok sz c \<longleftrightarrow> wf c \<and> paired c \<and> two_slots sz c"

context controller_interface
begin

lemma run_thread_paired:
  assumes "wf c" and "paired c" and "run_thread V callback t (c, s) = Inr (c', s')"
  shows "paired c'"
proof (cases "is_running c t")
  case False
  with assms show ?thesis by (simp add: run_thread_def)
next
  case True
  note run = run_thread_finished [OF assms(1) True assms(3)]
  note occ = wf_occupied [OF assms(1)]
  let ?u = "machine_usage c"
  have sh: "shape 2 ?u" using wf_shape [OF assms(1)] by simp
  have t: "t \<noteq> size_max"
    using wf_running_lt [OF assms(1) True] assms(1) by (auto simp: wf_def)
  have own: "p \<in> set (id_to_config c ! t) \<longleftrightarrow> get2 ?u p = t" if "in2 ?u p" for p
    using occupied_running(5) [OF occ True] occupied_slot(2) [OF occ that] t by blast
  have "get2 (machine_usage c') p = (if p \<in> set (id_to_config c ! t) then size_max else get2 ?u p)" for p
    unfolding run(3) using occupied_running(4) [OF occ True] by (intro get2_put_all) blast
  moreover have "shape 2 (machine_usage c')" "length (machine_usage c') = length ?u"
    unfolding run(3) using sh by simp_all
  moreover have "in2 ?u (m, 0)" "in2 ?u (m, 1)" if "m < length ?u" for m
    using that in2_shape [OF sh] by simp_all
  ultimately show ?thesis
    using assms(2) own sh by (simp add: paired_def paired_iff)
qed

lemma wait_until_paired:
  assumes "wait_until V callback pred (c, s) = Inr (c', s')" and "wf c" and "paired c"
  shows "paired c'"
proof -
  have "(\<lambda>st. wf (fst st) \<and> paired (fst st)) (c', s')"
  proof (rule wait_until_keep [OF assms(1)])
    fix t st st'
    assume "wf (fst st) \<and> paired (fst st)" "run_thread V callback t st = Inr st'"
    then show "wf (fst st') \<and> paired (fst st')"
      using run_thread_later [of "fst st" callback t "snd st" "fst st'" "snd st'"]
        run_thread_paired [of "fst st" callback t "snd st" "fst st'" "snd st'"] by simp
  qed (use assms(2,3) in \<open>simp_all add: paired_def\<close>)
  then show ?thesis by simp
qed

lemma wait_until_consec:
  assumes "wait_until V callback pred (c, s) = Inr (c', s')" and "consec_ok sz c"
  shows "consec_ok sz c'"
  using wait_until_later [OF assms(1)] wait_until_paired [OF assms(1)] assms(2)
  by (simp add: consec_ok_def two_slots_def later_def)

lemma pred_wakeups:
  assumes "\<And>c w. pred (c\<lparr>wakeups := w\<rparr>) = pred c"
    and "wait_until V callback pred (c, s) = Inr (c', s')" and "wf c"
  shows "pred c' = Inr True"
  using wait_until_later [OF assms(2,3)] assms(1) by metis

lemma execute_whole:
  assumes "consec_ok sz c" and "cmd_counter c < size_max"
    and "execute V job (concat (map whole ms)) c = Inr (i, c')"
  shows "consec_ok sz c'"
proof -
  have wf: "wf c" using assms(1) by (simp add: consec_ok_def)
  note ex = execute_started [OF wf assms(2,3)]
  have sh: "shape 2 (machine_usage c)" using wf_shape [OF wf] by simp
  have "m < length (machine_usage c)" if "m \<in> set ms" for m
  proof -
    have "(m, 0) \<in> set (concat (map whole ms))" unfolding set_whole using that by simp
    with ex(10) have "in2 (machine_usage c) (m, 0)" by blast
    then show ?thesis using in2_shape [OF sh] by simp
  qed
  with sh assms(1) have "paired c'"
    unfolding paired_def ex(7) by (intro paired_put_whole) (simp_all add: consec_ok_def paired_def)
  with assms(1) ex(1,11,12) show ?thesis by (simp add: consec_ok_def two_slots_def)
qed

lemma consec_job_steps:
  assumes "consec_ok sz c" and "cmd_counter c < size_max" and "0 < req_cpus job"
    and "consec_job V job (c, s) = Inr (c', s')"
  obtains c1 k where "wait_for_ressource V consec_command_done (req_cpus job) 2 (c, s) = Inr (c1, s')"
    "consec_ok sz c1" "fewest 0 sz (req_cpus job) (length (first_free_machines (machine_usage c1))) k"
    "req_cpus job \<le> 2 * k * sz"
    "execute V job (concat (map whole (take k (first_free_machines (machine_usage c1))))) c1 =
       Inr (cmd_counter c, c')" "consec_ok sz c'" "cmd_counter c1 = cmd_counter c"
proof -
  have two: "length (slots (system_config c)) = 2" "slot_size (system_config c) = Inr sz"
    using assms(1) by (simp_all add: consec_ok_def two_slots_def)
  from assms(4) two obtain c1 config i where st:
    "wait_for_ressource V consec_command_done (req_cpus job) 2 (c, s) = Inr (c1, s')"
    "select_machines 2 sz (req_cpus job) (enumerate 0 (machine_usage c1)) [] = Inr config"
    "req_cpus job \<le> wrap64 (length config * sz)" "execute V job config c1 = Inr (i, c')"
    by (auto simp: consec_job_def Let_def)
  have wf: "wf c" using assms(1) by (simp add: consec_ok_def)
  have ok1: "consec_ok sz c1"
    using wait_until_consec [OF st(1) [unfolded wait_for_ressource_def] assms(1)] .
  have cnt: "cmd_counter c1 = cmd_counter c"
    using wait_until_later [OF st(1) [unfolded wait_for_ressource_def] wf] by (simp add: later_def)
  let ?free = "first_free_machines (machine_usage c1)"
  have small: "(length ([] :: execute_config) + 2 * length (enumerate 0 (machine_usage c1))) * sz \<le> size_max"
    using ok1 wf_shape [of c1] by (simp add: consec_ok_def two_slots_def algebra_simps)
  have rows: "paired_rows (map snd (enumerate 0 (machine_usage c1)))"
    using ok1 by (simp add: consec_ok_def paired_def enumerate_eq_zip)
  from select_machines_ok [OF rows _ small, of "req_cpus job"] assms(3) st(2) obtain k where
    k: "config = concat (map whole (take k ?free))" "fewest 0 sz (req_cpus job) (length ?free) k"
    by (auto simp: free_machines_first)
  have "wrap64 (length config * sz) \<le> length config * sz" by (simp add: wrap64_def)
  moreover have "length config = 2 * k" using k by (simp add: length_whole fewest_def)
  ultimately have "req_cpus job \<le> 2 * k * sz" using st(3) by simp
  moreover have small_id: "cmd_counter c1 < size_max" using cnt assms(2) by simp
  moreover have "i = cmd_counter c"
    using execute_started(2) [OF _ small_id st(4)] ok1 cnt by (simp add: consec_ok_def)
  moreover have "consec_ok sz c'"
    using execute_whole [OF ok1 small_id] st(4) k(1) by blast
  ultimately show ?thesis using that [OF st(1) ok1 k(2)] st(4) k(1) cnt by simp
qed

end

subsection \<open>Controllers that always return\<close>

text \<open>What keeps the waits and the starts from failing: the calls of the system and the timers.\<close>

definition set_to_go :: "'z controllerT_scheme \<Rightarrow> bool" where
  "set_to_go c \<longleftrightarrow> wf c \<and> (\<forall>cmd. system_call c cmd \<noteq> -1) \<and>
     (\<forall>j. is_running c j \<or> cmd_counter c \<le> j \<longrightarrow> job_timer j \<notin> timer_names (timestamps c))"

lemma set_to_go_fresh: "set_to_go c \<Longrightarrow> fresh_timers c"
  by (simp add: set_to_go_def fresh_timers_def)

lemma tick_timestamp_names:
  "tick_timestamp n c = Inr c' \<Longrightarrow> timer_names (timestamps c') \<subseteq> insert n (timer_names (timestamps c))"
  by (auto simp: tick_timestamp_def read_clock_def tick_def timer_names_def update_conv' split: if_splits)

lemma tock_timestamp_names:
  "tock_timestamp n c = Inr c' \<Longrightarrow> timer_names (timestamps c') \<subseteq> insert n (timer_names (timestamps c))"
  by (auto simp: tock_timestamp_def read_clock_def tock_def timer_names_def update_conv'
      split: if_splits option.splits)

locale lively_controller = quiet_controller V for V :: "'z controllerT_scheme virtuals" +
  fixes usable :: "'z controllerT_scheme \<Rightarrow> execute_config_elemT \<Rightarrow> bool"
  assumes create_total: "\<exists>c'. create_domain V i c = Inr c' \<and> timestamps c' = timestamps c \<and>
      controllerT.more c' = controllerT.more c"
    and delete_more: "delete_domain V i c = Inr c' \<Longrightarrow> controllerT.more c' = controllerT.more c"
    and command_total: "cfg \<noteq> [] \<Longrightarrow> \<forall>e \<in> set cfg. usable c e \<Longrightarrow>
      \<exists>cmd. generate_command V job i cfg c = Inr (cmd, c)"
    and usable_more: "controllerT.more c' = controllerT.more c \<Longrightarrow> usable c' e = usable c e"
begin

lemma execute_returns:
  assumes "set_to_go c" and "lock_owned c" and "cmd_counter c < size_max" and "cfg \<noteq> []"
    and "distinct cfg" and "\<forall>p \<in> set cfg. in2 (machine_usage c) p \<and> get2 (machine_usage c) p = size_max"
    and "\<forall>e \<in> set cfg. usable c e"
  shows "\<exists>c'. execute V job cfg c = Inr (cmd_counter c, c') \<and> set_to_go c' \<and>
    controllerT.more c' = controllerT.more c \<and> wakeups c' = wakeups c \<and> lock_owned c'"
proof -
  let ?c = "c\<lparr>id_to_tpool := id_to_tpool c @ [length (thread_pool c)],
    id_to_config := id_to_config c @ [cfg], id_to_job := id_to_job c @ [job],
    machine_usage := put_all cfg (cmd_counter c) (machine_usage c)\<rparr>"
  have wf: "wf c" using assms(1) by (simp add: set_to_go_def)
  have occ: "for_each (occupy_slot (cmd_counter c)) cfg (machine_usage c) =
      Inr (put_all cfg (cmd_counter c) (machine_usage c))"
    using occupy_loop [of "cmd_counter c" cfg] assms(3,5,6) by auto
  from create_total [of "cmd_counter c" ?c] obtain c1 where
    c1: "create_domain V (cmd_counter c) ?c = Inr c1" "timestamps c1 = timestamps c"
      "controllerT.more c1 = controllerT.more c" by auto
  from book_fields [OF create_book [OF c1(1)]] have same: "cmd_counter c1 = cmd_counter c"
    "wakeups c1 = wakeups c" "lock_owned c1 = lock_owned c" "system_call c1 = system_call c"
    "thread_pool c1 = thread_pool c" by simp_all
  have "\<forall>e \<in> set cfg. usable c1 e" using assms(7) usable_more [of c1 c] c1(3) by simp
  from command_total [OF assms(4) this, of job "cmd_counter c"] obtain cmd where
    cmd: "generate_command V job (cmd_counter c) cfg c1 = Inr (cmd, c1)" by blast
  let ?d = "c1\<lparr>thread_pool := thread_pool c1 @
      [\<lparr>worker_command = cmd, worker_id = cmd_counter c, worker_state = Running\<rparr>],
      cmd_counter := wrap64 (cmd_counter c + 1)\<rparr>"
  have ex: "execute V job cfg c = Inr (cmd_counter c, ?d)"
    using assms(2,4) occ c1(1) cmd same(1) by (simp add: execute_def Let_def)
  note started = execute_started [OF wf assms(3) ex]
  have "set_to_go ?d"
    unfolding set_to_go_def
    using started(1,3,4) assms(1) same c1(2) by (auto simp: set_to_go_def)
  with ex c1(3) same assms(2) show ?thesis by (intro exI [of _ ?d]) simp
qed

lemma run_thread_changes:
  assumes "wf c" and "run_thread V callback t (c, s) = Inr (c', s')"
  shows "timer_names (timestamps c') \<subseteq> insert (job_timer t) (timer_names (timestamps c)) \<and>
    (\<not> is_running c t \<longrightarrow> c' = c) \<and> controllerT.more c' = controllerT.more c"
proof (cases "is_running c t")
  case False
  with assms(2) show ?thesis by (auto simp: run_thread_def)
next
  case True
  have wid: "worker_id (thread_pool c ! t) = t"
    using assms(1) wf_running_lt [OF assms(1) True] by (simp add: wf_def)
  from True assms(2) wid obtain c1 c2 c3 u where ex: "tick_timestamp (job_timer t) c = Inr c1"
    "tock_timestamp (job_timer t) c1 = Inr c2" "delete_domain V t c2 = Inr c3"
    "c' = set_thread_state t Finished (c3\<lparr>machine_usage := u\<rparr>)"
    by (auto simp: run_thread_def execute_command_internal_def Let_def)
  have "timestamps c3 = timestamps c2" using delete_total [of t c2] ex(3) by auto
  then have "timer_names (timestamps c') \<subseteq> insert (job_timer t) (timer_names (timestamps c))"
    using tick_timestamp_names [OF ex(1)] tock_timestamp_names [OF ex(2)] ex(4) by auto
  moreover have "controllerT.more c1 = controllerT.more c" "controllerT.more c2 = controllerT.more c1"
    using ex(1,2) by (auto simp: tick_timestamp_def tock_timestamp_def read_clock_def)
  then have "controllerT.more c' = controllerT.more c"
    using delete_more [OF ex(3)] ex(4) by (simp add: set_thread_state_def)
  ultimately show ?thesis using True by blast
qed

lemma run_thread_goes:
  assumes "set_to_go c" and "callback_returns callback"
  shows "\<exists>c' s'. run_thread V callback t (c, s) = Inr (c', s') \<and> set_to_go c' \<and> later c c' \<and>
    (\<forall>j. is_running c' j \<longleftrightarrow> is_running c j \<and> j \<noteq> t) \<and> wakeups c' = wakeups c \<and>
    controllerT.more c' = controllerT.more c"
proof -
  have go: "wf c" "\<forall>cmd. system_call c cmd \<noteq> -1" using assms(1) by (simp_all add: set_to_go_def)
  from run_thread_returns [OF go(1) set_to_go_fresh [OF assms(1)] go(2) assms(2), of t s] obtain c' s'
    where run: "run_thread V callback t (c, s) = Inr (c', s')"
      "\<forall>j. is_running c' j \<longleftrightarrow> is_running c j \<and> j \<noteq> t" "system_call c' = system_call c" by blast
  note lat = run_thread_later [OF go(1) run(1)]
  have changes: "timer_names (timestamps c') \<subseteq> insert (job_timer t) (timer_names (timestamps c))"
    "\<not> is_running c t \<Longrightarrow> c' = c" and more: "controllerT.more c' = controllerT.more c"
    using run_thread_changes [OF go(1) run(1)] by blast+
  have "job_timer j \<notin> timer_names (timestamps c')" if "is_running c' j \<or> cmd_counter c \<le> j" for j
  proof (cases "is_running c t")
    case True
    have "t < cmd_counter c" using wf_running_lt [OF go(1) True] .
    with that run(2) have "j \<noteq> t" by (metis not_less)
    moreover have "is_running c j \<or> cmd_counter c \<le> j" using that run(2) by blast
    with assms(1) have "job_timer j \<notin> timer_names (timestamps c)" unfolding set_to_go_def by blast
    ultimately show ?thesis using changes(1) by auto
  next
    case False
    from changes(2) [OF this] that assms(1) show ?thesis unfolding set_to_go_def by blast
  qed
  then have "set_to_go c'" using lat run(3) go(2) by (simp add: set_to_go_def later_def)
  with run lat more show ?thesis by blast
qed

end

subsection \<open>The queue is run to its end\<close>

lemma set_to_go_fields [simp]:
  "set_to_go (c\<lparr>lock_owned := l\<rparr>) = set_to_go c" "set_to_go (c\<lparr>wakeups := w\<rparr>) = set_to_go c"
  "set_to_go (c\<lparr>done_called := d\<rparr>) = set_to_go c"
  using is_running_cong [of "c\<lparr>lock_owned := l\<rparr>" c] is_running_cong [of "c\<lparr>wakeups := w\<rparr>" c]
    is_running_cong [of "c\<lparr>done_called := d\<rparr>" c]
  by (simp_all add: set_to_go_def)

lemma take_lock_owned: "take_lock c = c\<lparr>lock_owned := True\<rparr>"
  by (simp add: take_lock_def)

lemma consec_callback_state:
  "run_thread V consec_command_done t (c, s) = Inr (c', s') \<Longrightarrow> s' = s"
  by (auto simp: run_thread_def execute_command_internal_def Let_def consec_command_done_def split: if_splits)

lemma consec_wait_state:
  assumes "wait_until V consec_command_done pred (c, s) = Inr (c', s')"
  shows "s' = s"
proof -
  have "snd (c', s') = s"
  proof (rule wait_until_keep [OF assms, where P = "\<lambda>st. snd st = s"])
    fix t st st'
    assume "snd st = s" "run_thread V consec_command_done t st = Inr st'"
    then show "snd st' = s"
      using consec_callback_state [of V t "fst st" "snd st" "fst st'" "snd st'"] by (cases st) simp
  qed simp_all
  then show ?thesis by simp
qed

lemma consec_callback_returns: "callback_returns consec_command_done"
  by (simp add: callback_returns_def consec_command_done_def)

context lively_controller
begin

lemma run_threads_go:
  assumes "set_to_go c" and "callback_returns callback"
  shows "\<exists>c' s'. for_each (run_thread V callback) ts (c, s) = Inr (c', s') \<and> set_to_go c' \<and>
    later c c' \<and> (\<forall>j. is_running c' j \<longleftrightarrow> is_running c j \<and> j \<notin> set ts) \<and>
    controllerT.more c' = controllerT.more c"
  using assms(1)
proof (induction ts arbitrary: c s)
  case Nil
  then show ?case by simp
next
  case (Cons t ts)
  from run_thread_goes [OF Cons.prems assms(2), of t s] obtain c1 s1 where
    1: "run_thread V callback t (c, s) = Inr (c1, s1)" "set_to_go c1" "later c c1"
      "\<forall>j. is_running c1 j \<longleftrightarrow> is_running c j \<and> j \<noteq> t" "controllerT.more c1 = controllerT.more c" by blast
  from Cons.IH [OF 1(2), of s1] obtain c2 s2 where
    2: "for_each (run_thread V callback) ts (c1, s1) = Inr (c2, s2)" "set_to_go c2" "later c1 c2"
      "\<forall>j. is_running c2 j \<longleftrightarrow> is_running c1 j \<and> j \<notin> set ts"
      "controllerT.more c2 = controllerT.more c1" by blast
  have "later c c2" using 1(3) 2(3) by (rule later_trans)
  with 1 2 show ?case by (intro exI [of _ c2] exI [of _ s2]) auto
qed

text \<open>A wait whose first wake-up lets everything finish.\<close>

lemma wait_goes:
  assumes "set_to_go c" and "callback_returns callback" and "wakeups c = ts # ws"
    and "\<forall>j. is_running c j \<longrightarrow> j \<in> set ts"
    and total: "\<And>d. wf d \<Longrightarrow> system_config d = system_config c \<Longrightarrow> machines d = machines c \<Longrightarrow>
      \<exists>b. pred d = Inr b"
    and idle: "\<And>d. wf d \<Longrightarrow> system_config d = system_config c \<Longrightarrow> machines d = machines c \<Longrightarrow>
      \<forall>j. \<not> is_running d j \<Longrightarrow> pred d = Inr True"
  shows "\<exists>c' s'. wait_until V callback pred (c, s) = Inr (c', s') \<and> set_to_go c' \<and>
    controllerT.more c' = controllerT.more c \<and> wakeups c' \<in> {ts # ws, ws}"
proof -
  let ?c = "c\<lparr>lock_owned := True\<rparr>"
  have wf: "wf ?c" using assms(1) by (simp add: set_to_go_def)
  from total [OF wf] obtain b where b: "pred ?c = Inr b" by auto
  show ?thesis
  proof (cases b)
    case True
    with b have "wait_until V callback pred (c, s) = Inr (?c\<lparr>wakeups := ts # ws\<rparr>, s)"
      by (simp add: wait_until_def take_lock_owned assms(3) wait_loop.simps)
    with assms(1) show ?thesis by (intro exI [of _ "?c\<lparr>wakeups := ts # ws\<rparr>"] exI [of _ s]) simp
  next
    case False
    have "set_to_go ?c" using assms(1) by simp
    from run_threads_go [OF this assms(2), of ts s] obtain d s' where
      d: "for_each (run_thread V callback) ts (?c, s) = Inr (d, s')" "set_to_go d" "later ?c d"
      "\<forall>j. is_running d j \<longleftrightarrow> is_running ?c j \<and> j \<notin> set ts" "controllerT.more d = controllerT.more c" by auto
    have "\<forall>j. \<not> is_running d j" using d(4) assms(4) is_running_cong [of ?c c] by simp
    then have "pred d = Inr True" using idle [of d] d(2,3) by (simp add: set_to_go_def later_def)
    with b False d(1) have "wait_until V callback pred (c, s) = Inr (d\<lparr>wakeups := ws\<rparr>, s')"
      by (simp add: wait_until_def take_lock_owned assms(3) wait_loop.simps)
    with d(2,5) show ?thesis by (intro exI [of _ "d\<lparr>wakeups := ws\<rparr>"] exI [of _ s']) simp
  qed
qed

end

lemma idle_all_free:
  assumes "wf c" and "\<forall>j. \<not> is_running c j" and "in2 (machine_usage c) p"
  shows "get2 (machine_usage c) p = size_max"
  using occupied_slot(1) [OF wf_occupied [OF assms(1)] assms(3)] assms(2) by blast

lemma resource_available_idle:
  assumes "wf c" and "two_slots sz c" and "\<forall>j. \<not> is_running c j" and "req \<le> 2 * sz * length (machines c)"
  shows "resource_available req 2 c = Inr True"
proof -
  have sh: "shape 2 (machine_usage c)" "length (machine_usage c) = length (machines c)"
    using wf_shape [OF assms(1)] by auto
  have free: "get2 (machine_usage c) p = size_max" if "in2 (machine_usage c) p" for p
    using idle_all_free [OF assms(1,3) that] .
  have row: "machine_usage c ! m ! 0 = size_max" if "m < length (machine_usage c)" for m
    using free [of "(m, 0)"] that in2_shape [OF sh(1)] by (simp add: get2_def)
  have "paired c"
    using free in2_shape [OF sh(1)] sh(1) by (auto simp: paired_def paired_iff)
  from resource_available_paired [OF assms(1) this, of sz req] assms(2,4) row sh(2) show ?thesis
    by (simp add: two_slots_def free_machines_first first_free_machines_def algebra_simps)
qed

lemma resource_available_total:
  assumes "wf c" and "two_slots sz c"
  shows "\<exists>b. resource_available req 2 c = Inr b"
  unfolding resource_available_def
proof -
  have "slots (system_config c) \<noteq> []" using assms(2) by (auto simp: two_slots_def)
  then show "\<exists>b. rbind (resource_counter (system_config c) 2 (machine_usage c) 0) (\<lambda>counter. Inr (req \<le> counter)) = Inr b"
  using resource_counter_total [of 2 "machine_usage c" "system_config c" 2 0 sz] assms
  by (auto simp: two_slots_def wf_def algebra_simps)
qed

lemma distinct_whole: "distinct ms \<Longrightarrow> distinct (concat (map whole ms))"
proof (induction ms)
  case (Cons m ms)
  have "set (whole m) \<inter> set (concat (map whole ms)) = {}"
    using Cons.prems unfolding set_whole by (auto simp: whole_def)
  with Cons show ?case by (simp add: whole_def)
qed simp

lemma first_free_in:
  assumes "wf c" and "paired c" and "e \<in> set (concat (map whole (take k (first_free_machines (machine_usage c)))))"
  shows "in2 (machine_usage c) e \<and> get2 (machine_usage c) e = size_max"
proof -
  let ?u = "machine_usage c"
  have sh: "shape 2 ?u" using wf_shape [OF assms(1)] by simp
  from assms(3) have m: "fst e \<in> set (first_free_machines ?u)" "snd e < 2"
    unfolding set_whole by (auto dest: in_set_takeD)
  then have "fst e < length ?u" "get2 ?u (fst e, 0) = size_max"
    by (auto simp: first_free_machines_def get2_def)
  moreover from this assms(2) sh have "get2 ?u (fst e, 1) = size_max"
    by (simp add: paired_def paired_iff)
  ultimately show ?thesis using m(2) in2_shape [OF sh] by (cases e) (auto simp: less_2_cases_iff)
qed

lemma fewest_enough:
  assumes "fewest 0 sz req avail k" and "req \<le> sz * 2 * avail" and "0 < req"
  shows "req \<le> 2 * k * sz" and "0 < k" and "k \<le> avail"
proof -
  show le: "k \<le> avail" using assms(1) by (simp add: fewest_def)
  show enough: "req \<le> 2 * k * sz"
    using assms(1,2) le by (cases "k < avail") (auto simp: fewest_def algebra_simps)
  show "0 < k" using enough assms(3) by (cases k) auto
qed

definition usable_all ::
  "('z controllerT_scheme \<Rightarrow> execute_config_elemT \<Rightarrow> bool) \<Rightarrow> 'z controllerT_scheme \<Rightarrow> bool" where
  "usable_all us c \<longleftrightarrow> (\<forall>p. in2 (machine_usage c) p \<longrightarrow> us c p)"

context lively_controller
begin

lemma consec_job_goes:
  assumes go: "set_to_go c" and ok: "consec_ok sz c" and "cmd_counter c < size_max"
    and "0 < req_cpus job" and "req_cpus job \<le> 2 * sz * length (machines c)" and "usable_all usable c"
    and "wakeups c = ts # ws" and "\<forall>j. is_running c j \<longrightarrow> j \<in> set ts"
  shows "\<exists>c'. consec_job V job (c, s) = Inr (c', s) \<and> set_to_go c' \<and> consec_ok sz c' \<and>
    cmd_counter c' = Suc (cmd_counter c) \<and> id_to_job c' = id_to_job c @ [job] \<and>
    machines c' = machines c \<and> usable_all usable c' \<and> wakeups c' \<in> {ts # ws, ws}"
proof -
  let ?pred = "resource_available (req_cpus job) 2"
  have two: "two_slots sz c" "wf c" using ok by (simp_all add: consec_ok_def)
  have same_two: "two_slots sz d" if "system_config d = system_config c" "machines d = machines c"
    for d :: "'z controllerT_scheme" using two(1) that by (simp add: two_slots_def)
  have "\<exists>c' s'. wait_until V consec_command_done ?pred (c, s) = Inr (c', s') \<and> set_to_go c' \<and>
      controllerT.more c' = controllerT.more c \<and> wakeups c' \<in> {ts # ws, ws}"
  proof (rule wait_goes [OF go consec_callback_returns assms(7,8)])
    fix d :: "'z controllerT_scheme"
    assume d: "wf d" "system_config d = system_config c" "machines d = machines c"
    show "\<exists>b. ?pred d = Inr b" using resource_available_total [OF d(1) same_two [OF d(2,3)]] .
    assume "\<forall>j. \<not> is_running d j"
    from resource_available_idle [OF d(1) same_two [OF d(2,3)] this] assms(5) d(3)
    show "?pred d = Inr True" by simp
  qed
  then obtain c1 s1 where c1: "wait_until V consec_command_done ?pred (c, s) = Inr (c1, s1)"
    "set_to_go c1" "controllerT.more c1 = controllerT.more c" "wakeups c1 \<in> {ts # ws, ws}" by blast
  have s1: "s1 = s" using consec_wait_state [OF c1(1)] .
  from wait_until_later [OF c1(1) two(2)] have lat: "wf c1" "later (c\<lparr>lock_owned := True\<rparr>) c1" by auto
  have ok1: "consec_ok sz c1" using wait_until_consec [OF c1(1) ok] .
  have "?pred c1 = Inr True"
    by (rule pred_wakeups [OF _ c1(1) two(2)]) (simp add: resource_available_def)
  with resource_available_paired [of c1 sz "req_cpus job"] ok1
  have fits: "req_cpus job \<le> sz * 2 * length (first_free_machines (machine_usage c1))"
    by (simp add: consec_ok_def two_slots_def free_machines_first)
  have fields1: "machines c1 = machines c" "system_config c1 = system_config c" "lock_owned c1"
    "cmd_counter c1 = cmd_counter c" "id_to_job c1 = id_to_job c"
    and in1: "\<And>p. in2 (machine_usage c1) p = in2 (machine_usage c) p"
    using lat(2) by (simp_all add: later_def del: split_paired_All)
  have small: "(length ([] :: execute_config) + 2 * length (enumerate 0 (machine_usage c1))) * sz \<le> size_max"
    using ok1 wf_shape [of c1] by (simp add: consec_ok_def two_slots_def algebra_simps)
  have rows: "paired_rows (map snd (enumerate 0 (machine_usage c1)))"
    using ok1 by (simp add: consec_ok_def paired_def enumerate_eq_zip)
  let ?free = "first_free_machines (machine_usage c1)"
  from select_machines_ok [OF rows _ small, of "req_cpus job"] assms(4) obtain k where
    k: "select_machines 2 sz (req_cpus job) (enumerate 0 (machine_usage c1)) [] =
      Inr (concat (map whole (take k ?free)))" "fewest 0 sz (req_cpus job) (length ?free) k"
    by (auto simp: free_machines_first)
  let ?cfg = "concat (map whole (take k ?free))"
  note enough = fewest_enough [OF k(2) fits assms(4)]
  have len: "length ?cfg = 2 * k" using enough(3) by (simp only: length_whole length_take min_def) simp
  have "2 * k * sz \<le> size_max"
  proof -
    have "k \<le> length (machines c)"
      using enough(3) wf_shape [OF lat(1)] fields1(1)
      by (simp add: first_free_machines_def) (metis (no_types, lifting) diff_zero le_trans length_filter_le length_upt)
    then have "2 * k * sz \<le> 2 * length (machines c) * sz" by (intro mult_le_mono1) simp
    also have "\<dots> \<le> size_max" using two(1) by (simp add: two_slots_def algebra_simps)
    finally show ?thesis .
  qed
  with enough(1) len have assert2: "req_cpus job \<le> wrap64 (length ?cfg * sz)" by simp
  have "distinct ?free" by (simp add: first_free_machines_def)
  then have "distinct ?cfg" by (intro distinct_whole) simp
  moreover have "?cfg \<noteq> []" using len enough(2) by (metis length_0_conv mult_eq_0_iff neq0_conv zero_neq_numeral)
  moreover have free: "\<forall>p \<in> set ?cfg. in2 (machine_usage c1) p \<and> get2 (machine_usage c1) p = size_max"
    using first_free_in [OF lat(1)] ok1 unfolding consec_ok_def by blast
  moreover have "\<forall>e \<in> set ?cfg. usable c1 e"
    using free assms(6) in1 usable_more [OF c1(3)] unfolding usable_all_def by blast
  moreover have id1: "cmd_counter c1 < size_max" using fields1(4) assms(3) by simp
  ultimately obtain c2 where c2: "execute V job ?cfg c1 = Inr (cmd_counter c1, c2)" "set_to_go c2"
    "controllerT.more c2 = controllerT.more c1" "wakeups c2 = wakeups c1"
    using execute_returns [OF c1(2) fields1(3), of ?cfg job] by blast
  note started = execute_started [OF lat(1) id1 c2(1)]
  have "2 * (sz * length (machines c)) \<le> size_max" using two(1) by (simp add: two_slots_def)
  then have assert1: "req_cpus job \<le> wrap64 (wrap64 (length (machines c) * sz) * 2)"
    using assms(5) by (simp add: algebra_simps)
  have "consec_job V job (c, s) = Inr (c2, s)"
    using two(1) assert1 assert2 c1(1) s1 k(1) c2(1)
    by (simp add: consec_job_def two_slots_def Let_def wait_for_ressource_def)
  moreover have "consec_ok sz c2" using execute_whole [OF ok1 id1 c2(1)] .
  moreover have "usable_all usable c2"
    unfolding usable_all_def
  proof (intro allI impI)
    fix p assume "in2 (machine_usage c2) p"
    then have "in2 (machine_usage c) p" by (simp add: started(7) in1)
    then show "usable c2 p"
      using assms(6) usable_more [of c2 c] c2(3) c1(3) unfolding usable_all_def by metis
  qed
  ultimately show ?thesis
    using c2 c1(4) started(3,6,12) fields1 by (intro exI [of _ c2]) simp
qed

end

context lively_controller
begin

lemma consec_jobs_go:
  assumes "set_to_go c" and "consec_ok sz c" and "cmd_counter c + length js \<le> size_max"
    and "\<forall>job \<in> set js. 0 < req_cpus job \<and> req_cpus job \<le> 2 * sz * length (machines c)"
    and "usable_all usable c" and "length js < length (wakeups c)"
    and "\<forall>ts \<in> set (wakeups c). \<forall>j < cmd_counter c + length js. j \<in> set ts"
  shows "\<exists>c'. for_each (consec_job V) js (c, s) = Inr (c', s) \<and> set_to_go c' \<and> consec_ok sz c' \<and>
    cmd_counter c' = cmd_counter c + length js \<and> id_to_job c' = id_to_job c @ js \<and>
    wakeups c' \<noteq> [] \<and> (\<forall>ts \<in> set (wakeups c'). \<forall>j < cmd_counter c'. j \<in> set ts)"
  using assms
proof (induction js arbitrary: c)
  case Nil
  then show ?case by auto
next
  case (Cons job js)
  obtain ts ws where w: "wakeups c = ts # ws" using Cons.prems(6) by (cases "wakeups c") auto
  have wf: "wf c" using Cons.prems(1) by (simp add: set_to_go_def)
  have cover: "\<forall>j. is_running c j \<longrightarrow> j \<in> set ts"
    using Cons.prems(7) wf_running_lt [OF wf] w by fastforce
  from consec_job_goes [OF Cons.prems(1,2) _ _ _ Cons.prems(5) w cover, of job s] Cons.prems(3,4)
  obtain c1 where c1: "consec_job V job (c, s) = Inr (c1, s)" "set_to_go c1" "consec_ok sz c1"
    "cmd_counter c1 = Suc (cmd_counter c)" "id_to_job c1 = id_to_job c @ [job]"
    "machines c1 = machines c" "usable_all usable c1" "wakeups c1 \<in> {ts # ws, ws}" by auto
  have sub: "set (wakeups c1) \<subseteq> set (wakeups c)" "length js < length (wakeups c1)"
    using c1(8) w Cons.prems(6) by auto
  have "\<forall>ts \<in> set (wakeups c1). \<forall>j < cmd_counter c1 + length js. j \<in> set ts"
    using sub(1) Cons.prems(7) c1(4) by auto
  with Cons.IH [OF c1(2,3) _ _ c1(7) sub(2)] c1(4,6) Cons.prems(3,4) obtain c2 where
    "for_each (consec_job V) js (c1, s) = Inr (c2, s)" "set_to_go c2" "consec_ok sz c2"
    "cmd_counter c2 = cmd_counter c1 + length js" "id_to_job c2 = id_to_job c1 @ js"
    "wakeups c2 \<noteq> []" "\<forall>ts \<in> set (wakeups c2). \<forall>j < cmd_counter c2. j \<in> set ts" by auto
  with c1(1,4,5) show ?case by (intro exI [of _ c2]) simp
qed

lemma consec_schedule_goes:
  assumes "set_to_go c" and "consec_ok sz c" and "cmd_counter c + length (jobs q) \<le> size_max"
    and "\<forall>job \<in> set (jobs q). 0 < req_cpus job \<and> req_cpus job \<le> 2 * sz * length (machines c)"
    and "usable_all usable c" and "length (jobs q) < length (wakeups c)"
    and "\<forall>ts \<in> set (wakeups c). \<forall>j < cmd_counter c + length (jobs q). j \<in> set ts"
  shows "\<exists>c'. consec_schedule V q (c, s) = Inr (c', s) \<and> wf c' \<and> done_called c' \<and>
    (\<forall>j. \<not> is_running c' j) \<and> id_to_job c' = id_to_job c @ jobs q"
proof -
  from consec_jobs_go [OF assms, of s] obtain c1 where
    c1: "for_each (consec_job V) (jobs q) (c, s) = Inr (c1, s)" "set_to_go c1" "consec_ok sz c1"
    "id_to_job c1 = id_to_job c @ jobs q" "wakeups c1 \<noteq> []"
    "\<forall>ts \<in> set (wakeups c1). \<forall>j < cmd_counter c1. j \<in> set ts" by blast
  have wf: "wf c1" "\<forall>cmd. system_call c1 cmd \<noteq> -1" "length (slots (system_config c1)) = 2"
    using c1(2,3) by (simp_all add: set_to_go_def consec_ok_def two_slots_def)
  have "all_finish c1"
    using c1(5,6) wf_running_lt [OF wf(1)] by (cases "wakeups c1") (auto simp: all_finish_def)
  from done_returns [OF wf(1) set_to_go_fresh [OF c1(2)] wf(2) consec_callback_returns wf(3) this, of s]
  obtain c2 s2 where c2: "controller_done V consec_command_done (c1, s) = Inr (c2, s2)" by blast
  then have "s2 = s" by (auto simp: controller_done_def dest: consec_wait_state)
  with c1(1,4) c2 done_idle [OF c2 wf(1,3)] show ?thesis
    by (intro exI [of _ c2]) (simp add: consec_schedule_def later_def)
qed

end

subsection \<open>With virtual machines\<close>

text \<open>A slot of the controller for virtual machines is usable if it has a virtual machine.\<close>

definition vm_usable :: "vm_controllerT \<Rightarrow> execute_config_elemT \<Rightarrow> bool" where
  "vm_usable c e \<longleftrightarrow> in2 (vm_locations c) e"

lemma vm_hosts_ok:
  assumes "\<forall>e \<in> set cfg. in2 (vm_locations c) e"
  shows "\<exists>h. for_each (\<lambda>e host_list. rbind (at2 (vm_locations c) (fst e) (snd e)) (\<lambda>vm.
      Inr (host_list @ vm @ '',''))) cfg acc = Inr (acc @ h) \<and> (cfg \<noteq> [] \<longrightarrow> h \<noteq> [])"
  using assms
proof (induction cfg arbitrary: acc)
  case (Cons e cfg)
  from Cons.prems have here: "in2 (vm_locations c) e" by simp
  from Cons.IH [of "acc @ get2 (vm_locations c) e @ '',''"] Cons.prems obtain h where
    "for_each (\<lambda>e host_list. rbind (at2 (vm_locations c) (fst e) (snd e)) (\<lambda>vm.
      Inr (host_list @ vm @ '',''))) cfg (acc @ get2 (vm_locations c) e @ '','') =
      Inr ((acc @ get2 (vm_locations c) e @ '','') @ h)" by auto
  with here show ?case
    by (intro exI [of _ "get2 (vm_locations c) e @ '','' @ h"]) (simp add: at2_in)
qed simp

lemma vm_command_total:
  assumes "cfg \<noteq> []" and "\<forall>e \<in> set cfg. vm_usable c e"
  shows "\<exists>cmd. vm_generate_command job i cfg c = Inr (cmd, c)"
  using vm_hosts_ok [of cfg c "''''"] assms by (auto simp: vm_usable_def vm_generate_command_def)

lemma vm_more:
  fixes c c' :: vm_controllerT
  shows "controllerT.more c' = controllerT.more c \<Longrightarrow> vm_locations c' = vm_locations c"
  by (cases c, cases c') simp

interpretation vml: lively_controller "vm_virtuals Y" vm_usable for Y
  by unfold_locales
    (auto simp: vm_virtuals_def vm_create_domain_def vm_delete_domain_def vm_command_total
      vm_usable_def [of c e for c e] dest: vm_more)

subsection \<open>The properties\<close>

text \<open>An idle cluster of two hosts; every wake-up lets everything that runs finish.\<close>

definition idle_vm :: vm_controllerT where
  "idle_vm = example_vm
     \<lparr>machine_usage := [[size_max, size_max], [size_max, size_max]], id_to_config := [], id_to_job := [],
      cmd_counter := 0, thread_pool := [], id_to_tpool := [], wakeups := replicate 4 [0, 1, 2]\<rparr>"

lemma idle_vm_fields:
  "vm_locations idle_vm = [[''v1'', ''v2''], [''v3'', ''v4'']]" "machines idle_vm = [''n1'', ''n2'']"
  "machine_usage idle_vm = [[size_max, size_max], [size_max, size_max]]" "id_to_job idle_vm = []"
  "id_to_config idle_vm = []" "cmd_counter idle_vm = 0" "system_config idle_vm = example_config"
  "wakeups idle_vm = replicate 4 [0, 1, 2]" "timestamps idle_vm = timestamps example_controller"
  by (simp_all add: idle_vm_def example_vm_fields)

lemma idle_vm_idle: "\<not> is_running idle_vm j"
  by (simp add: idle_vm_def is_running_def)

lemma idle_vm_ok: "set_to_go idle_vm" "consec_ok 2 idle_vm" "usable_all vm_usable idle_vm"
proof -
  have more: "available_slots example_vm = 2" "system_call example_vm = (\<lambda>_. 0)"
    by (simp_all add: example_vm_def controllerT.defs example_controller_def)
  have run: "is_running idle_vm = (\<lambda>_. False)" by (simp add: fun_eq_iff idle_vm_idle)
  have "wf idle_vm"
    unfolding wf_def run
    by (simp add: idle_vm_fields shape_def occupied_def in2_example size_max_def)
      (auto simp: idle_vm_def more get2_def size_max_def)
  moreover have "job_timer j \<notin> timer_names (timestamps idle_vm)" for j
    by (simp add: idle_vm_fields example_controller_def new_time_measurement_def timer_names_def)
  ultimately show "set_to_go idle_vm"
    by (simp add: set_to_go_def) (simp add: idle_vm_def more)
  show "consec_ok 2 idle_vm"
    using \<open>wf idle_vm\<close>
    by (simp add: consec_ok_def paired_def paired_rows_def two_slots_def idle_vm_fields example_fields size_max_def)
  show "usable_all vm_usable idle_vm"
    by (simp add: usable_all_def vm_usable_def idle_vm_fields in2_example)
qed

lemma idle_vm_demand:
  "req_cpus example_job = 4"
  "\<forall>ts \<in> set (wakeups idle_vm). \<forall>j < cmd_counter idle_vm + 3. j \<in> set ts"
  by (auto simp: example_job_def req_cpus_def wrap64_def idle_vm_fields less_Suc_eq numeral_3_eq_3)

definition three_jobs :: job_queueT where
  "three_jobs = \<lparr>queue_title = ''three'', jobs = [example_job, example_job, example_job], queue_id = ''q''\<rparr>"

text \<open>
  C4: with the exclusive scheduler and virtual machines the whole queue is run: when every job
  fits the cluster, the calls of the system return, every slot has a virtual machine, and there
  is one more wake-up than jobs, each letting everything that runs finish, \<open>schedule\<close> returns;
  the jobs were started in the order of the queue and none is running any more. No assertion on
  the way fails.
\<close>

theorem consec_schedule_completes:
  assumes "set_to_go c" and "consec_ok sz c" and "cmd_counter c + length (jobs q) \<le> size_max"
    and "\<forall>job \<in> set (jobs q). 0 < req_cpus job \<and> req_cpus job \<le> 2 * sz * length (machines c)"
    and "usable_all vm_usable c" and "length (jobs q) < length (wakeups c)"
    and "\<forall>ts \<in> set (wakeups c). \<forall>j < cmd_counter c + length (jobs q). j \<in> set ts"
  shows "\<exists>c'. consec_schedule (vm_virtuals Y) q (c, s) = Inr (c', s) \<and> wf c' \<and> done_called c' \<and>
    (\<forall>j. \<not> is_running c' j) \<and> id_to_job c' = id_to_job c @ jobs q"
  using assms by (rule vml.consec_schedule_goes)

theorem consec_schedule_completes_witness:
  "\<exists>c'. consec_schedule (vm_virtuals example_yaml)
       three_jobs (idle_vm, ()) = Inr (c', ()) \<and>
     \<not> is_running c' 0 \<and> id_to_job c' = [example_job, example_job, example_job]"
  using consec_schedule_completes [OF idle_vm_ok(1,2) _ _ idle_vm_ok(3),
      of "three_jobs" example_yaml "()"] idle_vm_demand
  by (auto simp: three_jobs_def idle_vm_fields size_max_def)

lemma take_lower:
  assumes "sorted xs" and "m \<in> set (take k xs)" and "m' \<in> set xs" and "m' \<le> m"
  shows "m' \<in> set (take k xs)"
proof (rule ccontr)
  assume out: "m' \<notin> set (take k xs)"
  have split: "xs = take k xs @ drop k xs" by simp
  with assms(3) out have "m' \<in> set (drop k xs)" by (metis Un_iff set_append)
  with assms(1,2) split have "m \<le> m'" by (metis sorted_append)
  with assms(2,4) out show False by simp
qed

text \<open>
  C10: when the exclusive scheduler has started a job with virtual machines, the job has both
  slots of some machines, in ascending order and as few as give it the processors it asks for;
  no machine below the last of them is free, and the machines still have one job each.
\<close>

theorem consec_takes_whole_machines:
  assumes "consec_ok sz c" and "cmd_counter c < size_max" and "0 < req_cpus job"
    and "consec_job (vm_virtuals Y) job (c, s) = Inr (c', s')"
  shows "\<exists>ms. id_to_config c' ! cmd_counter c = concat (map whole ms) \<and> id_to_job c' ! cmd_counter c = job \<and>
    sorted ms \<and> distinct ms \<and> 2 * (length ms - 1) * sz < req_cpus job \<and> req_cpus job \<le> 2 * length ms * sz \<and>
    (\<forall>m \<in> set ms. \<forall>m' \<le> m. get2 (machine_usage c') (m', 0) \<noteq> size_max) \<and> consec_ok sz c'"
proof -
  from assms obtain c1 k where
    c1: "wait_for_ressource (vm_virtuals Y) consec_command_done (req_cpus job) 2 (c, s) = Inr (c1, s')"
    "consec_ok sz c1" "fewest 0 sz (req_cpus job) (length (first_free_machines (machine_usage c1))) k"
    "req_cpus job \<le> 2 * k * sz" "execute (vm_virtuals Y) job
       (concat (map whole (take k (first_free_machines (machine_usage c1))))) c1 = Inr (cmd_counter c, c')"
    "consec_ok sz c'" "cmd_counter c1 = cmd_counter c" by (rule vmc.consec_job_steps)
  let ?free = "first_free_machines (machine_usage c1)"
  let ?ms = "take k ?free" and ?u = "machine_usage c1"
  have wf1: "wf c1" using c1(2) by (simp add: consec_ok_def)
  have sh: "shape 2 ?u" using wf_shape [OF wf1] by simp
  have id1: "cmd_counter c1 < size_max" using c1(7) assms(2) by simp
  note started = vmc.execute_started [OF wf1 id1 c1(5)]
  have n: "length (id_to_config c1) = cmd_counter c" "length (id_to_job c1) = cmd_counter c"
    using wf1 c1(7) by (simp_all add: wf_def)
  have len: "length ?ms = k" "0 < k" using c1(3,4) assms(3) by (auto simp: fewest_def intro: gr0I)
  have sorted: "sorted ?free" "distinct ?free" by (simp_all add: first_free_machines_def sorted_wrt_filter)
  have less: "2 * (length ?ms - 1) * sz < req_cpus job"
    using c1(3) len by (auto simp: fewest_def)
  have used: "get2 (machine_usage c') (m', 0) \<noteq> size_max" if "m \<in> set ?ms" "m' \<le> m" for m m'
  proof -
    have m: "m' < length ?u" using that by (auto simp: first_free_machines_def dest!: in_set_takeD)
    have get: "get2 (machine_usage c') (m', 0) =
        (if (m', 0) \<in> set (concat (map whole ?ms)) then cmd_counter c else get2 ?u (m', 0))"
      unfolding started(7) using started(10) by (intro get2_put_all) blast
    show ?thesis
    proof (cases "get2 ?u (m', 0) = size_max")
      case True
      then have "m' \<in> set ?free" using m by (simp add: first_free_machines_def get2_def)
      from take_lower [OF sorted(1) that(1) this that(2)] show ?thesis
        using get assms(2) unfolding set_whole by simp
    qed (use get assms(2) in auto)
  qed
  have "sorted ?ms" "distinct ?ms"
    using sorted by (metis append_take_drop_id sorted_append, simp)
  then show ?thesis
    using started(5,6) n c1(4,6) len less used by (intro exI [of _ ?ms]) (simp add: nth_append)
qed

theorem consec_takes_whole_machines_witness:
  "\<exists>c'. consec_job (vm_virtuals example_yaml) example_job (idle_vm, ()) = Inr (c', ()) \<and>
     (\<exists>ms. id_to_config c' ! 0 = concat (map whole ms) \<and> length ms = 1)"
proof -
  have w: "wakeups idle_vm = [0, 1, 2] # replicate 3 [0, 1, 2]" by (simp add: idle_vm_fields eval_nat_numeral)
  have lt: "cmd_counter idle_vm < size_max" "0 < req_cpus example_job"
    "req_cpus example_job \<le> 2 * 2 * length (machines idle_vm)"
    using idle_vm_demand by (simp_all add: idle_vm_fields size_max_def)
  obtain c' where c': "consec_job (vm_virtuals example_yaml) example_job (idle_vm, ()) = Inr (c', ())"
    using vml.consec_job_goes [OF idle_vm_ok(1,2) lt idle_vm_ok(3) w, of example_yaml "()"] idle_vm_idle by auto
  from consec_takes_whole_machines [OF idle_vm_ok(2) lt(1,2) c'] obtain ms where
    "id_to_config c' ! 0 = concat (map whole ms)" "2 * (length ms - 1) * 2 < 4" "4 \<le> 2 * length ms * 2"
    using idle_vm_demand(1) by (auto simp: idle_vm_fields)
  then have "id_to_config c' ! 0 = concat (map whole ms) \<and> length ms = 1" by auto
  with c' show ?thesis by blast
qed

context controller_interface
begin

lemma consec_jobs_ok:
  assumes "for_each (consec_job V) js (c, s) = Inr (c', s')" and "consec_ok sz c"
    and "cmd_counter c + length js \<le> size_max" and "\<forall>job \<in> set js. 0 < req_cpus job"
  shows "consec_ok sz c'"
  using assms
proof (induction js arbitrary: c s)
  case Nil
  then show ?case by simp
next
  case (Cons job js)
  from Cons.prems(1) obtain c1 s1 where first: "consec_job V job (c, s) = Inr (c1, s1)"
    "for_each (consec_job V) js (c1, s1) = Inr (c', s')" by auto
  have "cmd_counter c < size_max" "0 < req_cpus job" using Cons.prems(3,4) by auto
  from consec_job_steps [OF Cons.prems(2) this first(1)] obtain c2 cfg where
    "consec_ok sz c2" "execute V job cfg c2 = Inr (cmd_counter c, c1)" "consec_ok sz c1"
    "cmd_counter c2 = cmd_counter c" by metis
  then have "consec_ok sz c1" "cmd_counter c1 = Suc (cmd_counter c)"
    using execute_started(3) [of c2 job cfg "cmd_counter c" c1] \<open>cmd_counter c < size_max\<close>
    by (auto simp: consec_ok_def)
  with Cons.IH [OF first(2)] Cons.prems(3,4) show ?case by simp
qed

end

text \<open>
  C11: the exclusive scheduler never lets two jobs share a machine, whatever controller it works
  with as long as its virtual functions keep the contract of the base class: after any number
  of jobs of the queue, those that run have no machine in common, and the assertion that the two
  slots of a machine agree holds for every machine.
\<close>

theorem consec_never_shares:
  assumes "controller_interface V" and "for_each (consec_job V) js (c, s) = Inr (c', s')"
    and "consec_ok sz c" and "cmd_counter c + length js \<le> size_max" and "\<forall>job \<in> set js. 0 < req_cpus job"
  shows "(\<forall>j k. is_running c' j \<and> is_running c' k \<and> j \<noteq> k \<longrightarrow>
      fst ` set (id_to_config c' ! j) \<inter> fst ` set (id_to_config c' ! k) = {}) \<and>
    (\<forall>m < length (machines c'). get2 (machine_usage c') (m, 0) = get2 (machine_usage c') (m, 1))"
proof -
  have ok: "wf c'" "paired c'" using controller_interface.consec_jobs_ok [OF assms] by (simp_all add: consec_ok_def)
  have "fst ` set (id_to_config c' ! j) \<inter> fst ` set (id_to_config c' ! k) = {}"
    if "is_running c' j" "is_running c' k" "j \<noteq> k" for j k
    using paired_machines [OF ok that(1,2)] that(3) by auto
  moreover have "\<forall>m < length (machines c'). get2 (machine_usage c') (m, 0) = get2 (machine_usage c') (m, 1)"
    using ok(2) wf_shape [OF ok(1)] by (simp add: paired_def paired_iff)
  ultimately show ?thesis by blast
qed

theorem consec_never_shares_witness:
  "\<exists>c'. for_each (consec_job (vm_virtuals example_yaml)) (jobs three_jobs) (idle_vm, ()) = Inr (c', ()) \<and>
     (\<forall>m < length (machines c'). get2 (machine_usage c') (m, 0) = get2 (machine_usage c') (m, 1))"
proof -
  have three: "length (jobs three_jobs) = 3"
    "\<forall>job \<in> set (jobs three_jobs). 0 < req_cpus job \<and> req_cpus job \<le> 8"
    using idle_vm_demand(1) by (simp_all add: three_jobs_def)
  then obtain c' where c': "for_each (consec_job (vm_virtuals example_yaml)) (jobs three_jobs) (idle_vm, ()) = Inr (c', ())"
    using vml.consec_jobs_go [OF idle_vm_ok(1,2) _ _ idle_vm_ok(3), of "jobs three_jobs" example_yaml "()"]
      idle_vm_demand(2) by (auto simp: idle_vm_fields size_max_def)
  from consec_never_shares [OF vmc.controller_interface_axioms c' idle_vm_ok(2)] three c'
  show ?thesis by (simp add: idle_vm_fields size_max_def)
qed

end
