(* ===== verification/Session_Properties.thy ===== *)
theory Session_Properties
  imports Main_Properties Consec_Properties
begin

section \<open>A whole run of the program\<close>

text \<open>
  \<open>main\<close> from the command line to its end, with virtual machines and the exclusive scheduler: the
  communicator connects, the controller subscribes, starts the machines, the scheduler runs the
  queue, and the machines are stopped. Its parts are proved in the theories of the components;
  here is what each leaves for the next.
\<close>

subsection \<open>The communicator while the controller is set up\<close>

text \<open>Connected, subscribed to \<open>ks\<close>, with the events \<open>evs\<close> to come.\<close>

definition quiet_in :: "mqtt_event list \<Rightarrow> string set \<Rightarrow> mqtt \<Rightarrow> bool" where
  "quiet_in evs ks m \<longleftrightarrow> ready m \<and> incoming m = evs \<and> published m = [] \<and>
     fst ` set (subscriptions m) = ks \<and> (\<forall>s \<in> snd ` set (subscriptions m). \<exists>q. s = Sub_get q [])"

lemma quiet_pending:
  assumes "quiet_in evs ks m"
  shows "subscribed m = ks" and "pending m t = (if t \<in> ks then arriving t evs else [])"
proof -
  have get: "map_of (subscriptions m) t = Some s \<Longrightarrow> \<exists>q. s = Sub_get q []" for t s
    using assms by (force simp: quiet_in_def dest: map_of_SomeD)
  show s: "subscribed m = ks"
    using assms get unfolding subscribed_def quiet_in_def
    by (auto dest: map_of_SomeD) (metis fst_conv image_eqI map_of_eq_None_iff not_None_eq)+
  have "queue_of m t = []" using get [of t] by (cases "map_of (subscriptions m) t") (auto simp: queue_of_def)
  then show "pending m t = (if t \<in> ks then arriving t evs else [])"
    using assms by (simp add: pending_def s quiet_in_def)
qed

lemma add_subscription_quiet:
  assumes "quiet_in evs ks m" and "plain_topic t"
  shows "\<exists>m'. add_subscription t q m = Inr m' \<and> quiet_in evs (insert t ks) m'"
  using assms
  by (auto simp: add_subscription_def add_subscription_of_def Let_def quiet_in_def ready_def in_service_def
      mosq_call_def next_rc_def emplace_def map_of_eq_None_iff)

lemma add_subscriptions_quiet:
  assumes "quiet_in evs ks m" and "\<forall>mach \<in> set ms. plain_topic (f mach)"
  shows "\<exists>m'. for_each (\<lambda>mach. add_subscription (f mach) q) ms m = Inr m' \<and> quiet_in evs (ks \<union> f ` set ms) m'"
  using assms
proof (induction ms arbitrary: ks m)
  case (Cons mach ms)
  from add_subscription_quiet [OF Cons.prems(1), of "f mach" q] Cons.prems(2) obtain m1 where
    m1: "add_subscription (f mach) q m = Inr m1" "quiet_in evs (insert (f mach) ks) m1" by auto
  from Cons.IH [OF m1(2)] Cons.prems(2) m1(1) show ?case by auto
qed auto

lemma add_both_quiet:
  assumes "quiet_in evs ks m" and "\<forall>mach \<in> set ms. plain_topic (f mach) \<and> plain_topic (g mach)"
  shows "\<exists>m'. for_each (\<lambda>mach cm. rbind (add_subscription (f mach) q cm) (add_subscription (g mach) q)) ms m = Inr m' \<and>
    quiet_in evs (ks \<union> f ` set ms \<union> g ` set ms) m'"
  using assms
proof (induction ms arbitrary: ks m)
  case (Cons mach ms)
  from add_subscription_quiet [OF Cons.prems(1), of "f mach" q] Cons.prems(2) obtain m1 where
    m1: "add_subscription (f mach) q m = Inr m1" "quiet_in evs (insert (f mach) ks) m1" by auto
  from add_subscription_quiet [OF m1(2), of "g mach" q] Cons.prems(2) obtain m2 where
    m2: "add_subscription (g mach) q m1 = Inr m2" "quiet_in evs (insert (g mach) (insert (f mach) ks)) m2" by auto
  from Cons.IH [OF m2(2)] Cons.prems(2) m1(1) m2(1) show ?case by (auto simp: insert_commute)
qed auto

lemma open_communicator_quiet:
  assumes "no_disconnect evs" and "plain_topic t"
  shows "\<exists>m. open_communicator t p (Ev_connect 0 # evs) [] = Inr m \<and> quiet_in evs {t} m"
proof -
  let ?m = "(new_communicator p evs [])\<lparr>connected := True\<rparr>"
  have "await_connected False (Ev_connect 0 # evs) (new_communicator p (Ev_connect 0 # evs) []) = Inr ?m"
    by (simp add: await_connected.simps new_communicator_def on_connect_def)
  then have "open_communicator t p (Ev_connect 0 # evs) [] = add_subscription t 2 (?m\<lparr>default_subscribe_topic := t\<rparr>)"
    by (simp add: open_communicator_def mosq_call_def next_rc_def connect_to_broker_def resubscribe_def)
      (simp add: new_communicator_def resubscribe_def)
  moreover have "quiet_in evs {} (?m\<lparr>default_subscribe_topic := t\<rparr>)"
    using assms(1) by (simp add: quiet_in_def ready_def in_service_def new_communicator_def)
  ultimately show ?thesis using add_subscription_quiet assms(2) by auto
qed

text \<open>A later subscription leaves what is pending.\<close>

lemma add_subscription_ready:
  assumes "ready m" and "plain_topic t"
  shows "\<exists>m'. add_subscription t q m = Inr m' \<and> ready m' \<and> published m' = published m \<and>
    (\<forall>u \<in> subscribed m. u \<in> subscribed m' \<and> pending m' u = pending m u)"
  using assms
  by (auto simp: add_subscription_def add_subscription_of_def Let_def ready_def in_service_def
      mosq_call_def next_rc_def emplace_def map_of_eq_None_iff subscribed_def pending_def queue_of_def
      map_add_def split: option.splits) force+

lemma add_subscriptions_ready:
  assumes "ready m" and "\<forall>mach \<in> set ms. plain_topic (f mach)"
  shows "\<exists>m'. for_each (\<lambda>mach. add_subscription (f mach) q) ms m = Inr m' \<and> ready m' \<and> published m' = published m \<and>
    (\<forall>u \<in> subscribed m. u \<in> subscribed m' \<and> pending m' u = pending m u)"
  using assms
proof (induction ms arbitrary: m)
  case (Cons mach ms)
  from add_subscription_ready [OF Cons.prems(1), of "f mach" q] Cons.prems(2) obtain m1 where
    m1: "add_subscription (f mach) q m = Inr m1" "ready m1" "published m1 = published m"
    "\<forall>u \<in> subscribed m. u \<in> subscribed m1 \<and> pending m1 u = pending m u" by auto
  from Cons.IH [OF m1(2)] Cons.prems(2) m1 show ?case by auto
qed auto

lemma plain_topics:
  assumes "plain_topic mach"
  shows "plain_topic (task_topic mach)" and "plain_topic (result_topic mach)"
    and "plain_topic (distgen_response_topic mach)"
  using assms
  by (auto simp: plain_topic_def task_topic_def result_topic_def distgen_response_topic_def
      pattern_of_char_def regex_operators_def)

subsection \<open>The new controller\<close>

text \<open>The controller as it is constructed, for the machines \<open>ms\<close>.\<close>

definition new_controller :: "string list \<Rightarrow> vm_controllerT \<Rightarrow> bool" where
  "new_controller ms c \<longleftrightarrow> machines c = ms \<and> available_slots c = length ms \<and>
     machine_usage c = replicate (length ms) [size_max, size_max] \<and> id_to_config c = [] \<and> id_to_job c = [] \<and>
     cmd_counter c = 0 \<and> thread_pool c = [] \<and> id_to_tpool c = [] \<and> timers (timestamps c) = [] \<and>
     vm_locations c = [] \<and> vm_pool c = glob_vm_pool"

lemma new_controller_ok:
  assumes "quiet_in evs ks cm" and "read_file file [] = Inr ms" and "\<forall>mach \<in> set ms. plain_topic mach"
  shows "\<exists>c. vm_controller_ctor cm file sc path clk sys wake sfiles ids = Inr c \<and> new_controller ms c \<and>
    quiet_in evs (ks \<union> task_topic ` set ms \<union> result_topic ` set ms) (comm c) \<and>
    system_config c = sc \<and> system_call c = sys \<and> wakeups c = wake"
proof -
  from add_both_quiet [OF assms(1), of ms task_topic result_topic 2] assms(3) obtain m1 where
    m1: "for_each (\<lambda>mach cm. rbind (add_subscription (task_topic mach) 2 cm)
        (add_subscription (result_topic mach) 2)) ms cm = Inr m1"
      "quiet_in evs (ks \<union> task_topic ` set ms \<union> result_topic ` set ms) m1"
    by (auto simp: plain_topics)
  from add_subscriptions_quiet [OF m1(2), of ms result_topic 2] assms(3) obtain m2 where
    m2: "for_each (\<lambda>mach. add_subscription (result_topic mach) 2) ms m1 = Inr m2"
      "quiet_in evs (ks \<union> task_topic ` set ms \<union> result_topic ` set ms) m2"
    by (auto simp: plain_topics)
  show ?thesis
    using assms(2) m1(1) m2
    by (simp add: vm_controller_ctor_def controller_ctor_def controllerT.defs new_controller_def
        new_time_measurement_def)
qed

lemma new_controller_ready:
  assumes "new_controller ms c" and "\<forall>cmd. system_call c cmd \<noteq> -1"
    and "length (slots (system_config c)) = 2" and "slot_size (system_config c) = Inr sz"
    and "2 * sz * length ms \<le> size_max"
  shows "set_to_go c" and "consec_ok sz c"
proof -
  have "wf c"
    using assms(1)
    by (auto simp: new_controller_def wf_def shape_def occupied_def is_running_def in2_def get2_def size_max_def
        less_Suc_eq)
  then show "set_to_go c" "consec_ok sz c"
    using assms by (auto simp: set_to_go_def consec_ok_def paired_def paired_rows_def two_slots_def
        new_controller_def is_running_def timer_names_def)
qed

subsection \<open>What running the queue leaves alone\<close>

definition same_hosts :: "'z controllerT_scheme \<Rightarrow> 'z controllerT_scheme \<Rightarrow> bool" where
  "same_hosts c c' \<longleftrightarrow> comm c' = comm c \<and> machines c' = machines c"

lemma same_hosts_refl: "same_hosts c c"
  by (simp add: same_hosts_def)

lemma same_hosts_trans: "same_hosts a b \<Longrightarrow> same_hosts b c \<Longrightarrow> same_hosts a c"
  by (simp add: same_hosts_def)

lemma timer_hosts:
  "tick_timestamp n c = Inr c' \<Longrightarrow> same_hosts c c'" "tock_timestamp n c = Inr c' \<Longrightarrow> same_hosts c c'"
  by (auto simp: tick_timestamp_def tock_timestamp_def read_clock_def same_hosts_def)

lemma vm_thread_hosts:
  assumes "run_thread (vm_virtuals Y) callback t (c, s) = Inr (c', s')"
  shows "same_hosts c c'"
  using assms
  by (auto simp: run_thread_def execute_command_internal_def Let_def vm_virtuals_def vm_delete_domain_def
      set_thread_state_def same_hosts_def split: if_splits dest!: timer_hosts)

lemma vm_wait_hosts:
  assumes "wait_until (vm_virtuals Y) callback pred (c, s) = Inr (c', s')"
  shows "same_hosts c c'"
proof -
  have "same_hosts c (fst (c', s'))"
  proof (rule wait_until_keep [OF assms, where P = "\<lambda>st. same_hosts c (fst st)"])
    fix t st st'
    assume "same_hosts c (fst st)" "run_thread (vm_virtuals Y) callback t st = Inr st'"
    then show "same_hosts c (fst st')"
      using vm_thread_hosts same_hosts_trans by (cases st, cases st') fastforce
  qed (auto simp: same_hosts_def)
  then show ?thesis by simp
qed

lemma vm_execute_hosts:
  assumes "execute (vm_virtuals Y) job cfg c = Inr (i, c')"
  shows "same_hosts c c'"
  using assms
  by (auto simp: execute_def Let_def vm_virtuals_def vm_create_domain_def same_hosts_def dest!: vm_command_state)

lemma consec_job_hosts:
  assumes "consec_job (vm_virtuals Y) job (c, s) = Inr (c', s')"
  shows "same_hosts c c'"
  using assms
  by (auto simp: consec_job_def Let_def wait_for_ressource_def
      dest!: vm_wait_hosts vm_execute_hosts intro: same_hosts_trans)

lemma consec_schedule_hosts:
  assumes "consec_schedule (vm_virtuals Y) q (c, s) = Inr (c', s')"
  shows "same_hosts c c'"
proof -
  from assms obtain c1 s1 where q: "for_each (consec_job (vm_virtuals Y)) (jobs q) (c, s) = Inr (c1, s1)"
    "controller_done (vm_virtuals Y) consec_command_done (c1, s1) = Inr (c', s')"
    by (auto simp: consec_schedule_def)
  have "same_hosts c (fst (c1, s1))"
  proof (rule for_each_invariant [OF q(1), of "\<lambda>st. same_hosts c (fst st)"])
    fix job st st'
    assume "same_hosts c (fst st)" "consec_job (vm_virtuals Y) job st = Inr st'"
    then show "same_hosts c (fst st')"
      using consec_job_hosts same_hosts_trans by (cases st, cases st') fastforce
  qed (simp add: same_hosts_refl)
  moreover from q(2) obtain c2 where "same_hosts c1 c2" "c' = c2\<lparr>done_called := True\<rparr>"
    by (auto simp: controller_done_def dest: vm_wait_hosts)
  ultimately show ?thesis by (simp add: same_hosts_def)
qed

subsection \<open>Starting the machines\<close>

text \<open>
  What the hosts answer among the events: the first three results of every host are success, for
  the stop at the beginning, the start and the stop at the end. After \<open>k\<close> of them \<open>later_mail\<close>
  is left.
\<close>

definition hosts_answer :: "yaml_lib \<Rightarrow> mqtt_event list \<Rightarrow> string list \<Rightarrow> bool" where
  "hosts_answer Y evs ms \<longleftrightarrow> (\<forall>mach \<in> set ms. 3 \<le> length (arriving (result_topic mach) evs) \<and>
     (\<forall>p \<in> set (take 3 (arriving (result_topic mach) evs)). success_reply Y p))"

definition later_mail :: "mqtt_event list \<Rightarrow> string set \<Rightarrow> string list \<Rightarrow> nat \<Rightarrow> string \<Rightarrow> string list" where
  "later_mail evs ks ms k t =
     (if t \<in> result_topic ` set ms then drop k (arriving t evs) else if t \<in> ks then arriving t evs else [])"

lemma later_mail_next:
  assumes "hosts_answer Y evs ms" and "mach \<in> set ms" and "k < 3"
  shows "\<exists>p. success_reply Y p \<and> later_mail evs ks ms k (result_topic mach) =
    p # later_mail evs ks ms (Suc k) (result_topic mach)"
proof -
  let ?a = "arriving (result_topic mach) evs"
  have len: "k < length ?a" using assms by (fastforce simp: hosts_answer_def)
  have "?a ! k \<in> set (take 3 ?a)" using len assms(3) by (auto simp: in_set_conv_nth intro!: exI [of _ k])
  then have "success_reply Y (?a ! k)" using assms(1,2) by (simp add: hosts_answer_def)
  then show ?thesis using assms(2) len by (auto simp: later_mail_def Cons_nth_drop_Suc)
qed

lemma later_mail_other: "t \<notin> result_topic ` set ms \<Longrightarrow> later_mail evs ks ms k t = later_mail evs ks ms k' t"
  by (simp add: later_mail_def)

lemma hosts_mail_ready:
  assumes "hosts_answer Y evs ms" and "distinct ms" and "k < 3" and "ready m"
    and "result_topic ` set ms \<subseteq> subscribed m"
    and "\<forall>t \<in> result_topic ` set ms. pending m t = later_mail evs ks ms k t"
  shows "mail_ready Y ms [0..<length ms] m
    (\<lambda>t. if t \<in> result_topic ` set ms then later_mail evs ks ms (Suc k) t else pending m t)"
proof -
  have "(\<lambda>k. result_topic (ms ! k)) ` set [0..<length ms] = result_topic ` set ms"
    by (force simp: in_set_conv_nth image_iff)
  then show ?thesis
    using assms(2,4-6) later_mail_next [OF assms(1) _ assms(3), of _ ks] unfolding mail_ready_def by auto
qed

text \<open>After \<open>init\<close>: the machines are known for every slot, and the answers to it are read.\<close>

lemma session_init:
  assumes "new_controller ms c" and "quiet_in evs ks (comm c)" and "result_topic ` set ms \<subseteq> ks"
    and "distinct ms" and "hosts_answer Y evs ms" and "slots_per_machine c = 2" and "2 * length ms \<le> 80"
  shows "\<exists>c1 starts. vm_init Y c = Inr c1 \<and> book c1 = book c \<and> timestamps c1 = timestamps c \<and>
    usable_all vm_usable c1 \<and> ready (comm c1) \<and> subscribed (comm c1) = ks \<and>
    (\<forall>t \<in> result_topic ` set ms. pending (comm c1) t = later_mail evs ks ms 2 t) \<and>
    map fst starts = map task_topic ms \<and>
    published (comm c1) = map (\<lambda>mach. (task_topic mach, to_string Y stop_all_message)) ms @ starts"
proof -
  have c: "machines c = ms" "vm_locations c = []" "vm_pool c = glob_vm_pool"
    "machine_usage c = replicate (length ms) [size_max, size_max]"
    using assms(1) by (simp_all add: new_controller_def)
  have m: "ready (comm c)" "subscribed (comm c) = ks" "published (comm c) = []"
    "\<And>t. pending (comm c) t = later_mail evs ks ms 0 t"
    using assms(2,3) quiet_pending [OF assms(2)] by (auto simp: quiet_in_def later_mail_def)
  let ?rest = "\<lambda>k t. if t \<in> result_topic ` set ms then later_mail evs ks ms k t else pending (comm c) t"
  have "mail_ready Y ms [0..<length ms] (comm c) (?rest 1)"
    using hosts_mail_ready [OF assms(5,4) _ m(1), of 0 ks] assms(3) m(2,4) by (simp only: One_nat_def) simp
  moreover have "\<forall>mach \<in> set ms. \<exists>p. success_reply Y p \<and>
      ?rest 1 (result_topic mach) = p # ?rest 2 (result_topic mach)"
    using later_mail_next [OF assms(5), of _ 1 ks] by (simp add: numeral_2_eq_2)
  moreover have "\<forall>t. t \<notin> result_topic ` set ms \<longrightarrow> ?rest 1 t = ?rest 2 t" by simp
  ultimately have "two_replies Y c (?rest 2)" unfolding two_replies_def c(1) by blast
  from vm_init_ok [OF _ _ this] assms(6,7) c glob_pool_size obtain m1 where
    m1: "vm_init Y c = Inr ((taken c (length ms * 2))\<lparr>comm := m1, vm_locations := map (names_of c 2) [0..<length ms]\<rparr>)"
      "ready m1" "subscribed m1 = ks" "pending m1 = ?rest 2"
      "published m1 = map (\<lambda>mach. (task_topic mach, to_string Y stop_all_message)) ms @
        map (start_of Y c 2 ms) [0..<length ms]"
    using m(2,3) by auto
  have "length (names_of c 2 k) = 2" if "k < length ms" for k
    using that assms(7) c(3) glob_pool_size by (intro length_names) simp
  then have "usable_all vm_usable ((taken c (length ms * 2))\<lparr>comm := m1,
      vm_locations := map (names_of c 2) [0..<length ms]\<rparr>)"
    by (auto simp: usable_all_def vm_usable_def taken_def c in2_def)
  moreover have "map fst (map (start_of Y c 2 ms) [0..<length ms]) = map task_topic ms"
    by (intro nth_equalityI) (simp_all add: start_of_def)
  ultimately show ?thesis
    using m1 by (intro exI conjI) (auto simp: taken_def book_def)
qed

lemma vm_threads_hosts:
  assumes "for_each (run_thread (vm_virtuals Y) callback) ts (c, s) = Inr (c', s')"
  shows "same_hosts c c'"
proof -
  have "same_hosts c (fst (c', s'))"
  proof (rule run_threads_keep [OF assms, where P = "\<lambda>st. same_hosts c (fst st)"])
    fix t st st'
    assume "same_hosts c (fst st)" "run_thread (vm_virtuals Y) callback t st = Inr st'"
    then show "same_hosts c (fst st')"
      using vm_thread_hosts same_hosts_trans by (cases st, cases st') fastforce
  qed (simp add: same_hosts_refl)
  then show ?thesis by simp
qed

lemma vm_join_loop_hosts:
  "join_loop t (run_thread (vm_virtuals Y) callback) wake (c, s) = Inr (c', s') \<Longrightarrow> same_hosts c c'"
proof (induction wake arbitrary: c s)
  case Nil
  then show ?case
    by (subst (asm) join_loop.simps)
      (auto simp: set_thread_state_def same_hosts_def split: if_splits thread_state.splits)
next
  case (Cons ts wake)
  show ?case
  proof (cases "worker_state (thread_pool c ! t)")
    case Running
    with Cons.prems obtain c1 s1 where st:
      "for_each (run_thread (vm_virtuals Y) callback) ts (c, s) = Inr (c1, s1)"
      "join_loop t (run_thread (vm_virtuals Y) callback) wake (c1, s1) = Inr (c', s')"
      by (subst (asm) join_loop.simps) (auto split: if_splits)
    show ?thesis by (rule same_hosts_trans [OF vm_threads_hosts [OF st(1)] Cons.IH [OF st(2)]])
  qed (use Cons.prems in \<open>auto simp: join_loop.simps [of _ _ "ts # wake"] set_thread_state_def same_hosts_def
      split: if_splits\<close>)
qed

lemma vm_join_hosts:
  assumes "join_if_joinable (vm_virtuals Y) callback t (c, s) = Inr (c', s')"
  shows "same_hosts c c'"
  using assms vm_join_loop_hosts
  by (auto simp: join_if_joinable_def same_hosts_refl split: if_splits)

subsection \<open>From the start of the machines to the end\<close>

lemma book_go:
  assumes "book c' = book c" and "timestamps c' = timestamps c"
  shows "set_to_go c' = set_to_go c" and "consec_ok sz c' = consec_ok sz c"
  using book_wf [OF assms(1)] is_running_cong [of c' c] assms
  by (simp_all add: set_to_go_def consec_ok_def paired_def two_slots_def book_def)

lemma session_stops:
  assumes "wf c" and "done_called c" and "\<forall>j. \<not> is_running c j"
    and "mail_ready Y (machines c) [0..<length (machines c)] (comm c) rest"
  shows "\<exists>c1 c2. vm_dismantle Y c = Inr c1 \<and>
    controller_dtor (vm_virtuals Y) callback (c1, s) = Inr (c2, s) \<and> published (comm c2) = published (comm c) @
      map (\<lambda>mach. (task_topic mach, to_string Y stop_all_message)) (machines c)"
proof -
  from stop_all_ok [OF assms(4)] obtain m where m: "stop_all_VMs Y c = Inr (c\<lparr>comm := m\<rparr>)"
    "published m = published (comm c) @ map (\<lambda>mach. (task_topic mach, to_string Y stop_all_message)) (machines c)"
    by blast
  let ?c = "c\<lparr>comm := m\<rparr>"
  have "\<forall>t < length (thread_pool ?c). worker_state (thread_pool ?c ! t) \<noteq> Running"
    using assms(3) by (auto simp: is_running_def)
  from joins_ok [OF this le_refl, of "vm_virtuals Y" callback s] obtain c2 where c2:
    "for_each (join_if_joinable (vm_virtuals Y) callback) [0..<length (thread_pool ?c)] (?c, s) = Inr (c2, s)"
    by blast
  have "comm c2 = m"
  proof -
    have "comm (fst (c2, s)) = m"
    proof (rule for_each_invariant [OF c2, of "\<lambda>st. comm (fst st) = m"])
      fix t st st'
      assume "comm (fst st) = m" "join_if_joinable (vm_virtuals Y) callback t st = Inr st'"
      then show "comm (fst st') = m"
        using vm_join_hosts [of Y callback t "fst st" "snd st" "fst st'" "snd st'"] by (simp add: same_hosts_def)
    qed simp
    then show ?thesis by simp
  qed
  with m c2 assms(2) show ?thesis
    by (intro exI [of _ ?c] exI [of _ "c2\<lparr>thread_pool := []\<rparr>"]) (simp add: vm_dismantle_def controller_dtor_def)
qed

text \<open>The timers of \<open>main\<close>: all four are there, in the order they were started, and stopped.\<close>

definition timers_closed :: "time_measurement \<Rightarrow> bool" where
  "timers_closed tm \<longleftrightarrow> map fst (timers tm) = [''Total time'', ''Start time'', ''Runtime'', ''Stop time''] \<and>
     running_timers tm = []"

lemma main_timers:
  "\<exists>t1 t2 t3 t4 t5 t6 t7 t8.
     tick n1 ''Total time'' (new_time_measurement True ''timestamps'' n0) = Inr t1 \<and>
     tick n2 ''Start time'' t1 = Inr t2 \<and> tock n3 ''Start time'' t2 = Inr t3 \<and>
     tick n4 ''Runtime'' t3 = Inr t4 \<and> tock n5 ''Runtime'' t4 = Inr t5 \<and>
     tick n6 ''Stop time'' t5 = Inr t6 \<and> tock n7 ''Stop time'' t6 = Inr t7 \<and>
     tock n8 ''Total time'' t7 = Inr t8 \<and> timers_closed t8"
  by (simp add: tick_def tock_def new_time_measurement_def new_timer_def timer_start_def timer_stop_def
      timers_closed_def running_timers_def)

lemma session_runs:
  assumes "new_controller ms c" and "quiet_in evs ks (comm c)" and "result_topic ` set ms \<subseteq> ks"
    and "distinct ms" and "\<forall>mach \<in> set ms. plain_topic mach" and "hosts_answer Y evs ms"
    and "slots_per_machine c = 2" and "slot_size (system_config c) = Inr sz" and "2 * sz * length ms \<le> size_max"
    and "2 * length ms \<le> 80" and "\<forall>cmd. system_call c cmd \<noteq> -1" and "length (jobs q) \<le> size_max"
    and "\<forall>job \<in> set (jobs q). 0 < req_cpus job \<and> req_cpus job \<le> 2 * sz * length ms"
    and "length (jobs q) < length (wakeups c)"
    and "\<forall>ts \<in> set (wakeups c). \<forall>j < length (jobs q). j \<in> set ts"
  shows "\<exists>m tm starts. run_session E (vm_virtuals Y) (consec_schedule (vm_virtuals Y)) consec_command_done q (c, ()) =
      Inr (m, tm) \<and> timers_closed tm \<and> map fst starts = map task_topic ms \<and>
    published m = map (\<lambda>mach. (task_topic mach, to_string Y stop_all_message)) ms @ starts @
      map (\<lambda>mach. (task_topic mach, to_string Y stop_all_message)) ms"
proof -
  let ?V = "vm_virtuals Y" and ?stops = "map (\<lambda>mach. (task_topic mach, to_string Y stop_all_message)) ms"
  have ms: "machines c = ms" "cmd_counter c = 0" using assms(1) by (simp_all add: new_controller_def)
  from session_init [OF assms(1-4,6,7,10)] obtain c1 starts where
    c1: "vm_init Y c = Inr c1" "book c1 = book c" "timestamps c1 = timestamps c" "usable_all vm_usable c1"
      "ready (comm c1)" "subscribed (comm c1) = ks"
      "\<forall>t \<in> result_topic ` set ms. pending (comm c1) t = later_mail evs ks ms 2 t"
      "map fst starts = map task_topic ms" "published (comm c1) = ?stops @ starts" by blast
  have m1: "machines c1 = ms" "cmd_counter c1 = 0" "wakeups c1 = wakeups c"
    using c1(2) ms by (simp_all add: book_def)
  from add_subscriptions_ready [OF c1(5), of ms distgen_response_topic 2] assms(5) obtain m where
    m: "for_each (\<lambda>mach. add_subscription (distgen_response_topic mach) 2) ms (comm c1) = Inr m" "ready m"
      "published m = published (comm c1)" "\<forall>u \<in> ks. u \<in> subscribed m \<and> pending m u = pending (comm c1) u"
    using c1(6) by (auto simp: plain_topics)
  let ?c2 = "c1\<lparr>comm := m\<rparr>"
  have book2: "book ?c2 = book c" "timestamps ?c2 = timestamps c" using c1(2,3) by (simp_all add: book_def)
  have "usable_all vm_usable ?c2" using c1(4) by (simp add: usable_all_def vm_usable_def)
  with vml.consec_schedule_goes [of ?c2 sz q Y "()"] book_go [OF book2] new_controller_ready [OF assms(1,11,7,8,9)]
    assms(12-15) m1
  obtain c3 where c3: "consec_schedule ?V q (?c2, ()) = Inr (c3, ())" "wf c3" "done_called c3"
    "\<forall>j. \<not> is_running c3 j" by auto
  have h3: "comm c3 = m" "machines c3 = ms"
    using consec_schedule_hosts [OF c3(1)] m1(1) by (simp_all add: same_hosts_def)
  have "mail_ready Y ms [0..<length ms] m
      (\<lambda>t. if t \<in> result_topic ` set ms then later_mail evs ks ms (Suc 2) t else pending m t)"
    using m(2,4) c1(7) assms(3) by (intro hosts_mail_ready [OF assms(6,4)]) auto
  then have "mail_ready Y (machines c3) [0..<length (machines c3)] (comm c3)
      (\<lambda>t. if t \<in> result_topic ` set ms then later_mail evs ks ms (Suc 2) t else pending m t)"
    by (simp only: h3)
  from session_stops [OF c3(2-4) this, of consec_command_done "()"] obtain c4 c5 where
    c4: "vm_dismantle Y c3 = Inr c4" "controller_dtor ?V consec_command_done (c4, ()) = Inr (c5, ())"
      "published (comm c5) = published (comm c3) @ map (\<lambda>mach. (task_topic mach, to_string Y stop_all_message)) (machines c3)"
    by blast
  have pub: "published (comm c5) = ?stops @ starts @ ?stops" using c4(3) m(3) c1(9) by (simp only: h3) simp
  have V: "init ?V = vm_init Y" "dismantle ?V = vm_dismantle Y" by (simp_all add: vm_virtuals_def)
  have "subscribe_responses c1 = Inr ?c2" using m(1) m1(1) by (simp add: subscribe_responses_def)
  moreover obtain t1 t2 t3 t4 t5 t6 t7 t8 where
    "tick (env_timer E 1) ''Total time'' (new_time_measurement True ''timestamps'' (env_timer E 0)) = Inr t1"
    "tick (env_timer E 2) ''Start time'' t1 = Inr t2" "tock (env_timer E 3) ''Start time'' t2 = Inr t3"
    "tick (env_timer E 4) ''Runtime'' t3 = Inr t4" "tock (env_timer E 5) ''Runtime'' t4 = Inr t5"
    "tick (env_timer E 6) ''Stop time'' t5 = Inr t6" "tock (env_timer E 7) ''Stop time'' t6 = Inr t7"
    "tock (env_timer E 8) ''Total time'' t7 = Inr t8" and tm: "timers_closed t8"
    using main_timers by metis
  ultimately have "run_session E ?V (consec_schedule ?V) consec_command_done q (c, ()) = Inr (comm c5, t8)"
    unfolding run_session_def V Let_def using c1(1) c3(1) c4(1,2)
    by (simp only: prod.case rbind.simps)
  with c1(8) pub tm show ?thesis by (intro exI [of _ "comm c5"] exI [of _ t8] exI [of _ starts]) simp
qed

subsection \<open>The program\<close>

text \<open>
  A cluster that works: the broker accepts the connection and keeps it, every host answers, no
  call of the system fails, and the pool has a machine for every slot.
\<close>

definition cluster_works :: "environment \<Rightarrow> string list \<Rightarrow> bool" where
  "cluster_works E ms \<longleftrightarrow> distinct ms \<and> (\<forall>mach \<in> set ms. plain_topic mach) \<and> 2 * length ms \<le> 80 \<and>
     env_rcs E = [] \<and> (\<forall>cmd. env_system E cmd \<noteq> -1) \<and>
     (\<exists>evs. env_events E = Ev_connect 0 # evs \<and> no_disconnect evs \<and> hosts_answer (env_yaml E) evs ms)"

text \<open>
  A queue that can be run on \<open>k\<close> machines with two slots of \<open>sz\<close> processors: every job fits, and
  there is one more wake-up than jobs, each letting everything that runs finish.
\<close>

definition queue_fits :: "environment \<Rightarrow> job_queueT \<Rightarrow> nat \<Rightarrow> nat \<Rightarrow> bool" where
  "queue_fits E q sz k \<longleftrightarrow> 2 * sz * k \<le> size_max \<and> length (jobs q) \<le> size_max \<and>
     (\<forall>job \<in> set (jobs q). 0 < req_cpus job \<and> req_cpus job \<le> 2 * sz * k) \<and>
     length (jobs q) < length (env_wakeups E) \<and>
     (\<forall>ts \<in> set (env_wakeups E). \<forall>j < length (jobs q). j \<in> set ts)"

text \<open>
  C2: with virtual machines and the exclusive scheduler the program runs to its end: when the
  options are accepted, the three files are read, the cluster works and the jobs fit it, \<open>main\<close>
  returns. The hosts were told, each once and in this order, to stop everything, to start the machines
  of their slots, and to stop everything again; all four timers are stopped.
\<close>

theorem main_completes:
  assumes "parse_options args = Inr (Some o')" and "opt_use_vms o'" and "opt_multi_sched_consec o'"
    and "job_queue_of_text (env_yaml E) (read_file_to_string (env_files E (opt_queue o'))) = Inr q"
    and "system_config_of_text (env_yaml E) (read_file_to_string (env_files E (opt_system_config o'))) = Inr sc"
    and "read_file (env_files E (opt_machine o')) [] = Inr ms"
    and "length (slots sc) = 2" and "slot_size sc = Inr sz" and "cluster_works E ms"
    and "queue_fits E q sz (length ms)"
  shows "\<exists>m tm starts. poncos_main E args = Inr (Some (m, tm)) \<and> timers_closed tm \<and>
    map fst starts = map task_topic ms \<and>
    published m = map (\<lambda>mach. (task_topic mach, to_string (env_yaml E) stop_all_message)) ms @ starts @
      map (\<lambda>mach. (task_topic mach, to_string (env_yaml E) stop_all_message)) ms"
proof -
  from assms(9) obtain evs where E: "distinct ms" "\<forall>mach \<in> set ms. plain_topic mach" "2 * length ms \<le> 80"
    "env_rcs E = []" "\<forall>cmd. env_system E cmd \<noteq> -1" "env_events E = Ev_connect 0 # evs" "no_disconnect evs"
    "hosts_answer (env_yaml E) evs ms" unfolding cluster_works_def by blast
  have "plain_topic ''fast/poncos''" by (simp add: plain_topic_def pattern_of_char_def regex_operators_def)
  from open_communicator_quiet [OF E(7) this, of "''fast/poncos''"] obtain cm where
    cm: "open_communicator ''fast/poncos'' ''fast/poncos'' (env_events E) (env_rcs E) = Inr cm"
      "quiet_in evs {''fast/poncos''} cm" unfolding E(4,6) by blast
  from new_controller_ok [OF cm(2) assms(6) E(2), where sc = sc and path = "opt_slot_path o'" and
      clk = "env_clock E" and sys = "env_system E" and wake = "env_wakeups E" and
      sfiles = "\<lambda>name. read_file_to_string (env_files E name)" and ids = "env_uuids E"]
  obtain c where c: "vm_controller_ctor cm (env_files E (opt_machine o')) sc (opt_slot_path o') (env_clock E)
      (env_system E) (env_wakeups E) (\<lambda>name. read_file_to_string (env_files E name)) (env_uuids E) = Inr c"
    "new_controller ms c" "quiet_in evs ({''fast/poncos''} \<union> task_topic ` set ms \<union> result_topic ` set ms) (comm c)"
    "system_config c = sc" "system_call c = env_system E" "wakeups c = env_wakeups E" by blast
  note fits = assms(10) [unfolded queue_fits_def]
  have "\<exists>m tm starts. run_session E (vm_virtuals (env_yaml E)) (consec_schedule (vm_virtuals (env_yaml E)))
      consec_command_done q (c, ()) = Inr (m, tm) \<and> timers_closed tm \<and> map fst starts = map task_topic ms \<and>
    published m = map (\<lambda>mach. (task_topic mach, to_string (env_yaml E) stop_all_message)) ms @ starts @
      map (\<lambda>mach. (task_topic mach, to_string (env_yaml E) stop_all_message)) ms"
    by (rule session_runs [OF c(2,3) _ E(1,2,8)]) (use c(4-6) assms(7,8) E(3,5) fits in auto)
  moreover have "poncos_main E args = rbind (run_session E (vm_virtuals (env_yaml E))
      (consec_schedule (vm_virtuals (env_yaml E))) consec_command_done q (c, ())) (\<lambda>r. Inr (Some r))"
    using assms(1-5) cm(1) c(1) by (simp add: poncos_main_def run_scheduler_def)
  ultimately show ?thesis by auto
qed

text \<open>Two hosts, two jobs that share the first host one after the other.\<close>

definition main_queue :: job_queueT where
  "main_queue = empty_job_queue\<lparr>jobs := [example_job, example_job]\<rparr>"

definition main_yaml :: yaml_lib where
  "main_yaml = \<lparr>dump = (\<lambda>_. ''''), parse = (\<lambda>txt.
     if txt = ''q'' then Inr (emit_job_queue main_queue)
     else if txt = ''s'' then Inr (emit_system_config example_config)
     else Inr (list_reply ''vm started'' [(''vm'', ''success'')]))\<rparr>"

definition main_environment :: environment where
  "main_environment =
     \<lparr>env_yaml = main_yaml,
      env_files = (\<lambda>name. if name = ''m'' then Some (unlines [''n1'', ''n2'']) else Some name),
      env_events = Ev_connect 0 # concat (replicate 3 [Ev_message (result_topic ''n1'') ''ok'',
        Ev_message (result_topic ''n2'') ''ok'']),
      env_rcs = [], env_clock = int, env_timer = int, env_system = (\<lambda>_. 0),
      env_wakeups = replicate 3 [0, 1], env_uuids = show_nat, env_order = id, env_sort = (\<lambda>_ xs. xs)\<rparr>"

definition main_args :: "string list" where
  "main_args = [''--vm'', ''--multi-sched-consec'', ''--queue'', ''q'', ''--machine'', ''m'',
     ''--system-config'', ''s'', ''--slot-path'', ''slots'']"

theorem main_completes_witness:
  "\<exists>m tm. poncos_main main_environment main_args = Inr (Some (m, tm)) \<and>
     map fst (published m) = concat (replicate 3 [task_topic ''n1'', task_topic ''n2''])"
proof -
  let ?E = main_environment and ?o = "default_options\<lparr>opt_use_vms := True, opt_multi_sched_consec := True,
    opt_queue := ''q'', opt_machine := ''m'', opt_system_config := ''s'', opt_slot_path := ''slots''\<rparr>"
  have files: "parse_options main_args = Inr (Some ?o)"
    by (simp add: parse_options_def main_args_def default_options_def)
  have queue: "job_queue_of_text (env_yaml ?E) (read_file_to_string (env_files ?E (opt_queue ?o))) = Inr main_queue"
    using load_written_queue [of main_queue empty_job_queue]
    by (simp add: job_queue_of_text_def main_environment_def from_string_def main_yaml_def read_file_to_string_def
        main_queue_def example_job_def job_ok_def size_max_def empty_job_queue_def)
  have config: "system_config_of_text (env_yaml ?E)
      (read_file_to_string (env_files ?E (opt_system_config ?o))) = Inr example_config"
    using load_written_config [of example_config]
    by (simp add: system_config_of_text_def main_environment_def from_string_def main_yaml_def
        read_file_to_string_def example_config_def slot_ok_def size_max_def)
  have machines: "read_file (env_files ?E (opt_machine ?o)) [] = Inr [''n1'', ''n2'']"
    using read_lines_unlines [of "[''n1'', ''n2'']" "[]" "[]"]
    by (simp add: main_environment_def read_file_def no_break_def kept_lines_def trim_def ltrim_def rtrim_def
        is_space_def first_char_def read_lines.simps [of "[]"] getline_def)
  have "success_reply main_yaml ''ok''"
    by (simp add: success_reply_def result_container_from_string_def from_string_def main_yaml_def
        load_list_reply all_success_def result_of_def)
  then have works: "cluster_works ?E [''n1'', ''n2'']"
    by (simp add: cluster_works_def main_environment_def plain_topic_def pattern_of_char_def regex_operators_def
        no_disconnect_def hosts_answer_def numeral_3_eq_3)
  have fits: "queue_fits ?E main_queue 2 (length [''n1'', ''n2''])"
    using idle_vm_demand(1)
    by (auto simp: queue_fits_def main_queue_def main_environment_def size_max_def less_Suc_eq)
  have sc: "length (slots example_config) = 2" "slot_size example_config = Inr 2"
    by (simp_all add: example_config_def slot_size_def)
  have flags: "opt_use_vms ?o" "opt_multi_sched_consec ?o" by simp_all
  from main_completes [OF files flags queue config machines sc works fits] obtain m tm starts where
    "poncos_main ?E main_args = Inr (Some (m, tm))" "map fst starts = map task_topic [''n1'', ''n2'']"
    "published m = map (\<lambda>mach. (task_topic mach, to_string (env_yaml ?E) stop_all_message)) [''n1'', ''n2''] @
      starts @ map (\<lambda>mach. (task_topic mach, to_string (env_yaml ?E) stop_all_message)) [''n1'', ''n2'']"
    by blast
  then show ?thesis by (auto simp: numeral_3_eq_3)
qed

end
