(* ===== verification/Two_App_Properties.thy ===== *)
theory Two_App_Properties
  imports Scheduler_Two_App Consec_Properties
begin

section \<open>Properties of the scheduler for two applications\<close>

text \<open>
  The scheduler keeps one flag and one measurement for each of the two slots. When a job ends,
  \<open>command_done\<close> takes the id of the job for the number of its slot, so the end of the third
  job writes behind both vectors: a queue with more than two jobs is not run to its end.
\<close>

text \<open>What holds while the queue is run: the jobs after the second have not ended.\<close>

definition two_app_inv :: "'z controllerT_scheme \<times> two_app_sched \<Rightarrow> bool" where
  "two_app_inv st \<longleftrightarrow> wf (fst st) \<and> length (co_config_in_use (snd st)) = 2 \<and>
     length (co_config_distgend (snd st)) = 2 \<and> length (slots (system_config (fst st))) = 2 \<and>
     (\<forall>j. 2 \<le> j \<and> j < cmd_counter (fst st) \<longrightarrow> is_running (fst st) j)"

lemma two_app_inv_fields [simp]:
  "two_app_inv (c\<lparr>wakeups := w\<rparr>, s) = two_app_inv (c, s)"
  "two_app_inv (c\<lparr>lock_owned := l\<rparr>, s) = two_app_inv (c, s)"
  using is_running_cong [of "c\<lparr>wakeups := w\<rparr>" c] is_running_cong [of "c\<lparr>lock_owned := l\<rparr>" c]
  by (simp_all add: two_app_inv_def)

lemma two_app_inv_book: "book c' = book c \<Longrightarrow> two_app_inv (c', s) = two_app_inv (c, s)"
  using book_wf [of c' c] book_fields(5,6,8) [of c' c] is_running_cong [of c' c]
  by (simp add: two_app_inv_def)

context controller_interface
begin

lemma two_app_thread:
  assumes "two_app_inv st" and "run_thread V two_app_command_done t st = Inr st'"
  shows "two_app_inv st'" and "cmd_counter (fst st') = cmd_counter (fst st)"
proof -
  obtain c s c' s' where st: "st = (c, s)" "st' = (c', s')" by (cases st, cases st')
  have wf: "wf c" using assms(1) st by (simp add: two_app_inv_def)
  have "two_app_inv st' \<and> cmd_counter c' = cmd_counter c"
  proof (cases "is_running c t")
    case False
    with assms st show ?thesis by (simp add: run_thread_def)
  next
    case True
    have "run_thread V two_app_command_done t (c, s) = Inr (c', s')" using assms(2) st by simp
    note fin = run_thread_finished [OF wf True this]
    from fin(11) obtain c1 :: "'z controllerT_scheme" where "two_app_command_done t c1 s = Inr s'" by blast
    then have "t < 2" "length (co_config_in_use s') = 2" "length (co_config_distgend s') = 2"
      using assms(1) st by (auto simp: two_app_command_done_def two_app_inv_def)
    with fin(1,2,6,8) assms(1) st show ?thesis by (simp add: two_app_inv_def)
  qed
  with st show "two_app_inv st'" "cmd_counter (fst st') = cmd_counter (fst st)" by simp_all
qed

lemma two_app_wait:
  assumes "wait_until V two_app_command_done pred st = Inr st'" and "two_app_inv st"
  shows "two_app_inv st' \<and> cmd_counter (fst st') = cmd_counter (fst st)"
  by (rule wait_until_keep [OF assms(1), where P = "\<lambda>st'. two_app_inv st' \<and> cmd_counter (fst st') = cmd_counter (fst st)"])
    (use assms(2) two_app_thread in auto)

lemma two_app_place:
  assumes "place_job V job st = Inr ((new_slot, i), st')" and "two_app_inv st"
    and "cmd_counter (fst st) < size_max"
  shows "two_app_inv st' \<and> cmd_counter (fst st') = Suc (cmd_counter (fst st))"
proof -
  obtain c s c' s' where st: "st = (c, s)" "st' = (c', s')" by (cases st, cases st')
  from assms(1) st obtain us cfg where pl: "vec_set (co_config_in_use s) new_slot True = Inr us"
    "execute V job cfg c = Inr (i, c')" "s' = s\<lparr>co_config_in_use := us\<rparr>"
    by (auto simp: place_job_def split: option.splits)
  have wf: "wf c" "cmd_counter c < size_max" using assms(2,3) st by (simp_all add: two_app_inv_def)
  note ex = execute_started [OF wf pl(2)]
  from ex(1-4,11) pl(1,3) assms(2) st show ?thesis by (auto simp: two_app_inv_def less_Suc_eq)
qed

lemma two_app_measure_inv:
  assumes "two_app_measure Y V new_slot i st = Inr st'" and "two_app_inv st"
  shows "two_app_inv st' \<and> cmd_counter (fst st') = cmd_counter (fst st)"
proof -
  obtain c s c' s' where st: "st = (c, s)" "st' = (c', s')" by (cases st, cases st')
  from assms(1) st obtain b c1 temp d ds where m: "both_in_use s = Inr b"
    "(if b then freeze_opposing Y V i c else Inr c) = Inr c1" "run_distgen Y i c1 = Inr (temp, c')"
    "vec_set (co_config_distgend s) new_slot d = Inr ds" "s' = s\<lparr>co_config_distgend := ds\<rparr>"
    by (auto simp: two_app_measure_def)
  have "book c1 = book c" using m(2) by (auto split: if_splits dest: freeze_opposing_book)
  with run_distgen_book [OF m(3)] have bk: "book c' = book c" by simp
  have "two_app_inv (c', s') = two_app_inv (c', s)" using m(4,5) by (auto simp: two_app_inv_def)
  with two_app_inv_book [OF bk, of s] assms(2) st book_fields(6) [OF bk] show ?thesis by simp
qed

lemma two_app_decide_inv:
  assumes "two_app_decide Y V job i st = Inr st'" and "two_app_inv st"
  shows "two_app_inv st' \<and> cmd_counter (fst st') = cmd_counter (fst st)"
proof -
  obtain c s c' s' where st: "st = (c, s)" "st' = (c', s')" by (cases st, cases st')
  from assms(1) st consider "st' = st" | c1 where "thaw_opposing Y V i c = Inr c1" "c' = c1" "s' = s"
    | c1 c2 c3 where "thaw_opposing Y V i c = Inr c1" "freeze Y V i c1 = Inr c2"
        "wait_for_ressource V two_app_command_done (req_cpus job) 1 (c2, s) = Inr (c3, s')"
        "thaw Y V i c3 = Inr c'"
    by (auto simp: two_app_decide_def split: if_splits)
  then show ?thesis
  proof cases
    case 1
    with assms(2) show ?thesis by simp
  next
    case 2
    have "book c' = book c" using thaw_opposing_book [OF 2(1)] 2(2) by simp
    with two_app_inv_book [OF this, of s] book_fields(6) [OF this] assms(2) st 2(3) show ?thesis by simp
  next
    case 3
    have b2: "book c2 = book c" using thaw_opposing_book [OF 3(1)] freeze_book [OF 3(2)] by simp
    have "two_app_inv (c2, s)" using two_app_inv_book [OF b2] assms(2) st by simp
    from two_app_wait [OF 3(3) [unfolded wait_for_ressource_def] this] b2
    have "two_app_inv (c3, s')" "cmd_counter c3 = cmd_counter c" by (auto dest: book_fields(6))
    with two_app_inv_book [OF thaw_book [OF 3(4)], of s'] book_fields(6) [OF thaw_book [OF 3(4)]] st
    show ?thesis by simp
  qed
qed

lemma two_app_job_inv:
  assumes "two_app_job Y V job st = Inr st'" and "two_app_inv st" and "cmd_counter (fst st) < size_max"
  shows "two_app_inv st' \<and> cmd_counter (fst st') = Suc (cmd_counter (fst st))"
proof -
  from assms(1) obtain st1 new_slot i st2 st3 where steps:
    "wait_for_ressource V two_app_command_done (req_cpus job) 1 st = Inr st1"
    "place_job V job st1 = Inr ((new_slot, i), st2)" "two_app_measure Y V new_slot i st2 = Inr st3"
    "two_app_decide Y V job i st3 = Inr st'"
    by (auto simp: two_app_job_def)
  note 1 = two_app_wait [OF steps(1) [unfolded wait_for_ressource_def] assms(2)]
  note 2 = two_app_place [OF steps(2)]
  note 3 = two_app_measure_inv [OF steps(3)]
  note 4 = two_app_decide_inv [OF steps(4)]
  from 1 2 3 4 assms(3) show ?thesis by simp
qed

lemma two_app_jobs_inv:
  assumes "for_each (two_app_job Y V) js st = Inr st'" and "two_app_inv st"
    and "cmd_counter (fst st) + length js \<le> size_max"
  shows "two_app_inv st' \<and> cmd_counter (fst st') = cmd_counter (fst st) + length js"
  using assms
proof (induction js arbitrary: st)
  case Nil
  then show ?case by simp
next
  case (Cons job js)
  from Cons.prems(1) obtain st1 where st1: "two_app_job Y V job st = Inr st1"
    "for_each (two_app_job Y V) js st1 = Inr st'" by auto
  from two_app_job_inv [OF st1(1) Cons.prems(2)] Cons.prems(3) Cons.IH [OF st1(2)] show ?case by simp
qed

end

text \<open>
  C22: the scheduler for two applications, started on a controller without jobs, does not return
  for a queue of more than two jobs, whatever the controller is: the third job cannot end,
  because its id is taken for a slot number.
\<close>

theorem two_app_at_most_two_jobs:
  assumes "controller_interface V" and "wf c" and "cmd_counter c = 0"
    and "length (slots (system_config c)) = 2" and "2 < length (jobs q)" and "length (jobs q) \<le> size_max"
  shows "two_app_schedule Y V q (c, new_two_app_sched (system_config c)) \<noteq> Inr st'"
proof
  assume "two_app_schedule Y V q (c, new_two_app_sched (system_config c)) = Inr st'"
  then obtain c1 s1 where st: "for_each (two_app_job Y V) (jobs q) (c, new_two_app_sched (system_config c)) =
      Inr (c1, s1)" "controller_done V two_app_command_done (c1, s1) = Inr st'"
    by (auto simp: two_app_schedule_def)
  have "two_app_inv (c, new_two_app_sched (system_config c))"
    using assms(2-4) by (simp add: two_app_inv_def new_two_app_sched_def)
  from controller_interface.two_app_jobs_inv [OF assms(1) st(1) this] assms(3,6)
  have inv: "two_app_inv (c1, s1)" "cmd_counter c1 = length (jobs q)" by auto
  obtain c2 s2 where c2: "st' = (c2, s2)" by (cases st')
  from st(2) c2 obtain c3 where c3: "wait_until V two_app_command_done
      (\<lambda>c. usage_is_empty (length (slots (system_config c))) (machine_usage c)) (c1, s1) = Inr (c3, s2)"
    "c2 = c3\<lparr>done_called := True\<rparr>"
    by (auto simp: controller_done_def)
  from controller_interface.two_app_wait [OF assms(1) c3(1) inv(1)] inv(2) assms(5)
  have "is_running c3 2" by (simp add: two_app_inv_def)
  then have "is_running c2 2" using is_running_cong [of c2 c3] c3(2) by simp
  moreover have "wf c1" "length (slots (system_config c1)) = 2" using inv(1) by (simp_all add: two_app_inv_def)
  from controller_interface.done_idle(4) [OF assms(1) st(2) [unfolded c2] this]
  have "\<not> is_running c2 2" .
  ultimately show False by simp
qed

theorem two_app_at_most_two_jobs_witness:
  "\<forall>st'. two_app_schedule example_yaml (vm_virtuals example_yaml) three_jobs
     (idle_vm, new_two_app_sched (system_config idle_vm)) \<noteq> Inr st'"
  using two_app_at_most_two_jobs [OF vmc.controller_interface_axioms, of idle_vm three_jobs] idle_vm_ok(1)
  by (simp add: set_to_go_def idle_vm_fields example_fields three_jobs_def size_max_def)

end
