(* ===== verification/Multi_App_Properties.thy ===== *)
theory Multi_App_Properties
  imports Scheduler_Multi_App Controller_Refinement Consec_Properties
begin

section \<open>Properties of the bandwidth-aware scheduler\<close>

text \<open>
  What the helpers of the scheduler compute, against direct definitions: the machines over the
  threshold, the least loaded machines as candidates, the new configuration, and the table of
  measurements after a move. Then what the start of a job leaves behind.
\<close>

subsection \<open>The sum of a machine\<close>

definition node_util :: "nat \<Rightarrow> double list \<Rightarrow> double" where
  "node_util n row = foldl double_add (Fin 0) (take n row)"

definition util_rows :: "nat \<Rightarrow> double list list \<Rightarrow> bool" where
  "util_rows n util \<longleftrightarrow> (\<forall>row \<in> set util. length row = n)"

lemma util_rows_in2: "util_rows n util \<Longrightarrow> in2 util p \<longleftrightarrow> fst p < length util \<and> snd p < n"
  by (auto simp: util_rows_def in2_def)

lemma add_slots_total:
  assumes "m < length util" and "j \<le> length (util ! m)"
  shows "for_each (add_slot_util util m) [0..<j] acc = Inr (foldl double_add acc (take j (util ! m)))"
  using assms(2)
proof (induction j)
  case 0
  then show ?case by simp
next
  case (Suc j)
  then have "in2 util (m, j)" using assms(1) by (simp add: in2_def)
  with Suc show ?case
    by (simp add: for_each_append add_slot_util_def at2_in take_Suc_conv_app_nth) (simp add: get2_def)
qed

lemma membw_util_ok:
  "util_rows n util \<Longrightarrow> m < length util \<Longrightarrow> membw_util_of_node n util m = Inr (node_util n (util ! m))"
  by (simp add: membw_util_of_node_def add_slots_total node_util_def util_rows_def)

subsection \<open>Machines over the threshold\<close>

definition over_threshold :: "nat \<Rightarrow> double list list \<Rightarrow> nat \<Rightarrow> bool" where
  "over_threshold n util m \<longleftrightarrow> double_less per_machine_th (node_util n (util ! m))"

lemma check_membw_ok:
  assumes "util_rows n util" and "\<forall>e \<in> set config. fst e < length util"
  shows "check_membw n util config = Inr (map fst (filter (\<lambda>e. over_threshold n util (fst e)) config))"
proof -
  have "for_each (mark_machine n util) config marked =
      Inr (marked @ map fst (filter (\<lambda>e. over_threshold n util (fst e)) config))" for marked
    using assms(2)
  proof (induction config arbitrary: marked)
    case Nil
    then show ?case by simp
  next
    case (Cons e config)
    then have "length (util ! fst e) = n" using assms(1) by (simp add: util_rows_def)
    with Cons show ?case
      by (simp add: mark_machine_def add_slots_total over_threshold_def node_util_def)
  qed
  then show ?thesis by (simp add: check_membw_def)
qed

subsection \<open>The table after a move\<close>

lemma swap_util_moves:
  assumes "swap_util n a b util = Inr util'"
  shows "(\<forall>p. in2 util' p = in2 util p) \<and> (\<forall>p. get2 util' p = get2 util (exchange a b p)) \<and>
    length util' = length util \<and> (util_rows n util \<longrightarrow> util_rows n util' \<and> in2 util a \<and> in2 util b \<and>
      double_less (node_util n (util' ! fst a)) per_machine_th \<and>
      double_less (node_util n (util' ! fst b)) per_machine_th)"
proof -
  from assms obtain ua ub where st: "in2 util a" "in2 util b"
    "util' = put2 (put2 util a (get2 util b)) b (get2 util a)"
    "membw_util_of_node n util' (fst a) = Inr ua" "double_less ua per_machine_th"
    "membw_util_of_node n util' (fst b) = Inr ub" "double_less ub per_machine_th"
    by (auto simp: swap_util_def)
  have get: "get2 util' p = get2 util (exchange a b p)" for p
    using st(1,2) by (simp add: st(3) get2_put2 exchange_def)
  have in2: "in2 util' p = in2 util p" for p by (simp add: st(3))
  have len: "length util' = length util" by (simp add: st(3))
  have rows: "util_rows n util'" if "util_rows n util"
    using that by (simp add: st(3) util_rows_def all_set_conv_all_nth)
  have "fst a < length util" "fst b < length util" using st(1,2) by (simp_all add: in2_def)
  with rows membw_util_ok [of n util' "fst a"] membw_util_ok [of n util' "fst b"] st len
  have "util_rows n util \<longrightarrow> util_rows n util' \<and> in2 util a \<and> in2 util b \<and>
      double_less (node_util n (util' ! fst a)) per_machine_th \<and>
      double_less (node_util n (util' ! fst b)) per_machine_th" by auto
  with get in2 len show ?thesis by blast
qed

lemma update_util_moves:
  assumes "for_each (\<lambda>(a, b). swap_util n a b) (zip old new) util = Inr util'" and "length new = length old"
  shows "(\<forall>p. in2 util' p = in2 util p) \<and>
    (\<forall>p. get2 util' p = get2 util (origin old new [0..<length old] p))"
  using assms
proof (induction old arbitrary: new util' rule: rev_induct)
  case Nil
  then show ?case by (simp add: origin_def)
next
  case (snoc a old)
  then obtain b news where new: "new = news @ [b]" "length news = length old"
    by (metis length_append_singleton length_Suc_conv_rev)
  from snoc.prems(1) new obtain u1 where u1: "for_each (\<lambda>(a, b). swap_util n a b) (zip old news) util = Inr u1"
    "swap_util n a b u1 = Inr util'" by (auto simp: for_each_append)
  from snoc.IH [OF u1(1) new(2)] have 1: "\<And>p. in2 u1 p = in2 util p"
    "\<And>p. get2 u1 p = get2 util (origin old news [0..<length old] p)" by blast+
  have 2: "\<And>p. in2 util' p = in2 u1 p" "\<And>p. get2 util' p = get2 u1 (exchange a b p)"
    using swap_util_moves [OF u1(2)] by blast+
  have cong: "origin (old @ [a]) (news @ [b]) [0..<length old] p = origin old news [0..<length old] p" for p
    unfolding origin_def by (rule foldr_cong) (auto simp: nth_append new(2) fun_eq_iff)
  have "origin (old @ [a]) new [0..<length (old @ [a])] p =
      origin old news [0..<length old] (exchange a b p)" for p
    by (simp add: origin_snoc new cong nth_append)
  with 1 2 show ?case by (simp del: split_paired_All)
qed

subsection \<open>What the standard promises of sorting\<close>

definition strict_weak :: "nat set \<Rightarrow> (nat \<Rightarrow> nat \<Rightarrow> bool) \<Rightarrow> bool" where
  "strict_weak A lt \<longleftrightarrow> (\<forall>x \<in> A. \<not> lt x x) \<and>
     (\<forall>x \<in> A. \<forall>y \<in> A. \<forall>z \<in> A. lt x y \<and> lt y z \<longrightarrow> lt x z) \<and>
     (\<forall>x \<in> A. \<forall>y \<in> A. \<forall>z \<in> A. \<not> lt x y \<and> \<not> lt y z \<longrightarrow> \<not> lt x z)"

definition sorts :: "index_sort \<Rightarrow> bool" where
  "sorts srt \<longleftrightarrow> (\<forall>lt xs. strict_weak (set xs) lt \<longrightarrow>
     mset (srt lt xs) = mset xs \<and> sorted_wrt (\<lambda>x y. \<not> lt y x) (srt lt xs))"

lemma sortsD:
  assumes "sorts srt" and "strict_weak (set xs) lt"
  shows "mset (srt lt xs) = mset xs" "sorted_wrt (\<lambda>x y. \<not> lt y x) (srt lt xs)"
    "set (srt lt xs) = set xs" "length (srt lt xs) = length xs" "distinct (srt lt xs) = distinct xs"
proof -
  from assms show perm: "mset (srt lt xs) = mset xs" and "sorted_wrt (\<lambda>x y. \<not> lt y x) (srt lt xs)"
    unfolding sorts_def by blast+
  show "set (srt lt xs) = set xs" using mset_eq_setD [OF perm] .
  show "length (srt lt xs) = length xs" using mset_eq_length [OF perm] .
  show "distinct (srt lt xs) = distinct xs" using mset_eq_imp_distinct_iff [OF perm] .
qed

lemma not_less_trans:
  "y \<noteq> Not_a_number \<Longrightarrow> \<not> double_less x y \<Longrightarrow> \<not> double_less y z \<Longrightarrow> \<not> double_less x z"
  by (cases x; cases y; cases z) auto

lemma util_less_strict_weak:
  assumes "\<forall>i \<in> A. totals ! i \<noteq> Not_a_number"
  shows "strict_weak A (util_less totals reverse)"
  unfolding strict_weak_def
proof (intro conjI ballI impI)
  fix x y z
  assume "x \<in> A" "y \<in> A" "z \<in> A"
  then have y: "totals ! y \<noteq> Not_a_number" using assms by blast
  show "util_less totals reverse x z" if "util_less totals reverse x y \<and> util_less totals reverse y z"
    using that double_less_trans [of "totals ! x" "totals ! y" "totals ! z"]
      double_less_trans [of "totals ! z" "totals ! y" "totals ! x"]
    by (simp add: util_less_def split: if_splits)
  show "\<not> util_less totals reverse x z" if "\<not> util_less totals reverse x y \<and> \<not> util_less totals reverse y z"
    using that not_less_trans [OF y, of "totals ! x" "totals ! z"] not_less_trans [OF y, of "totals ! z" "totals ! x"]
    by (simp add: util_less_def split: if_splits)
qed (simp add: util_less_def)

subsection \<open>Candidates for an exchange\<close>

lemma all_utils_ok:
  assumes "util_rows n util"
  shows "all_node_utils n util = Inr (map (node_util n) util)"
proof -
  have "for_each (\<lambda>idx us. rbind (membw_util_of_node n util idx) (\<lambda>u. Inr (us @ [u]))) [0..<k] [] =
      Inr (map (node_util n) (take k util))" if "k \<le> length util" for k
    using that
  proof (induction k)
    case (Suc k)
    with membw_util_ok [OF assms, of k] show ?case
      by (simp add: for_each_append take_Suc_conv_app_nth)
  qed simp
  from this [of "length util"] show ?thesis by (simp add: all_node_utils_def)
qed

definition utils_numbers :: "nat \<Rightarrow> double list list \<Rightarrow> bool" where
  "utils_numbers n util \<longleftrightarrow> (\<forall>row \<in> set util. node_util n row \<noteq> Not_a_number)"

lemma sort_machines_ok:
  assumes "util_rows n util" and "utils_numbers n util" and "sorts srt" and "length idxs \<le> length util"
    and "\<forall>i \<in> set idxs. i < length util"
  shows "\<exists>ys. sort_machines_by_membw_util srt n util idxs reverse = Inr ys \<and> mset ys = mset idxs \<and>
    sorted_wrt (\<lambda>i j. \<not> util_less (map (node_util n) util) reverse j i) ys"
proof -
  have "\<forall>i \<in> set idxs. map (node_util n) util ! i \<noteq> Not_a_number"
    using assms(2,5) by (simp add: utils_numbers_def)
  note s = sortsD [OF assms(3) util_less_strict_weak [OF this, where reverse = reverse]]
  have "\<not> (\<exists>i \<in> set idxs. length util \<le> i)" using assms(5) by (auto simp: not_le)
  with s(1,2) assms(4) all_utils_ok [OF assms(1)] show ?thesis
    by (simp add: sort_machines_by_membw_util_def)
qed

lemma add_pairs_total:
  assumes "util_rows n util" and "\<forall>m \<in> set ms. m < length util" and "\<forall>m \<in> set cs. m < length util"
    and "k \<le> length ms" and "k \<le> length cs"
  shows "\<exists>u. for_each (add_pair_util n util ms cs) [0..<k] acc = Inr u"
  using assms(4,5)
proof (induction k)
  case (Suc k)
  then obtain u where "for_each (add_pair_util n util ms cs) [0..<k] acc = Inr u" by auto
  moreover have "ms ! k < length util" "cs ! k < length util" using assms(2,3) Suc.prems by simp_all
  then have "\<exists>v. add_pair_util n util ms cs k u = Inr v"
    using Suc.prems membw_util_ok [OF assms(1)] by (simp add: add_pair_util_def vec_at_in)
  ultimately show ?case by (simp add: for_each_append)
qed simp

text \<open>The \<open>k\<close> least loaded machines, the least loaded first.\<close>

definition least_loaded :: "nat \<Rightarrow> double list list \<Rightarrow> nat \<Rightarrow> nat list \<Rightarrow> bool" where
  "least_loaded n util k cs \<longleftrightarrow> length cs = k \<and> distinct cs \<and> (\<forall>m \<in> set cs. m < length util) \<and>
     sorted_wrt (\<lambda>i j. \<not> double_less (node_util n (util ! j)) (node_util n (util ! i))) cs \<and>
     (\<forall>m \<in> set cs. \<forall>m' < length util. m' \<notin> set cs \<longrightarrow>
        \<not> double_less (node_util n (util ! m')) (node_util n (util ! m)))"

lemma find_candidates_ok:
  assumes "util_rows n util" and "utils_numbers n util" and "sorts srt"
    and "\<forall>m \<in> set marked. m < length util" and "length marked \<le> length util"
  shows "\<exists>cs. find_swap_candidates srt n util marked = Inr cs \<and>
    (cs = [] \<or> least_loaded n util (length marked) cs)"
proof -
  let ?len = "length util" and ?k = "length marked"
  let ?le = "\<lambda>i j. \<not> double_less (node_util n (util ! j)) (node_util n (util ! i))"
  have "length [0..<?len] \<le> ?len" "\<forall>i \<in> set [0..<?len]. i < ?len" by simp_all
  from sort_machines_ok [OF assms(1-3) this, of False] obtain ys where
    ys: "sort_machines_by_membw_util srt n util [0..<?len] False = Inr ys" "mset ys = mset [0..<?len]"
    "sorted_wrt (\<lambda>i j. \<not> util_less (map (node_util n) util) False j i) ys" by blast
  from ys(2) have set: "set ys = {..<?len}" and len: "length ys = ?len" and dist: "distinct ys"
    using mset_eq_setD [OF ys(2)] mset_eq_length [OF ys(2)] mset_eq_imp_distinct_iff [OF ys(2)]
    by (auto simp: atLeast0LessThan)
  have sorted: "sorted_wrt ?le ys"
    by (rule sorted_wrt_mono_rel [OF _ ys(3)]) (use set in \<open>auto simp: util_less_def\<close>)
  have "\<forall>m \<in> set ys. m < ?len" using set by simp
  from add_pairs_total [OF assms(1,4) this, of ?k "Fin 0"] assms(5) len obtain u where
    u: "for_each (add_pair_util n util marked ys) [0..<?k] (Fin 0) = Inr u" by auto
  have split: "ys = take ?k ys @ drop ?k ys" by simp
  have "least_loaded n util ?k (take ?k ys)"
    unfolding least_loaded_def
  proof (intro conjI ballI allI impI)
    show "sorted_wrt ?le (take ?k ys)" using sorted by (metis sorted_wrt_append split)
    fix m m'
    assume m: "m \<in> set (take ?k ys)"
    then show "m < ?len" using set by (auto dest: in_set_takeD)
    assume "m' < ?len" "m' \<notin> set (take ?k ys)"
    then have "m' \<in> set (drop ?k ys)" using set by (metis Un_iff lessThan_iff set_append split)
    with m sorted show "\<not> double_less (node_util n (util ! m')) (node_util n (util ! m))"
      by (metis sorted_wrt_append split)
  qed (use len dist assms(5) in simp_all)
  with ys(1) u show ?thesis by (auto simp: find_swap_candidates_def)
qed

subsection \<open>The new configuration\<close>

definition other_slot :: "execute_config_elemT \<Rightarrow> execute_config_elemT" where
  "other_slot e = (fst e, 1 - snd e)"

text \<open>After exchanging slots \<open>a\<close> and \<open>b\<close> both machines are below the threshold.\<close>

definition relieves :: "double list list \<Rightarrow> execute_config_elemT \<Rightarrow> execute_config_elemT \<Rightarrow> bool" where
  "relieves util a b \<longleftrightarrow> in2 util a \<and> in2 util b \<and>
     double_less (double_add (get2 util (other_slot a)) (get2 util b)) per_machine_th \<and>
     double_less (double_add (get2 util (other_slot b)) (get2 util a)) per_machine_th"

lemma next_of_two: "s < 2 \<Longrightarrow> wrap64 (s + 1) mod 2 = 1 - s"
  by (auto simp: less_2_cases_iff wrap64_def)

lemma slot_on_Some: "slot_on m es = Some s \<Longrightarrow> (m, s) \<in> set es"
  by (induction es) (auto split: if_splits)

lemma choose_slot_relieves:
  assumes "choose_slot 2 util old om nm = Inr e" and "util_rows 2 util"
  shows "\<exists>s. (om, s) \<in> set old \<and> fst e = nm \<and> relieves util (om, s) e"
proof -
  from assms(1) obtain s ns where st: "slot_on om old = Some s" "in2 util (om, s)" "nm < length util"
    "e = (nm, ns)" "ns < length (util ! nm)" "in2 util (om, wrap64 (s + 1) mod 2)"
    "double_less (double_add (get2 util (om, wrap64 (s + 1) mod 2)) (util ! nm ! ns)) per_machine_th"
    "double_less (double_add (util ! nm ! (wrap64 (ns + 1) mod 2)) (get2 util (om, s))) per_machine_th"
    by (auto simp: choose_slot_def Let_def split: option.splits if_splits)
  have "s < 2" using st(2) util_rows_in2 [OF assms(2)] by simp
  moreover have "ns < 2" using st(3,5) assms(2) by (simp add: util_rows_def)
  ultimately have "relieves util (om, s) e"
    using st next_of_two [of s] next_of_two [of ns]
    by (simp add: relieves_def other_slot_def in2_def get2_def)
  with slot_on_Some [OF st(1)] st(4) show ?thesis by auto
qed

lemma choices_each:
  assumes "for_each (add_choice n util old ms cs) [0..<k] [] = Inr es"
  shows "length es = k \<and> (\<forall>j < k. j < length ms \<and> j < length cs \<and>
    choose_slot n util old (ms ! j) (cs ! j) = Inr (es ! j))"
  using assms
proof (induction k arbitrary: es)
  case 0
  then show ?case by simp
next
  case (Suc k)
  then obtain fs where fs: "for_each (add_choice n util old ms cs) [0..<k] [] = Inr fs"
    and step: "add_choice n util old ms cs k fs = Inr es"
    by (auto simp: for_each_append)
  from step obtain e where "k < length ms" "k < length cs"
    "choose_slot n util old (ms ! k) (cs ! k) = Inr e" "es = fs @ [e]"
    by (auto simp: add_choice_def)
  note fs = fs this
  from Suc.IH [OF fs(1)] fs show ?case by (auto simp: less_Suc_eq nth_append)
qed

lemma replace_each:
  assumes "for_each (replace_elem ms es) old acc = Inr new"
  shows "\<exists>news. new = acc @ news \<and> list_all2 (\<lambda>e e'. case find_elem (fst e) ms of
    None \<Rightarrow> e' = e | Some k \<Rightarrow> k < length es \<and> e' = es ! k) old news"
  using assms
proof (induction old arbitrary: acc)
  case Nil
  then show ?case by simp
next
  case (Cons e old)
  then obtain acc1 where acc1: "replace_elem ms es e acc = Inr acc1"
    "for_each (replace_elem ms es) old acc1 = Inr new" by auto
  from acc1(1) obtain e' where "acc1 = acc @ [e']"
    "case find_elem (fst e) ms of None \<Rightarrow> e' = e | Some k \<Rightarrow> k < length es \<and> e' = es ! k"
    by (cases "find_elem (fst e) ms") (auto simp: replace_elem_def)
  with acc1(2) have e': "case find_elem (fst e) ms of None \<Rightarrow> e' = e | Some k \<Rightarrow> k < length es \<and> e' = es ! k"
    "for_each (replace_elem ms es) old (acc @ [e']) = Inr new" by simp_all
  from Cons.IH [OF e'(2)] obtain news where "new = (acc @ [e']) @ news"
    "list_all2 (\<lambda>e e'. case find_elem (fst e) ms of None \<Rightarrow> e' = e
      | Some k \<Rightarrow> k < length es \<and> e' = es ! k) old news" by blast
  with e'(1) show ?case by (intro exI [of _ "e' # news"]) simp
qed

lemma generate_config_ok:
  assumes "generate_new_config srt 2 util old marked cs = Inr new" and "cs \<noteq> []"
    and "util_rows 2 util" and "utils_numbers 2 util" and "sorts srt"
    and "length marked \<le> length util" and "\<forall>m \<in> set marked. m < length util" and "distinct (map fst old)"
  shows "list_all2 (\<lambda>e e'. if fst e \<in> set marked then fst e' \<in> set cs \<and> relieves util e e' else e' = e) old new"
proof -
  from assms(1,2) obtain ms es where st: "length marked \<le> length cs"
    "sort_machines_by_membw_util srt 2 util marked True = Inr ms"
    "for_each (add_choice 2 util old ms cs) [0..<length marked] [] = Inr es"
    "for_each (replace_elem ms es) old [] = Inr new"
    by (auto simp: generate_new_config_def)
  from sort_machines_ok [OF assms(3-7), of True] st(2) have set: "set ms = set marked"
    by (auto dest: mset_eq_setD)
  note es = choices_each [OF st(3)]
  have elem: "if fst e \<in> set marked then fst e' \<in> set cs \<and> relieves util e e' else e' = e"
    if "e \<in> set old" "case find_elem (fst e) ms of None \<Rightarrow> e' = e | Some k \<Rightarrow> k < length es \<and> e' = es ! k"
    for e e'
  proof (cases "find_elem (fst e) ms")
    case None
    then have "fst e \<notin> set marked" using find_elem_None [of "fst e" ms] set by blast
    moreover have "e' = e" using that(2) None by simp
    ultimately show ?thesis by simp
  next
    case (Some k)
    from find_elem_Some [OF Some] have k: "k < length ms" "ms ! k = fst e" by auto
    then have "fst e \<in> set marked" using set by (metis nth_mem)
    moreover have e': "k < length es" "e' = es ! k" using that(2) Some by auto
    with es k(2) have "k < length cs" "choose_slot 2 util old (fst e) (cs ! k) = Inr e'" by auto
    from choose_slot_relieves [OF this(2) assms(3)] obtain s where
      s: "(fst e, s) \<in> set old" "fst e' = cs ! k" "relieves util (fst e, s) e'" by blast
    have "(fst e, s) = e" using eq_key_imp_eq_value [of old "fst e" s "snd e"] s(1) that(1) assms(8) by simp
    ultimately show ?thesis using s(2,3) \<open>k < length cs\<close> by simp
  qed
  from replace_each [OF st(4)] have "list_all2 (\<lambda>e e'. case find_elem (fst e) ms of
      None \<Rightarrow> e' = e | Some k \<Rightarrow> k < length es \<and> e' = es ! k) old new" by simp
  then show ?thesis by (rule list.rel_mono_strong) (use elem in blast)
qed

subsection \<open>Candidates that are overloaded themselves\<close>

definition util_doubles :: "double list list \<Rightarrow> bool" where
  "util_doubles util \<longleftrightarrow> (\<forall>row \<in> set util. \<forall>u \<in> set row. is_double u)"

lemma row_of_two:
  assumes "util_rows 2 util" and "in2 util (m, s)"
  shows "util ! m = (if s = 0 then [get2 util (m, s), get2 util (other_slot (m, s))]
    else [get2 util (other_slot (m, s)), get2 util (m, s)])"
proof -
  have m: "m < length util" "s < 2" using assms(2) util_rows_in2 [OF assms(1)] by simp_all
  then have "length (util ! m) = 2" using assms(1) by (simp add: util_rows_def)
  then obtain a b where "util ! m = [a, b]" by (auto simp: numeral_2_eq_2 length_Suc_conv)
  with m(2) show ?thesis by (auto simp: less_2_cases_iff get2_def other_slot_def)
qed

lemma node_util_of_two:
  assumes "util_rows 2 util" and "util_doubles util" and "in2 util e"
  shows "node_util 2 (util ! fst e) = double_add (get2 util e) (get2 util (other_slot e))"
proof (cases e)
  case (Pair m s)
  with assms(3) have e: "in2 util (m, s)" by simp
  note row = row_of_two [OF assms(1) e]
  have "\<forall>u \<in> set (util ! m). is_double u"
    using assms(2) e by (auto simp: util_doubles_def in2_def)
  then have "is_double (get2 util (m, s))" "is_double (get2 util (other_slot (m, s)))"
    using row by (auto split: if_splits)
  then show ?thesis
    using row by (auto simp: Pair node_util_def double_add_commute)
qed

text \<open>Rounding does not move a sum across a number that is a double.\<close>

lemma add_less_exact:
  assumes "is_double (Fin t)"
  shows "double_less (double_add (Fin a) (Fin b)) (Fin t) \<Longrightarrow> a + b < t"
    and "double_less (Fin t) (double_add (Fin a) (Fin b)) \<Longrightarrow> t < a + b"
proof -
  obtain r where t: "round_double t = Fin t" using assms by auto
  show "a + b < t" if "double_less (double_add (Fin a) (Fin b)) (Fin t)"
  proof (rule ccontr)
    assume "\<not> a + b < t"
    then have "double_le (round_double t) (round_double (a + b))" by (intro round_double_mono) simp
    with that t show False
      using double_le_less_trans [of "Fin t" "round_double (a + b)" "Fin t"] by simp
  qed
  show "t < a + b" if "double_less (Fin t) (double_add (Fin a) (Fin b))"
  proof (rule ccontr)
    assume "\<not> t < a + b"
    then have "double_le (round_double (a + b)) (round_double t)" by (intro round_double_mono) simp
    with that t show False
      using double_less_le_trans [of "Fin t" "round_double (a + b)" "Fin t"] by simp
  qed
qed

definition util_finite :: "double list list \<Rightarrow> bool" where
  "util_finite util \<longleftrightarrow> (\<forall>p. in2 util p \<longrightarrow> (\<exists>a. get2 util p = Fin a))"

lemma threshold_double: "\<exists>t. per_machine_th = Fin t \<and> is_double (Fin t)"
proof -
  have "per_machine_th \<noteq> Pos_inf" "per_machine_th \<noteq> Neg_inf" "per_machine_th \<noteq> Not_a_number"
    by (simp_all add: per_machine_th_def double_eval)
  then obtain t where t: "per_machine_th = Fin t" by (cases per_machine_th) auto
  have "is_double per_machine_th" by (simp add: per_machine_th_def)
  then have "is_double (Fin t)" by (simp only: t)
  with t show ?thesis by blast
qed

text \<open>Two overloaded machines cannot relieve each other.\<close>

lemma relieves_not_both:
  assumes "util_rows 2 util" and "util_doubles util" and "util_finite util" and "relieves util a b"
  shows "\<not> (over_threshold 2 util (fst a) \<and> over_threshold 2 util (fst b))"
proof
  assume over: "over_threshold 2 util (fst a) \<and> over_threshold 2 util (fst b)"
  from threshold_double obtain t where t: "per_machine_th = Fin t" "is_double (Fin t)" by blast
  have in2: "in2 util a" "in2 util b" using assms(4) by (simp_all add: relieves_def)
  then have "in2 util (other_slot a)" "in2 util (other_slot b)"
    using util_rows_in2 [OF assms(1)] by (auto simp: other_slot_def)
  with in2 assms(3) obtain x x' y y' where v: "get2 util a = Fin x" "get2 util (other_slot a) = Fin x'"
    "get2 util b = Fin y" "get2 util (other_slot b) = Fin y'" unfolding util_finite_def by metis
  note less = add_less_exact [OF t(2)]
  from over node_util_of_two [OF assms(1,2) in2(1)] node_util_of_two [OF assms(1,2) in2(2)]
  have "t < x + x'" "t < y + y'" using v t(1) less(2) by (simp_all add: over_threshold_def)
  moreover from assms(4) have "x' + y < t" "y' + x < t"
    using v t(1) less(1) by (simp_all add: relieves_def)
  ultimately show False by simp
qed

lemma choose_slot_outcomes:
  assumes "util_rows 2 util" and "slot_on old_mach old_config = Some old_slot" and "old_slot < 2"
    and "old_mach < length util" and "new_mach < length util"
  shows "(\<exists>e. choose_slot 2 util old_config old_mach new_mach = Inr e) \<or>
    choose_slot 2 util old_config old_mach new_mach = Inl (Assertion ''old_mach < PER_MACHINE_TH'') \<or>
    choose_slot 2 util old_config old_mach new_mach = Inl (Assertion ''new_mach < PER_MACHINE_TH'')"
proof -
  let ?row = "util ! new_mach"
  have in2: "in2 util (old_mach, old_slot)" "in2 util (old_mach, Suc 0 - old_slot)"
    using assms(3,4) util_rows_in2 [OF assms(1)] by simp_all
  have row: "length ?row = 2" using assms(1,5) by (simp add: util_rows_def)
  then have "?row \<noteq> []" by auto
  from max_element_in [OF this] min_element_in [OF this] row
  have "max_element ?row < 2" "min_element ?row < 2" by simp_all
  with assms(2,5) in2 row next_of_two [OF assms(3)] next_of_two [of "max_element ?row"]
    next_of_two [of "min_element ?row"]
  show ?thesis
    by (auto simp: choose_slot_def Let_def at2_in [of util old_mach old_slot]
        at2_in [of util old_mach "Suc 0 - old_slot"] vec_at_in assert_that_def split: if_splits)
qed

text \<open>
  C24: the search for candidates looks at sums over all machines, so an overloaded machine can
  be chosen to relieve an overloaded machine. Then one of the two assertions on the loads after
  the exchange fails, whatever the loads are, and the program is left by it instead of
  suspending the job.
\<close>

theorem overloaded_candidate_fails:
  assumes "util_rows 2 util" and "util_doubles util" and "util_finite util"
    and "over_threshold 2 util old_mach" and "over_threshold 2 util new_mach"
    and "slot_on old_mach old_config = Some old_slot" and "old_slot < 2"
    and "old_mach < length util" and "new_mach < length util"
  shows "choose_slot 2 util old_config old_mach new_mach \<in>
    {Inl (Assertion ''old_mach < PER_MACHINE_TH''), Inl (Assertion ''new_mach < PER_MACHINE_TH'')}"
proof -
  have False if "choose_slot 2 util old_config old_mach new_mach = Inr e" for e
  proof -
    from choose_slot_relieves [OF that assms(1)] obtain s where
      "fst e = new_mach" "relieves util (old_mach, s) e" by blast
    with relieves_not_both [OF assms(1-3)] assms(4,5) show False by fastforce
  qed
  with choose_slot_outcomes [OF assms(1,6-9)] show ?thesis by blast
qed

text \<open>Two machines are overloaded by a job, the third is idle.\<close>

definition crowded :: "double list list" where
  "crowded = [[Fin (1/2), Fin (1/2)], [Fin (1/2), Fin (1/2)], [Fin 0, Fin 0]]"

fun insort_index :: "(nat \<Rightarrow> nat \<Rightarrow> bool) \<Rightarrow> nat \<Rightarrow> nat list \<Rightarrow> nat list" where
  "insort_index lt x [] = [x]"
| "insort_index lt x (y # ys) = (if lt y x then y # insort_index lt x ys else x # y # ys)"

definition sort_index :: index_sort where
  "sort_index lt xs = foldr (insort_index lt) xs []"

lemma crowded_ok: "util_rows 2 crowded" "util_doubles crowded" "util_finite crowded"
  "over_threshold 2 crowded 0" "over_threshold 2 crowded 1" "\<not> over_threshold 2 crowded 2"
proof -
  show "util_rows 2 crowded" "util_doubles crowded"
    by (simp_all add: util_rows_def util_doubles_def crowded_def double_eval)
  show "util_finite crowded"
    unfolding util_finite_def
  proof (intro allI impI)
    fix p assume "in2 crowded p"
    then have "get2 crowded p \<in> {Fin (1/2), Fin 0}"
      by (auto simp: in2_def get2_def crowded_def less_Suc_eq nth_Cons split: nat.splits)
    then show "\<exists>a. get2 crowded p = Fin a" by blast
  qed
  show "over_threshold 2 crowded 0" "over_threshold 2 crowded 1" "\<not> over_threshold 2 crowded 2"
    by (simp_all add: over_threshold_def node_util_def crowded_def per_machine_th_def double_eval)
qed

lemma crowded_candidates:
  "check_membw 2 crowded [(0, 0), (1, 0)] = Inr [0, 1]"
  "find_swap_candidates sort_index 2 crowded [0, 1] = Inr [2, 0]"
proof -
  show "check_membw 2 crowded [(0, 0), (1, 0)] = Inr [0, 1]"
    using check_membw_ok [OF crowded_ok(1), of "[(0, 0), (1, 0)]"] crowded_ok by (simp add: crowded_def)
  have u: "[0..<length crowded] = [0, 1, 2]" by (simp add: crowded_def upt_rec)
  show "find_swap_candidates sort_index 2 crowded [0, 1] = Inr [2, 0]"
    unfolding find_swap_candidates_def u sort_machines_by_membw_util_def all_utils_ok [OF crowded_ok(1)]
    using membw_util_ok [OF crowded_ok(1)]
    by (simp add: crowded_def sort_index_def util_less_def node_util_def add_pair_util_def
        per_machine_th_def double_eval vec_at_in)
qed

lemma crowded_first: "choose_slot 2 crowded [(0, 0), (1, 0)] 0 2 = Inr (2, 0)"
  by (simp add: choose_slot_def Let_def crowded_def at2_def vec_at_in max_element_def min_element_def
      wrap64_def per_machine_th_def double_eval)

lemma crowded_sorted: "sort_machines_by_membw_util sort_index 2 crowded [0, 1] True = Inr [0, 1]"
  unfolding sort_machines_by_membw_util_def all_utils_ok [OF crowded_ok(1)]
  by (simp add: crowded_def sort_index_def util_less_def node_util_def double_eval)

text \<open>The job is on both overloaded machines; of the two candidates the second is one of them.\<close>

theorem overloaded_candidate_fails_witness:
  "check_membw 2 crowded [(0, 0), (1, 0)] = Inr [0, 1] \<and>
   find_swap_candidates sort_index 2 crowded [0, 1] = Inr [2, 0] \<and>
   (\<exists>w. generate_new_config sort_index 2 crowded [(0, 0), (1, 0)] [0, 1] [2, 0] = Inl (Assertion w))"
proof -
  have "slot_on 1 [(0, 0), (1, 0)] = Some 0" "1 < length crowded" "0 < length crowded"
    by (simp_all add: crowded_def)
  from overloaded_candidate_fails [OF crowded_ok(1-3,5,4) this(1) _ this(2,3)]
  obtain w where "choose_slot 2 crowded [(0, 0), (1, 0)] 1 0 = Inl (Assertion w)" by auto
  then have "generate_new_config sort_index 2 crowded [(0, 0), (1, 0)] [0, 1] [2, 0] = Inl (Assertion w)"
    using crowded_first crowded_sorted
    by (simp add: generate_new_config_def add_choice_def vec_at_in upt_rec numeral_2_eq_2)
  with crowded_candidates show ?thesis by blast
qed

subsection \<open>The properties of the helpers\<close>

text \<open>
  C16: \<open>find_swap_candidates\<close> returns, whatever way the library sorts machines of equal load:
  either nothing, or as many machines as are overloaded, without repetition, the least loaded
  first, such that no machine left out is less loaded than one of them.
\<close>

theorem candidates_least_loaded:
  assumes "util_rows n util" and "utils_numbers n util" and "sorts srt"
    and "\<forall>m \<in> set marked. m < length util" and "length marked \<le> length util"
  shows "\<exists>cs. find_swap_candidates srt n util marked = Inr cs \<and>
    (cs = [] \<or> least_loaded n util (length marked) cs)"
  using assms by (rule find_candidates_ok)

lemma insort_index_perm: "mset (insort_index lt x ys) = add_mset x (mset ys)"
  by (induction ys) auto

lemma insort_index_sorted:
  assumes "strict_weak A lt" and "insert x (set ys) \<subseteq> A" and "sorted_wrt (\<lambda>a b. \<not> lt b a) ys"
  shows "sorted_wrt (\<lambda>a b. \<not> lt b a) (insort_index lt x ys)"
  using assms(2,3)
proof (induction ys)
  case (Cons y ys)
  have set: "set (insort_index lt x zs) = insert x (set zs)" for zs
    using mset_eq_setD [OF insort_index_perm [of lt x zs, folded mset.simps(2)]] by simp
  show ?case
  proof (cases "lt y x")
    case True
    have "x \<in> A" "y \<in> A" using Cons.prems(1) by auto
    with assms(1) True have "\<not> lt x y" unfolding strict_weak_def by metis
    moreover have "sorted_wrt (\<lambda>a b. \<not> lt b a) (insort_index lt x ys)" using Cons by simp
    ultimately show ?thesis using True Cons.prems(2) by (simp add: set)
  next
    case False
    have "\<not> lt z x" if "z \<in> set ys" for z
    proof -
      have "\<not> lt z y" using Cons.prems(2) that by simp
      moreover have "x \<in> A" "y \<in> A" "z \<in> A" using Cons.prems(1) that by auto
      ultimately show ?thesis using False assms(1) unfolding strict_weak_def by metis
    qed
    with False Cons.prems(2) show ?thesis by simp
  qed
qed simp

lemma sort_index_sorts: "sorts sort_index"
proof -
  have "mset (sort_index lt xs) = mset xs \<and> sorted_wrt (\<lambda>x y. \<not> lt y x) (sort_index lt xs)"
    if "strict_weak A lt" "set xs \<subseteq> A" for lt A xs
    using that(2)
  proof (induction xs)
    case Nil
    then show ?case by (simp add: sort_index_def)
  next
    case (Cons x xs)
    then have IH: "mset (sort_index lt xs) = mset xs" "sorted_wrt (\<lambda>x y. \<not> lt y x) (sort_index lt xs)" by auto
    have step: "sort_index lt (x # xs) = insort_index lt x (sort_index lt xs)" by (simp add: sort_index_def)
    have "insert x (set (sort_index lt xs)) \<subseteq> A" using mset_eq_setD [OF IH(1)] Cons.prems by simp
    from insort_index_sorted [OF that(1) this IH(2)] IH(1) show ?case
      by (simp add: step insort_index_perm)
  qed
  then show ?thesis unfolding sorts_def by blast
qed

lemma crowded_numbers: "utils_numbers 2 crowded"
  by (simp add: utils_numbers_def node_util_def crowded_def double_eval)

theorem candidates_least_loaded_witness:
  "\<exists>cs. find_swap_candidates sort_index 2 crowded [0, 1] = Inr cs \<and> cs = [2, 0] \<and>
     least_loaded 2 crowded 2 cs"
  using candidates_least_loaded [OF crowded_ok(1) crowded_numbers sort_index_sorts, of "[0, 1]"]
    crowded_candidates(2) by (simp add: crowded_def numeral_2_eq_2)

text \<open>
  C7: a new configuration keeps every entry whose machine is not overloaded; every other entry
  becomes a slot of one of the candidates such that, once the two slots are exchanged, the
  machine the job leaves and the machine it comes to are both below the threshold.
\<close>

theorem new_config_relieves:
  assumes "generate_new_config srt 2 util old marked cs = Inr new" and "cs \<noteq> []"
    and "util_rows 2 util" and "utils_numbers 2 util" and "sorts srt"
    and "length marked \<le> length util" and "\<forall>m \<in> set marked. m < length util" and "distinct (map fst old)"
  shows "list_all2 (\<lambda>e e'. if fst e \<in> set marked then fst e' \<in> set cs \<and> relieves util e e' else e' = e) old new"
  using assms by (rule generate_config_ok)

text \<open>Only the first machine is overloaded, the others are idle.\<close>

definition one_busy :: "double list list" where
  "one_busy = [[Fin (1/2), Fin (1/2)], [Fin 0, Fin 0], [Fin 0, Fin (1/2)]]"

lemma one_busy_ok: "util_rows 2 one_busy" "utils_numbers 2 one_busy"
  by (simp_all add: util_rows_def one_busy_def utils_numbers_def node_util_def double_eval)

lemma one_busy_config:
  "generate_new_config sort_index 2 one_busy [(0, 0), (2, 1)] [0] [1] = Inr [(1, 0), (2, 1)]"
  using all_utils_ok [OF one_busy_ok(1)]
  by (simp add: generate_new_config_def sort_machines_by_membw_util_def sort_index_def vec_at_in)
    (simp add: add_choice_def choose_slot_def vec_at_in at2_def one_busy_def wrap64_def min_element_def
      per_machine_th_def double_eval replace_elem_def)

theorem new_config_relieves_witness:
  "list_all2 (\<lambda>e e'. if fst e \<in> {0 :: nat} then fst e' \<in> {1} \<and> relieves one_busy e e' else e' = e)
     [(0, 0), (2, 1)] [(1, 0), (2, 1)]"
  using new_config_relieves [OF one_busy_config _ one_busy_ok sort_index_sorts] by (simp add: one_busy_def)

text \<open>
  C17: after a move the bandwidth of every slot is found where its job has gone: for every entry
  of the configuration the values of the old and the new slot are exchanged, all other values
  stay, and the table keeps its shape.
\<close>

theorem update_membw_util_follows:
  assumes "update_membw_util n old new util = Inr util'" and "movable old new"
  shows "(\<forall>k < length old. get2 util' (new ! k) = get2 util (old ! k) \<and> get2 util' (old ! k) = get2 util (new ! k)) \<and>
    (\<forall>p. p \<notin> set old \<union> set new \<longrightarrow> get2 util' p = get2 util p) \<and> (\<forall>p. in2 util' p = in2 util p)"
proof -
  from assms(1) have "for_each (\<lambda>(a, b). swap_util n a b) (zip old new) util = Inr util'" "length new = length old"
    by (auto simp: update_membw_util_def)
  note mv = update_util_moves [OF this]
  have "origin old new [0..<length old] p = p" if "p \<notin> set old \<union> set new" for p
    using that \<open>length new = length old\<close> by (intro origin_other) auto
  with mv movable_origin [OF assms(2)] show ?thesis by (simp del: split_paired_All)
qed

theorem update_membw_util_follows_witness:
  "\<exists>util'. update_membw_util 2 [(0, 0)] [(1, 0)] one_busy = Inr util' \<and>
     get2 util' (1, 0) = Fin (1/2) \<and> get2 util' (0, 0) = Fin 0"
proof -
  have "update_membw_util 2 [(0, 0)] [(1, 0)] one_busy =
      Inr [[Fin 0, Fin (1/2)], [Fin (1/2), Fin 0], [Fin 0, Fin (1/2)]]"
    by (simp add: update_membw_util_def swap_util_def at2_def set2_def vec_at_in vec_set_in one_busy_def
        membw_util_of_node_def add_slot_util_def upt_rec numeral_2_eq_2 per_machine_th_def double_eval)
  from update_membw_util_follows [OF this] show ?thesis
    using \<open>update_membw_util 2 _ _ _ = _\<close> by (simp add: movable_def one_busy_def get2_def)
qed

text \<open>
  C18: the loop of \<open>check_membw\<close> marks the machine of every entry whose two slots together are
  above the threshold, in the order of the configuration, and no other.
\<close>

theorem check_membw_marks:
  assumes "util_rows n util" and "\<forall>e \<in> set config. fst e < length util"
  shows "check_membw n util config = Inr (map fst (filter (\<lambda>e. over_threshold n util (fst e)) config))"
  using assms by (rule check_membw_ok)

theorem check_membw_marks_witness: "check_membw 2 crowded [(2, 1), (1, 0)] = Inr [1]"
  using check_membw_marks [OF crowded_ok(1), of "[(2, 1), (1, 0)]"] crowded_ok by (simp add: crowded_def)

subsection \<open>A job that cannot be moved\<close>

text \<open>Whoever starts a job leaves the lock object with the main thread.\<close>

lemma start_job_locks:
  assumes "controller_interface V" and "start_job V job st = Inr ((i, config), (c, s))"
  shows "lock_owned c"
proof -
  from assms(2) obtain c1 where ex: "execute V job config c1 = Inr (i, c)"
    by (auto simp: start_job_def Let_def)
  then show ?thesis
    by (auto simp: execute_def Let_def
        dest!: controller_interface.create_book [OF assms(1)] controller_interface.command_book [OF assms(1)]
        book_fields(7))
qed

lemma check_membw_within:
  assumes "for_each (mark_machine n util) config acc = Inr ms"
  shows "set ms \<subseteq> set acc \<union> fst ` set config"
  using assms
proof (induction config arbitrary: acc)
  case (Cons e config)
  then obtain acc1 where "mark_machine n util e acc = Inr acc1"
    "for_each (mark_machine n util) config acc1 = Inr ms" by auto
  with Cons.IH [OF this(2)] show ?case by (auto simp: mark_machine_def split: if_splits)
qed simp

lemma still_marked_iff:
  assumes "check_membw n util config = Inr ms"
  shows "still_marked config ms \<longleftrightarrow> ms \<noteq> []"
proof -
  have "set ms \<subseteq> fst ` set config" using check_membw_within [of n util config "[]" ms] assms by (simp add: check_membw_def)
  then show ?thesis by (cases ms) (auto simp: still_marked_def list_ex_iff)
qed

lemma unlock_releases: "unlock c = Inr c' \<Longrightarrow> \<not> lock_owned c' \<and> system_config c' = system_config c"
  by (auto simp: unlock_def split: if_splits)

text \<open>A thread that gets past its waits leaves only when nothing is marked any more.\<close>

lemma waiter_leaves:
  assumes "waiter_loop Y V i config locked_here wake (c, s) = Inr (c', s')"
  shows "\<not> lock_owned c' \<and> check_membw (length (slots (system_config c'))) (membw_util s') config = Inr []"
  using assms
proof (induction wake arbitrary: locked_here c s)
  case Nil
  then show ?case by (subst (asm) waiter_loop.simps) (auto simp: waiter_wait_def)
next
  case (Cons ts wake)
  from Cons.prems obtain c0 c1 s1 ms where
    st: "check_membw (length (slots (system_config c1))) (membw_util s1) config = Inr ms"
      "(if still_marked config ms then waiter_loop Y V i config True wake (c1, s1)
        else rbind (thaw Y V i (c1\<lparr>wakeups := wake\<rparr>)) (\<lambda>c. rbind (unlock c) (\<lambda>c. Inr (c, s1)))) = Inr (c', s')"
    by (subst (asm) waiter_loop.simps) auto
  show ?case
  proof (cases "still_marked config ms")
    case True
    with st(2) Cons.IH show ?thesis by simp
  next
    case False
    with st(2) obtain c2 where c2: "thaw Y V i (c1\<lparr>wakeups := wake\<rparr>) = Inr c2" "unlock c2 = Inr c'" "s' = s1" by auto
    from book_fields(5) [OF thaw_book [OF c2(1)]] unlock_releases [OF c2(2)]
    have "system_config c' = system_config c1" by simp
    with st(1) False still_marked_iff [OF st(1)] unlock_releases [OF c2(2)] c2(3) show ?thesis by simp
  qed
qed

text \<open>
  C25: with a controller that cannot move jobs, the start of a job ends in one of two ways, given
  that the main thread has locked the lock object, as it has whenever a job has been started. If
  none of its machines is above the threshold, nothing more happens. Otherwise the job is
  suspended, and the first wait of the thread that should resume it is a wait on a lock that the thread
  does not hold, which is undefined. A thread that had locked the object itself would leave its
  loop only when none of the machines of the job is marked, and would unlock the object.
\<close>

theorem relieve_without_moves:
  assumes "\<not> update_supported V" and "lock_owned c"
    and "util_rows (length (slots (system_config c))) (membw_util s)"
    and "\<forall>e \<in> set config. fst e < length (membw_util s)"
  shows "relieve_loop srt Y V i config wake False (c, s) =
      (if \<exists>e \<in> set config. over_threshold (length (slots (system_config c))) (membw_util s) (fst e)
       then rbind (freeze Y V i c) (\<lambda>_. Inl (Undefined_behaviour ''condition wait on a lock of another thread''))
       else Inr (c\<lparr>wakeups := wake\<rparr>, s)) \<and>
    (\<forall>locked_here c' s'. waiter_loop Y V i config locked_here wake (c, s) = Inr (c', s') \<longrightarrow>
       locked_here \<and> \<not> lock_owned c' \<and>
       check_membw (length (slots (system_config c'))) (membw_util s') config = Inr [])"
proof
  have wait: "start_waiter Y V i config wake (d, s) =
      Inl (Undefined_behaviour ''condition wait on a lock of another thread'')" if "freeze Y V i c = Inr d" for d
    using book_fields(7) [OF freeze_book [OF that]] assms(2)
    by (simp add: start_waiter_def waiter_loop.simps waiter_wait_def)
  have "filter (\<lambda>e. over_threshold (length (slots (system_config c))) (membw_util s) (fst e)) config = [] \<longleftrightarrow>
      \<not> (\<exists>e \<in> set config. over_threshold (length (slots (system_config c))) (membw_util s) (fst e))"
    by (auto simp: filter_empty_conv)
  with check_membw_ok [OF assms(3,4)] assms(1) wait
  show "relieve_loop srt Y V i config wake False (c, s) =
      (if \<exists>e \<in> set config. over_threshold (length (slots (system_config c))) (membw_util s) (fst e)
       then rbind (freeze Y V i c) (\<lambda>_. Inl (Undefined_behaviour ''condition wait on a lock of another thread''))
       else Inr (c\<lparr>wakeups := wake\<rparr>, s))"
    by (subst relieve_loop.simps) (auto intro!: rbind_cong)
  have "locked_here" if "waiter_loop Y V i config locked_here wake (c, s) = Inr (c', s')" for locked_here c' s'
    using that assms(2) by (subst (asm) waiter_loop.simps) (auto simp: waiter_wait_def split: if_splits)
  with waiter_leaves show "\<forall>locked_here c' s'. waiter_loop Y V i config locked_here wake (c, s) = Inr (c', s') \<longrightarrow>
       locked_here \<and> \<not> lock_owned c' \<and>
       check_membw (length (slots (system_config c'))) (membw_util s') config = Inr []" by blast
qed

text \<open>Job 1 of the example is on the first machine, which is overloaded; its host answers.\<close>

lemma example_freezes: "\<exists>c'. freeze example_yaml (cgroup_virtuals example_yaml id) 1 example_controller = Inr c'"
proof -
  let ?V = "cgroup_virtuals example_yaml id" and ?c = example_controller
  obtain c1 where c1: "tick_timestamp (freeze_timer 1) ?c = Inr c1" "book c1 = book ?c" "comm c1 = comm ?c"
    by (auto simp: tick_timestamp_def read_clock_def tick_def example_controller_def new_time_measurement_def
        book_def)
  have fields: "machine_usage c1 = [[0, 1], [0, size_max]]" "machines c1 = [''n1'', ''n2'']"
    "id_to_config c1 ! 1 = [(0, 1)]"
    using book_fields [OF c1(2)] by (simp_all add: example_fields)
  have occ: "occupied_elems c1 [(0, 1)] = [(0, 1)]"
    by (simp add: occupied_elems_def fields get2_def size_max_def)
  have "replies_pending c1 [(0, 1)] [''ok''] (\<lambda>t. if t = ''fast/migfra/n2/result'' then [''ok''] else [])"
    using ready_example
    by (simp add: replies_pending_def c1(3) pending_example fields result_topic_def)
  then have "\<exists>m. suspend_resume_config example_yaml ?V (\<lambda>d. suspend_task d) [(0, 1)] c1 = Inr (c1\<lparr>comm := m\<rparr>)"
    using suspend_resume_ok [of "[(0, 1)]" c1 ?V "\<lambda>e. cmd_name_from_id (get2 (machine_usage c1) e)"
        "\<lambda>d. suspend_task d" "\<lambda>e. suspend_message (cmd_name_from_id (get2 (machine_usage c1) e))" "[''ok'']"
        "\<lambda>t. if t = ''fast/migfra/n2/result'' then [''ok''] else []" example_yaml]
    unfolding occ
    by (auto simp: acceptable_reply_example emit_suspend_message cgroup_virtuals_def cgroup_domain_name_def
        fields in2_def at2_in get2_def)
  then show ?thesis using c1(1) fields(3) by (auto simp: freeze_def example_fields)
qed

theorem relieve_without_moves_witness:
  "relieve_loop sort_index example_yaml (cgroup_virtuals example_yaml id) 1 [(0, 1)] [[1]] False
     (example_controller, \<lparr>membw_util = crowded\<rparr>) =
     Inl (Undefined_behaviour ''condition wait on a lock of another thread'') \<and>
   relieve_loop sort_index example_yaml (cgroup_virtuals example_yaml id) 0 [(2, 0)] [[1]] False
     (example_controller, \<lparr>membw_util = crowded\<rparr>) = Inr (example_controller\<lparr>wakeups := [[1]]\<rparr>, \<lparr>membw_util = crowded\<rparr>)"
proof -
  let ?V = "cgroup_virtuals example_yaml id"
  have hyps: "\<not> update_supported ?V" "lock_owned example_controller"
    "util_rows (length (slots (system_config example_controller))) (membw_util \<lparr>membw_util = crowded\<rparr>)"
    using crowded_ok(1) by (simp_all add: cgroup_virtuals_def example_fields)
  have in3: "\<forall>e \<in> set [(0, 1)]. fst e < length (membw_util \<lparr>membw_util = crowded\<rparr>)"
    "\<forall>e \<in> set [(2, 0)]. fst e < length (membw_util \<lparr>membw_util = crowded\<rparr>)" by (simp_all add: crowded_def)
  from example_freezes obtain c' where "freeze example_yaml ?V 1 example_controller = Inr c'" by blast
  with relieve_without_moves [OF hyps in3(1), of sort_index example_yaml 1 "[[1]]"]
    relieve_without_moves [OF hyps in3(2), of sort_index example_yaml 0 "[[1]]"] crowded_ok(4,6)
  show ?thesis by (simp add: example_fields)
qed

subsection \<open>Choosing slots for a job\<close>

text \<open>The first free slot of a machine, and the machines that have one.\<close>

definition free_slot :: "nat \<Rightarrow> nat list \<Rightarrow> nat option" where
  "free_slot n mu = find (\<lambda>s. mu ! s = size_max) [0..<n]"

lemma first_free_ok:
  "\<forall>s \<in> set ss. s < length mu \<Longrightarrow> first_free mu ss = Inr (find (\<lambda>s. mu ! s = size_max) ss)"
  by (induction ss) (auto simp: vec_at_in)

definition free_entries :: "nat \<Rightarrow> (nat \<times> nat list) list \<Rightarrow> execute_config" where
  "free_entries n us = List.map_filter (\<lambda>(m, mu). map_option (Pair m) (free_slot n mu)) us"

lemma pick_slots_ok:
  assumes "\<forall>(m, mu) \<in> set us. length mu = n" and "pick_slots n sz req us config = Inr config'"
  shows "\<exists>k \<le> length (free_entries n us). config' = config @ take k (free_entries n us)"
  using assms
proof (induction us arbitrary: config)
  case Nil
  then show ?case by (intro exI [of _ 0]) simp
next
  case (Cons u us)
  obtain m mu where u: "u = (m, mu)" by (cases u)
  have rows: "\<forall>(m, mu) \<in> set us. length mu = n" using Cons.prems(1) by simp
  have mu: "first_free mu [0..<n] = Inr (free_slot n mu)"
    using Cons.prems(1) u first_free_ok [of "[0..<n]" mu] by (auto simp: free_slot_def)
  show ?case
  proof (cases "free_slot n mu")
    case None
    then have free: "free_entries n (u # us) = free_entries n us"
      using u by (simp add: free_entries_def List.map_filter_simps)
    from Cons.prems(2) mu u None have "config' = config \<or> pick_slots n sz req us config = Inr config'"
      by (auto simp: Let_def split: if_splits)
    then show ?thesis
    proof
      assume "config' = config"
      then show ?thesis by (intro exI [of _ 0]) simp
    qed (use Cons.IH [OF rows] free in simp)
  next
    case (Some s)
    then have free: "free_entries n (u # us) = (m, s) # free_entries n us"
      using u by (simp add: free_entries_def List.map_filter_simps)
    from Cons.prems(2) mu u Some
    have "config' = config @ [(m, s)] \<or> pick_slots n sz req us (config @ [(m, s)]) = Inr config'"
      by (auto simp: Let_def split: if_splits)
    then show ?thesis
    proof
      assume "config' = config @ [(m, s)]"
      then show ?thesis by (intro exI [of _ 1]) (simp add: free)
    next
      assume "pick_slots n sz req us (config @ [(m, s)]) = Inr config'"
      from Cons.IH [OF rows this] obtain k where
        "k \<le> length (free_entries n us)" "config' = (config @ [(m, s)]) @ take k (free_entries n us)" by auto
      then show ?thesis by (intro exI [of _ "Suc k"]) (simp add: free)
    qed
  qed
qed

lemma free_slot_Some: "free_slot n mu = Some s \<Longrightarrow> s < n \<and> mu ! s = size_max"
  by (auto simp: free_slot_def find_Some_iff)

lemma free_slot_None: "free_slot n mu = None \<longleftrightarrow> (\<forall>s < n. mu ! s \<noteq> size_max)"
  by (auto simp: free_slot_def find_None_iff)

lemma free_entries_Cons:
  "free_entries n ((b, row) # us) = (case free_slot n row of None \<Rightarrow> [] | Some s \<Rightarrow> [(b, s)]) @ free_entries n us"
  by (simp add: free_entries_def List.map_filter_simps split: option.split)

lemma free_entries_iff:
  "(m, s) \<in> set (free_entries n (enumerate b u)) \<longleftrightarrow>
     b \<le> m \<and> m < b + length u \<and> free_slot n (u ! (m - b)) = Some s"
proof (induction u arbitrary: b)
  case Nil
  then show ?case by (simp add: free_entries_def List.map_filter_simps)
next
  case (Cons row u)
  have head: "(m, s) \<in> set (case free_slot n row of None \<Rightarrow> [] | Some s \<Rightarrow> [(b, s)]) \<longleftrightarrow> m = b \<and> free_slot n row = Some s"
    by (cases "free_slot n row") auto
  show ?case
  proof (cases "b < m")
    case True
    then obtain d where "m = Suc (b + d)" by (auto simp: less_iff_Suc_add)
    then show ?thesis using Cons.IH [of "Suc b"] by (simp add: free_entries_Cons head)
  qed (auto simp: free_entries_Cons head Cons.IH)
qed

lemma free_entries_ascending: "sorted_wrt (<) (map fst (free_entries n (enumerate b u)))"
proof (induction u arbitrary: b)
  case Nil
  then show ?case by (simp add: free_entries_def List.map_filter_simps)
next
  case (Cons row u)
  have "\<forall>e \<in> set (free_entries n (enumerate (Suc b) u)). b < fst e"
    by (auto simp: free_entries_iff)
  with Cons show ?case by (cases "free_slot n row") (auto simp: free_entries_Cons)
qed

lemma take_below:
  assumes "sorted_wrt (<) (map fst xs)" and "e \<in> set (take k xs)" and "e' \<in> set xs" and "fst e' \<le> (fst e :: nat)"
  shows "e' \<in> set (take k xs)"
proof (rule ccontr)
  assume out: "e' \<notin> set (take k xs)"
  have split: "xs = take k xs @ drop k xs" by simp
  with assms(3) out have e': "e' \<in> set (drop k xs)" by (metis Un_iff set_append)
  have "sorted_wrt (<) (map fst (take k xs) @ map fst (drop k xs))"
    using assms(1) by (metis map_append split)
  with assms(2) e' have "fst e < fst e'" by (simp add: sorted_wrt_append)
  with assms(4) show False by simp
qed

lemma pick_slots_first:
  assumes "\<forall>mu \<in> set u. length mu = n" and "pick_slots n sz req (enumerate 0 u) [] = Inr config"
  shows "sorted_wrt (<) (map fst config)" and "length config \<le> length u"
    and "\<lbrakk>e \<in> set config; m \<le> fst e; m \<notin> fst ` set config; s < n\<rbrakk> \<Longrightarrow> u ! m ! s \<noteq> size_max"
proof -
  let ?free = "free_entries n (enumerate 0 u)"
  have "\<forall>(m, mu) \<in> set (enumerate 0 u). length mu = n"
    using assms(1) by (auto simp: enumerate_eq_zip dest: set_zip_rightD)
  from pick_slots_ok [OF this assms(2)] obtain k where config: "config = take k ?free" by auto
  show asc: "sorted_wrt (<) (map fst config)"
    using free_entries_ascending unfolding config take_map [symmetric] by (rule sorted_wrt_take)
  have m: "fst e < length u" if "e \<in> set config" for e
    using that free_entries_iff [of "fst e" "snd e" n 0 u] by (auto simp: config dest: in_set_takeD)
  have "distinct (map fst config)" using asc by (simp add: strict_sorted_iff)
  then have "length config = card (set (map fst config))" by (metis distinct_card length_map)
  also have "\<dots> \<le> card {..<length u}" using m by (intro card_mono) auto
  finally show "length config \<le> length u" by simp
  assume e: "e \<in> set config" "m \<le> fst e" "m \<notin> fst ` set config" "s < n"
  have "free_slot n (u ! m) = None"
  proof (rule ccontr)
    assume "free_slot n (u ! m) \<noteq> None"
    then obtain s' where "free_slot n (u ! m) = Some s'" by blast
    with m [OF e(1)] e(2) have "(m, s') \<in> set ?free" by (simp add: free_entries_iff)
    from take_below [OF free_entries_ascending e(1) [unfolded config] this] e(2)
    have "(m, s') \<in> set config" by (simp add: config)
    with e(3) show False by force
  qed
  with e(4) show "u ! m ! s \<noteq> size_max" by (simp add: free_slot_None)
qed

text \<open>
  C8: the bandwidth-aware scheduler starts a job on one slot of each of as many machines as it
  needs: the machines ascend, the slots were free and are the job's now, and no machine below
  the last of them that could have taken the job has been passed over. This holds for every
  controller whose virtual functions keep the contract of the base class.
\<close>

theorem start_job_first_free:
  assumes "controller_interface V" and "wf c" and "cmd_counter c < size_max"
    and "length (slots (system_config c)) = 2" and "slot_size (system_config c) = Inr sz"
    and "sz * length (machines c) \<le> size_max" and "start_job V job (c, s) = Inr ((i, config), (c', s'))"
  shows "i = cmd_counter c \<and> id_to_config c' ! i = config \<and> length config * sz = req_cpus job \<and>
    sorted_wrt (<) (map fst config) \<and> (\<forall>e \<in> set config. get2 (machine_usage c') e = i) \<and>
    (\<forall>e \<in> set config. \<forall>m \<le> fst e. m \<in> fst ` set config \<or>
       (\<forall>s < 2. get2 (machine_usage c') (m, s) \<noteq> size_max))"
proof -
  from assms(4,5,7) obtain c1 where st:
    "wait_for_ressource V multi_app_command_done (req_cpus job) 1 (c, s) = Inr (c1, s')"
    "pick_slots 2 sz (req_cpus job) (enumerate 0 (machine_usage c1)) [] = Inr config"
    "wrap64 (length config * sz) = req_cpus job" "execute V job config c1 = Inr (i, c')"
    by (auto simp: start_job_def Let_def)
  from controller_interface.wait_until_later [OF assms(1) st(1) [unfolded wait_for_ressource_def] assms(2)]
  have w: "wf c1" "machines c1 = machines c" "cmd_counter c1 = cmd_counter c" by (auto simp: later_def)
  have id1: "cmd_counter c1 < size_max" using w(3) assms(3) by simp
  note ex = controller_interface.execute_started [OF assms(1) w(1) id1 st(4)]
  have sh: "\<forall>mu \<in> set (machine_usage c1). length mu = 2" "length (machine_usage c1) = length (machines c)"
    using w by (simp_all add: wf_def shape_def)
  note pick = pick_slots_first [OF sh(1) st(2)]
  have "length config * sz \<le> length (machines c) * sz" using pick(2) sh(2) by (intro mult_le_mono1) simp
  then have "length config * sz \<le> size_max" using assms(6) by (metis le_trans mult.commute)
  then have size: "length config * sz = req_cpus job" using st(3) wrap64_id by simp
  have get: "get2 (machine_usage c') p =
      (if p \<in> set config then cmd_counter c else get2 (machine_usage c1) p)" for p
    unfolding ex(7) ex(2) w(3) using ex(10) by (intro get2_put_all) blast
  have passed: "get2 (machine_usage c') (m, t) \<noteq> size_max"
    if "e \<in> set config" "m \<le> fst e" "m \<notin> fst ` set config" "t < 2" for e m t
  proof -
    have "(m, t) \<notin> set config" using that(3) by force
    with pick(3) [OF that] show ?thesis by (simp add: get) (simp add: get2_def)
  qed
  have i: "i = cmd_counter c" using ex(2) w(3) by simp
  have "length (id_to_config c1) = cmd_counter c" using w by (simp add: wf_def)
  then have "id_to_config c' ! i = config" using ex(2,5) w(3) by (simp add: nth_append)
  moreover have "\<forall>e \<in> set config. get2 (machine_usage c') e = i" using get i by simp
  ultimately show ?thesis using i size pick(1) passed by blast
qed

lemma idle_vm_pick:
  "pick_slots 2 2 4 [(0, [size_max, size_max]), (1, [size_max, size_max])] [] = Inr [(0, 0), (1, 0)]"
  by (simp add: wrap64_id size_max_def upt_rec vec_at_in)

lemma idle_vm_available: "resource_available 4 1 (take_lock idle_vm) = Inr True"
proof -
  have "slot_size (system_config idle_vm) = Inr 2" "length (slots (system_config idle_vm)) = 2"
    using idle_vm_ok(2) by (simp_all add: consec_ok_def two_slots_def)
  then show ?thesis
    by (simp add: resource_available_def take_lock_def idle_vm_fields upt_rec vec_at_in wrap64_id size_max_def)
qed

theorem start_job_first_free_witness:
  "\<exists>c'. start_job (vm_virtuals example_yaml) example_job (idle_vm, new_multi_app_sched) =
       Inr ((0, [(0, 0), (1, 0)]), (c', new_multi_app_sched)) \<and>
     get2 (machine_usage c') (0, 0) = 0 \<and> get2 (machine_usage c') (1, 0) = 0"
proof -
  let ?V = "vm_virtuals example_yaml"
  let ?c = "take_lock idle_vm\<lparr>wakeups := wakeups idle_vm\<rparr>"
  have sz: "slot_size (system_config idle_vm) = Inr 2" "length (slots (system_config idle_vm)) = 2"
    using idle_vm_ok(2) by (simp_all add: consec_ok_def two_slots_def)
  have wf: "wf idle_vm" using idle_vm_ok(2) by (simp add: consec_ok_def)
  have wait: "wait_for_ressource ?V multi_app_command_done 4 1 (idle_vm, new_multi_app_sched) =
      Inr (?c, new_multi_app_sched)"
    using idle_vm_available by (simp add: wait_for_ressource_def wait_until_def wait_loop.simps)
  have "is_running ?c = is_running idle_vm" by (intro ext) (simp add: is_running_def take_lock_def)
  then have go: "set_to_go ?c" "lock_owned ?c"
    using idle_vm_ok(1) unfolding set_to_go_def wf_def by (simp_all (no_asm_simp)) (simp_all add: take_lock_def)
  have usable: "vm_usable ?c (0, 0)" "vm_usable ?c (1, 0)"
    by (simp_all add: vm_usable_def take_lock_def idle_vm_fields in2_example)
  have fields: "machine_usage ?c = [[size_max, size_max], [size_max, size_max]]" "cmd_counter ?c = 0"
    by (simp_all add: take_lock_def idle_vm_fields)
  have "\<forall>p \<in> set [(0, 0), (1, 0)]. in2 (machine_usage ?c) p \<and> get2 (machine_usage ?c) p = size_max"
    unfolding fields by (simp add: in2_example get2_def)
  moreover have "\<forall>e \<in> set [(0, 0), (1, 0)]. vm_usable ?c e" using usable by simp
  moreover have "cmd_counter ?c < size_max" unfolding fields by (simp add: size_max_def)
  moreover have "[(0, 0), (1, 0)] \<noteq> [] \<and> distinct [(0 :: nat, 0 :: nat), (1, 0)]" by simp
  ultimately obtain c' where c': "execute ?V example_job [(0, 0), (1, 0)] ?c = Inr (0, c')"
    using vml.execute_returns [OF go, of "[(0, 0), (1, 0)]" example_yaml example_job] unfolding fields(2) by blast
  have "start_job ?V example_job (idle_vm, new_multi_app_sched) =
      Inr ((0, [(0, 0), (1, 0)]), (c', new_multi_app_sched))"
    using sz wait c' idle_vm_pick idle_vm_demand(1) fields(1)
    by (simp add: start_job_def idle_vm_fields wrap64_id size_max_def)
  from this start_job_first_free [OF vmc.controller_interface_axioms wf _ sz(2,1) _ this]
  show ?thesis by (simp add: idle_vm_fields size_max_def)
qed

end
