(* ===== verification/Slot_Xml_Properties.thy ===== *)
theory Slot_Xml_Properties
  imports Slot_Xml Vm_Start Text_Files
begin

section \<open>The description of a slot, rewritten for a machine\<close>

text \<open>
  The matcher first, against its specification: a text list fits a list of items if every item
  takes its text; the matcher finds a fitting prefix exactly if there is one. Then where a
  pattern cannot match (a character it asks for is missing, a character it refuses cuts the text
  in two) and the matches of literals and stars. With them the four passes of
  \<open>generate_start_task\<close> are followed over the lines of a description, for every machine of the
  pool: each line gets the name, the image, the identifier or the address of the machine, and
  all other lines stay.
\<close>

subsection \<open>The matcher and its specification\<close>

fun fits :: "item list \<Rightarrow> string list \<Rightarrow> bool" where
  "fits [] ts \<longleftrightarrow> ts = []"
| "fits (One p # r) ts \<longleftrightarrow> (\<exists>c ts'. ts = [c] # ts' \<and> p c \<and> fits r ts')"
| "fits (Many p # r) ts \<longleftrightarrow> (\<exists>t ts'. ts = t # ts' \<and> (\<forall>c \<in> set t. p c) \<and> fits r ts')"

lemma match_many_Cons:
  "match_items (Many p # r) (c # s) =
     (case (if p c then match_items (Many p # r) s else None) of
        Some ts \<Rightarrow> (case ts of [] \<Rightarrow> map_option (Cons []) (match_items r (c # s)) | t # ts \<Rightarrow> Some ((c # t) # ts))
      | None \<Rightarrow> map_option (Cons []) (match_items r (c # s)))"
  by (simp split: option.split list.split)

lemma match_items_sound:
  "match_items r s = Some ts \<Longrightarrow> fits r ts \<and> (\<exists>u. s = concat ts @ u)"
proof (induction r arbitrary: s ts)
  case Nil
  then show ?case by simp
next
  case (Cons i r)
  show ?case
  proof (cases i)
    case (One p)
    with Cons show ?thesis by (cases s) (auto split: if_splits)
  next
    case (Many p)
    from Cons.prems show ?thesis
      unfolding Many
    proof (induction s arbitrary: ts)
      case Nil
      then show ?case using Cons.IH [of "[]"] by auto
    next
      case (Cons c s)
      show ?case
      proof (cases "match_items r (c # s) = Some (tl ts) \<and> ts = [] # tl ts")
        case True
        then show ?thesis using local.Cons.IH Cons.prems \<open>\<And>ts s. match_items r s = Some ts \<Longrightarrow> _\<close>
          by (metis append_Nil concat.simps(2) empty_iff empty_set fits.simps(3))
      next
        case False
        with Cons.prems obtain t ts' where "p c" "match_items (Many p # r) s = Some (t # ts')"
          "ts = (c # t) # ts'"
          unfolding match_many_Cons by (auto split: if_splits option.splits list.splits)
        with Cons.IH show ?thesis by auto
      qed
    qed
  qed
qed

lemma match_items_complete:
  "fits r ts \<Longrightarrow> match_items r (concat ts @ u) \<noteq> None"
proof (induction r arbitrary: ts)
  case Nil
  then show ?case by simp
next
  case (Cons i r)
  show ?case
  proof (cases i)
    case (One p)
    with Cons show ?thesis by auto
  next
    case (Many p)
    with Cons.prems obtain t ts' where ts: "ts = t # ts'" "\<forall>c \<in> set t. p c" "fits r ts'" by auto
    from Cons.IH [OF ts(3)] have rest: "match_items r (concat ts' @ u) \<noteq> None" .
    have "match_items (Many p # r) (t @ concat ts' @ u) \<noteq> None"
      using ts(2)
    proof (induction t)
      case Nil
      then show ?case
      proof (cases "concat ts' @ u")
        case Nil
        with rest show ?thesis unfolding append_Nil Nil by simp
      next
        case (Cons c s)
        with rest show ?thesis unfolding append_Nil Cons match_many_Cons by (auto split: option.split list.split)
      qed
    next
      case (Cons c t)
      then obtain ts1 where m: "match_items (Many p # r) (t @ concat ts' @ u) = Some ts1" by auto
      with match_items_sound [OF m] Cons.prems show ?case unfolding append_Cons match_many_Cons by auto
    qed
    then show ?thesis by (simp add: Many ts(1))
  qed
qed

subsection \<open>Where a pattern cannot match\<close>

fun no_match :: "item list list \<Rightarrow> string \<Rightarrow> bool" where
  "no_match re [] \<longleftrightarrow> True"
| "no_match re (c # s) \<longleftrightarrow> match_items (concat re) (c # s) = None \<and> no_match re s"

lemma no_match_replace: "no_match re s \<Longrightarrow> regex_replace re f s = s"
  by (induction s) (simp_all add: match_groups_def)

lemma no_match_suffixes:
  "(\<And>a b. s = a @ b \<Longrightarrow> match_items (concat re) b = None) \<Longrightarrow> no_match re s"
proof (induction s)
  case (Cons c s)
  from Cons.prems [of "[]" "c # s"] have "match_items (concat re) (c # s) = None" by simp
  moreover have "no_match re s" using Cons.prems [of "c # a" for a] by (intro Cons.IH) simp
  ultimately show ?case by simp
qed simp

lemma fits_takes: "fits r ts \<Longrightarrow> One p \<in> set r \<Longrightarrow> \<exists>c \<in> set (concat ts). p c"
proof (induction r ts rule: fits.induct)
  case (3 q r ts)
  then show ?case by auto
qed auto

text \<open>A text that lacks a character a pattern asks for does not match it.\<close>

lemma no_match_lacks:
  assumes "One p \<in> set (concat re)" and "\<forall>c \<in> set s. \<not> p c"
  shows "no_match re s"
proof (rule no_match_suffixes)
  fix a b assume s: "s = a @ b"
  show "match_items (concat re) b = None"
  proof (cases "match_items (concat re) b")
    case (Some ts)
    with match_items_sound [OF this] fits_takes [OF _ assms(1), of ts] assms(2) s show ?thesis by auto
  qed
qed

text \<open>A character that no item of a pattern takes cuts the text in two.\<close>

definition refuses :: "char \<Rightarrow> item list \<Rightarrow> bool" where
  "refuses c r \<longleftrightarrow> (\<forall>i \<in> set r. case i of One p \<Rightarrow> \<not> p c | Many p \<Rightarrow> \<not> p c)"

lemma match_items_cut: "refuses c r \<Longrightarrow> match_items r (s @ c # t) = match_items r s"
  by (induction r s rule: match_items.induct) (auto simp: refuses_def split: option.splits list.splits)

definition barrier :: "char \<Rightarrow> item list list \<Rightarrow> bool" where
  "barrier c re \<longleftrightarrow> refuses c (concat re) \<and> match_items (concat re) [] = None"

lemma barrier_here: "barrier c re \<Longrightarrow> match_items (concat re) (c # t) = None"
  using match_items_cut [of c "concat re" "[]" t] by (simp add: barrier_def)

lemma no_match_cut:
  "barrier c re \<Longrightarrow> no_match re (s @ c # t) \<longleftrightarrow> no_match re s \<and> no_match re t"
proof (induction s)
  case Nil
  then show ?case by (simp add: barrier_here)
next
  case (Cons d s)
  then show ?case using match_items_cut [of c "concat re" "d # s" t] by (simp add: barrier_def)
qed

lemma no_match_indent:
  "(\<And>c. c \<in> set k \<Longrightarrow> barrier c re) \<Longrightarrow> no_match re (k @ s) \<longleftrightarrow> no_match re s"
  by (induction k) (simp_all add: barrier_here)

lemma fits_length: "fits r ts \<Longrightarrow> length ts = length r"
  by (induction r ts rule: fits.induct) auto

lemma regroup_concat: "length ts = length (concat re) \<Longrightarrow> concat (regroup re ts) = concat ts"
proof (induction re arbitrary: ts)
  case (Cons g re)
  have "concat (take (length g) ts) @ concat (drop (length g) ts) = concat ts"
    by (metis append_take_drop_id concat_append)
  with Cons show ?case by simp
qed simp

lemma match_groups_prefix:
  assumes "match_groups re s = Some gs" shows "\<exists>u. s = concat gs @ u"
proof -
  from assms obtain ts where ts: "match_items (concat re) s = Some ts" "gs = regroup re ts"
    by (auto simp: match_groups_def)
  with match_items_sound [OF ts(1)] fits_length show ?thesis by (metis regroup_concat)
qed

lemma replace_cut:
  assumes "barrier c re"
  shows "regex_replace re f (s @ c # t) = regex_replace re f s @ c # regex_replace re f t"
proof (induction s rule: length_induct)
  case (1 s)
  show ?case
  proof (cases s)
    case Nil
    then show ?thesis using barrier_here [OF assms] by (simp add: match_groups_def)
  next
    case (Cons d s0)
    have same: "match_groups re (d # s0 @ c # t) = match_groups re (d # s0)"
      using match_items_cut [of c "concat re" "d # s0" t] assms by (simp add: match_groups_def barrier_def)
    show ?thesis
    proof (cases "match_groups re (d # s0)")
      case None
      with same 1 show ?thesis by (simp add: Cons)
    next
      case (Some gs)
      let ?n = "length (concat gs) - 1"
      from match_groups_prefix [OF Some] have "length (concat gs) \<le> length (d # s0)"
        by (metis le_add1 length_append)
      then have n: "?n \<le> length s0" by simp
      have "regex_replace re f (drop ?n s0 @ c # t) =
          regex_replace re f (drop ?n s0) @ c # regex_replace re f t"
        using 1 by (simp add: Cons)
      with n show ?thesis by (simp add: Cons same Some)
    qed
  qed
qed

lemma replace_between:
  assumes "barrier a re" and "barrier b re" and "no_match re x" and "no_match re z"
  shows "regex_replace re f (x @ a # y @ b # z) = x @ a # regex_replace re f y @ b # z"
proof -
  have "regex_replace re f (x @ a # y @ b # z) =
      regex_replace re f x @ a # regex_replace re f (y @ b # z)" by (rule replace_cut [OF assms(1)])
  also have "regex_replace re f (y @ b # z) = regex_replace re f y @ b # regex_replace re f z"
    by (rule replace_cut [OF assms(2)])
  finally show ?thesis by (simp only: no_match_replace [OF assms(3)] no_match_replace [OF assms(4)])
qed

text \<open>Before the first character of a match.\<close>

lemma replace_skip:
  assumes "concat re = One p # r" and "\<forall>c \<in> set k. \<not> p c"
  shows "regex_replace re f (k @ s) = k @ regex_replace re f s"
  using assms(2) by (induction k) (simp_all add: match_groups_def assms(1))

lemma replace_all:
  assumes "match_items (concat re) s = Some ts" and "concat ts = s" and "s \<noteq> []"
  shows "regex_replace re f s = f (regroup re ts)"
proof (cases s)
  case (Cons c s')
  have "concat (regroup re ts) = s"
    using match_items_sound [OF assms(1)] fits_length assms(2) by (metis regroup_concat)
  with assms(1) show ?thesis by (simp add: Cons match_groups_def)
qed (use assms(3) in simp)

subsection \<open>Matches of literals and stars\<close>

lemma match_literal:
  "match_items (literal l @ r) (l @ s) = map_option ((@) (map (\<lambda>c. [c]) l)) (match_items r s)"
  by (induction l) (simp_all add: literal_def option.map_comp comp_def option.map_ident)

lemma match_many_none:
  assumes "\<And>t' s'. s = t' @ s' \<Longrightarrow> match_items r s' = None"
  shows "match_items (Many p # r) s = None"
proof (cases "match_items (Many p # r) s")
  case (Some ts)
  with match_items_sound [OF Some] obtain t ts' u where "s = t @ concat ts' @ u" "fits r ts'" by auto
  with match_items_complete assms show ?thesis by blast
qed

text \<open>A star takes \<open>t\<close> when the rest matches after it and nowhere later.\<close>

lemma match_many:
  assumes "\<forall>c \<in> set t. p c" and "match_items r s = Some ts"
    and "\<And>t' s'. s = t' @ s' \<Longrightarrow> t' \<noteq> [] \<Longrightarrow> match_items r s' = None"
  shows "match_items (Many p # r) (t @ s) = Some (t # ts)"
  using assms(1)
proof (induction t)
  case Nil
  show ?case
  proof (cases s)
    case (Cons c s0)
    have "match_items (Many p # r) s0 = None"
      using assms(3) [of "c # t'" for t'] by (intro match_many_none) (simp add: Cons)
    with assms(2) show ?thesis by (simp add: Cons)
  qed (use assms(2) in simp)
next
  case (Cons c t)
  then show ?case by simp
qed

text \<open>A literal is found only where its first character is.\<close>

lemma literal_lacks:
  assumes "c \<notin> set s" shows "match_items (literal (c # l) @ r) s = None"
  using assms by (cases s) (auto simp: literal_def)

lemma match_many_literal:
  assumes "\<forall>x \<in> set t. p x" and "match_items r s = Some ts" and "c \<notin> set (l @ s)"
  shows "match_items (Many p # literal (c # l) @ r) (t @ (c # l) @ s) =
    Some (t # map (\<lambda>x. [x]) (c # l) @ ts)"
proof (rule match_many [OF assms(1)])
  show "match_items (literal (c # l) @ r) ((c # l) @ s) = Some (map (\<lambda>x. [x]) (c # l) @ ts)"
    unfolding match_literal by (simp add: assms(2))
  fix t' s' assume "(c # l) @ s = t' @ s'" "t' \<noteq> []"
  then have "c \<notin> set s'" using assms(3) by (cases t') auto
  then show "match_items (literal (c # l) @ r) s' = None" by (rule literal_lacks)
qed

subsection \<open>The four patterns of the code\<close>

lemma name_items: "concat name_regex =
  literal ''<name>'' @ One line_char # Many line_char # literal ''</name>'' @ []"
  by (simp add: name_regex_def)

lemma disk_items: "concat disk_regex =
  Many line_char # literal ''<source file=\"'' @ Many line_char # literal ''parastation-'' @
    Many line_char # literal ''.qcow2\"/>'' @ []"
  by (simp add: disk_regex_def)

lemma line_break_barrier: "barrier CHR 0x0A name_regex" "barrier CHR 0x0A disk_regex"
  "barrier CHR 0x0A uuid_regex" "barrier CHR 0x0A mac_regex"
  by (simp_all add: barrier_def refuses_def name_regex_def disk_regex_def uuid_regex_def mac_regex_def
      literal_def line_char_def lower_hex_def hex_digit_def eval_nat_numeral)

text \<open>What separates numbers in a description is no part of an identifier or an address.\<close>

definition separator :: "char \<Rightarrow> bool" where
  "separator c \<longleftrightarrow> c \<in> set ''<>\"/. '' \<or> c = CHR 0x09"

lemma separator_barrier: "separator c \<Longrightarrow> barrier c uuid_regex" "separator c \<Longrightarrow> barrier c mac_regex"
  by (auto simp: separator_def barrier_def refuses_def uuid_regex_def mac_regex_def literal_def
      lower_hex_def hex_digit_def eval_nat_numeral)

lemma replace_name:
  assumes "n \<noteq> []" and "list_all line_char n"
  shows "regex_replace name_regex (keep_outer new) (''<name>'' @ n @ ''</name>'') =
    ''<name>'' @ new @ ''</name>''"
proof -
  from assms obtain c t where n: "n = c # t" "line_char c" "\<forall>x \<in> set t. line_char x"
    by (cases n) (auto simp: list_all_iff)
  from match_many_literal [where t = t and p = line_char and c = "CHR ''<''" and l = "''/name>''"
      and r = "[]" and s = "[]"] n(3)
  have "match_items (Many line_char # literal ''</name>'' @ []) (t @ ''</name>'' @ []) =
    Some (t # map (\<lambda>x. [x]) ''</name>'' @ [])" by simp
  then have "match_items (concat name_regex) (''<name>'' @ n @ ''</name>'') =
    Some (map (\<lambda>x. [x]) ''<name>'' @ [c] # t # map (\<lambda>x. [x]) ''</name>'')"
    unfolding name_items match_literal by (simp add: n(1,2))
  from replace_all [OF this, of "keep_outer new"] show ?thesis
    by (simp add: n(1) name_regex_def literal_def)
qed

lemma replace_disk:
  assumes "list_all line_char (k @ dir @ d)" and "CHR ''<'' \<notin> set (dir @ d)" and "CHR ''p'' \<notin> set d"
  shows "regex_replace disk_regex (keep_outer new)
      (k @ ''<source file=\"'' @ dir @ ''parastation-'' @ d @ ''.qcow2\"/>'') =
    k @ ''<source file=\"'' @ dir @ new @ ''.qcow2\"/>''"
proof -
  have chars: "\<forall>x \<in> set k. line_char x" "\<forall>x \<in> set dir. line_char x" "\<forall>x \<in> set d. line_char x"
    using assms(1) by (auto simp: list_all_iff)
  have m3: "match_items (Many line_char # literal ''.qcow2\"/>'' @ []) (d @ ''.qcow2\"/>'' @ []) =
      Some (d # map (\<lambda>x. [x]) ''.qcow2\"/>'' @ [])"
    by (rule match_many_literal) (use chars(3) in simp_all)
  have m2: "match_items (Many line_char # literal ''parastation-'' @ Many line_char #
        literal ''.qcow2\"/>'' @ []) (dir @ ''parastation-'' @ d @ ''.qcow2\"/>'' @ []) =
      Some (dir # map (\<lambda>x. [x]) ''parastation-'' @ d # map (\<lambda>x. [x]) ''.qcow2\"/>'' @ [])"
    by (rule match_many_literal [OF _ m3]) (use chars(2) assms(3) in simp_all)
  have "match_items (concat disk_regex)
        (k @ ''<source file=\"'' @ dir @ ''parastation-'' @ d @ ''.qcow2\"/>'' @ []) =
      Some (k # map (\<lambda>x. [x]) ''<source file=\"'' @ dir # map (\<lambda>x. [x]) ''parastation-'' @
        d # map (\<lambda>x. [x]) ''.qcow2\"/>'' @ [])"
    unfolding disk_items by (rule match_many_literal [OF _ m2]) (use chars(1) assms(2) in simp_all)
  from replace_all [OF this, of "keep_outer new"] show ?thesis
    by (simp add: disk_regex_def literal_def)
qed

text \<open>The form of an identifier and of an address.\<close>

definition uuid_form :: "string \<Rightarrow> bool" where
  "uuid_form u \<longleftrightarrow> length u = 36 \<and> match_items (concat uuid_regex) u \<noteq> None"

definition mac_form :: "string \<Rightarrow> bool" where
  "mac_form m \<longleftrightarrow> length m = 17 \<and> match_items (concat mac_regex) m \<noteq> None"

definition only_ones :: "item list \<Rightarrow> bool" where
  "only_ones r \<longleftrightarrow> (\<forall>i \<in> set r. case i of One p \<Rightarrow> True | Many p \<Rightarrow> False)"

lemma fits_ones: "only_ones r \<Longrightarrow> fits r ts \<Longrightarrow> length (concat ts) = length r"
  by (induction r ts rule: fits.induct) (auto simp: only_ones_def)

text \<open>The items of such a pattern take the characters one by one.\<close>

lemma ones_nth:
  "only_ones r \<Longrightarrow> match_items r s = Some ts \<Longrightarrow> i < length r \<Longrightarrow> r ! i = One p \<Longrightarrow> i < length s \<and> p (s ! i)"
proof (induction r s arbitrary: ts i rule: match_items.induct)
  case (3 q r c s)
  then show ?case by (cases i) (auto simp: only_ones_def split: if_splits)
qed (auto simp: only_ones_def)

lemma ones_short:
  assumes "only_ones (concat re)" and "length s < length (concat re)"
  shows "no_match re s"
proof (rule no_match_suffixes)
  fix a b assume s: "s = a @ b"
  show "match_items (concat re) b = None"
  proof (cases "match_items (concat re) b")
    case (Some ts)
    with match_items_sound [OF Some] obtain u where "b = concat ts @ u" "fits (concat re) ts" by blast
    with fits_ones [OF assms(1)] assms(2) s show ?thesis by auto
  qed
qed

lemma replace_ones:
  assumes "only_ones (concat re)" and "match_items (concat re) s \<noteq> None"
    and "length s = length (concat re)" and "concat re \<noteq> []"
  shows "regex_replace re (\<lambda>_. new) s = new"
proof -
  from assms(2) obtain ts where ts: "match_items (concat re) s = Some ts" by auto
  with match_items_sound obtain u where "s = concat ts @ u" "fits (concat re) ts" by blast
  moreover from this have "length (concat ts) = length s" using fits_ones [OF assms(1)] assms(3) by metis
  ultimately have "concat ts = s" by simp
  moreover have "s \<noteq> []" using assms(3,4) by (metis length_0_conv)
  ultimately show ?thesis using replace_all [OF ts, of "\<lambda>_. new"] by simp
qed

lemma ones_regex: "only_ones (concat uuid_regex)" "only_ones (concat mac_regex)"
  "length (concat uuid_regex) = 36" "length (concat mac_regex) = 17"
  by (simp_all add: only_ones_def uuid_regex_def mac_regex_def literal_def eval_nat_numeral)

lemma replace_uuid:
  assumes "uuid_form u" shows "regex_replace uuid_regex (\<lambda>_. new) u = new"
proof (rule replace_ones [OF ones_regex(1)])
  show "concat uuid_regex \<noteq> []" using ones_regex(3) by (metis list.size(3) zero_neq_numeral)
qed (use assms in \<open>simp_all only: uuid_form_def ones_regex(3) simp_thms\<close>)

lemma replace_mac:
  assumes "mac_form m" shows "regex_replace mac_regex (\<lambda>_. new) m = new"
proof (rule replace_ones [OF ones_regex(2)])
  show "concat mac_regex \<noteq> []" using ones_regex(4) by (metis list.size(3) zero_neq_numeral)
qed (use assms in \<open>simp_all only: mac_form_def ones_regex(4) simp_thms\<close>)

subsection \<open>The lines of a description\<close>

datatype xml_line =
  Name_line string string | Disk_line string string string | Uuid_line string string
| Mac_line string string | Other_line string

fun line_text :: "xml_line \<Rightarrow> string" where
  "line_text (Name_line k n) = k @ ''<name>'' @ n @ ''</name>''"
| "line_text (Disk_line k dir n) = k @ ''<source file=\"'' @ dir @ ''/'' @ n @ ''.qcow2\"/>''"
| "line_text (Uuid_line k u) = k @ ''<uuid>'' @ u @ ''</uuid>''"
| "line_text (Mac_line k m) = k @ ''<mac address=\"'' @ m @ ''\"/>''"
| "line_text (Other_line s) = s"

definition indent :: "string \<Rightarrow> bool" where
  "indent k \<longleftrightarrow> set k \<subseteq> {CHR '' '', CHR 0x09}"

definition no_identity :: "string \<Rightarrow> bool" where
  "no_identity s \<longleftrightarrow> no_match uuid_regex s \<and> no_match mac_regex s"

fun ok_line :: "xml_line \<Rightarrow> bool" where
  "ok_line (Name_line k n) \<longleftrightarrow> indent k \<and> n \<noteq> [] \<and> list_all line_char n"
| "ok_line (Disk_line k dir n) \<longleftrightarrow> indent k \<and> list_all line_char (dir @ n) \<and>
     CHR ''<'' \<notin> set (dir @ n) \<and> no_identity dir \<and>
     take 12 n = ''parastation-'' \<and> CHR ''p'' \<notin> set (drop 12 n)"
| "ok_line (Uuid_line k u) \<longleftrightarrow> indent k \<and> uuid_form u"
| "ok_line (Mac_line k m) \<longleftrightarrow> indent k \<and> mac_form m"
| "ok_line (Other_line s) \<longleftrightarrow> no_match name_regex s \<and> no_match disk_regex s \<and> no_identity s"

text \<open>What the code is to do with a line.\<close>

fun renew :: "vm_pool_elemT \<Rightarrow> string \<Rightarrow> xml_line \<Rightarrow> xml_line" where
  "renew vm uuid (Name_line k n) = Name_line k (pool_name vm)"
| "renew vm uuid (Disk_line k dir n) = Disk_line k dir (pool_name vm)"
| "renew vm uuid (Uuid_line k u) = Uuid_line k uuid"
| "renew vm uuid (Mac_line k m) = Mac_line k (mac_addr vm)"
| "renew vm uuid (Other_line s) = Other_line s"

lemma replace_lines:
  assumes "barrier CHR 0x0A re"
  shows "regex_replace re f (unlines ls) = unlines (map (regex_replace re f) ls)"
  by (induction ls) (simp_all add: unlines_def replace_cut [OF assms])

text \<open>The four passes go line by line.\<close>

lemma slot_xml_lines:
  "slot_xml (unlines ls) vm uuid = unlines (map (\<lambda>l. slot_xml l vm uuid) ls)"
  by (simp add: slot_xml_def Let_def replace_lines line_break_barrier comp_def)

text \<open>The names of the pool.\<close>

definition good_name :: "string \<Rightarrow> bool" where
  "good_name n \<longleftrightarrow> n \<noteq> [] \<and> CHR 0x22 \<notin> set n \<and> CHR ''<'' \<notin> set n \<and> length n < 17"

lemma pool_names: "vm \<in> set glob_vm_pool \<Longrightarrow> good_name (pool_name vm)"
proof -
  have "list_all (\<lambda>vm. good_name (pool_name vm)) glob_vm_pool"
    by (simp add: glob_vm_pool_def pool_elem_def good_name_def)
  then show "vm \<in> set glob_vm_pool \<Longrightarrow> good_name (pool_name vm)" by (simp add: list_all_iff)
qed

lemma good_name_identity: "good_name n \<Longrightarrow> no_identity n"
  using ones_short [OF ones_regex(1), of n] ones_short [OF ones_regex(2), of n] ones_regex(3,4)
  by (simp add: good_name_def no_identity_def)

lemma no_identity_cut: "separator c \<Longrightarrow> no_identity (s @ c # t) \<longleftrightarrow> no_identity s \<and> no_identity t"
  using no_match_cut separator_barrier by (auto simp: no_identity_def)

lemma no_identity_short: "length s < 17 \<Longrightarrow> no_identity s"
  using ones_short [OF ones_regex(1), of s] ones_short [OF ones_regex(2), of s] ones_regex(3,4)
  by (simp add: no_identity_def)

lemma indent_separator: "indent k \<Longrightarrow> c \<in> set k \<Longrightarrow> separator c"
  by (auto simp: indent_def separator_def)

lemma no_identity_indent: "indent k \<Longrightarrow> no_identity (k @ s) \<longleftrightarrow> no_identity s"
  using no_match_indent [of k] separator_barrier indent_separator by (metis no_identity_def)

subsection \<open>Identifiers and addresses\<close>

lemma ones_avoid:
  assumes "only_ones (concat re)" and "match_items (concat re) s \<noteq> None"
    and "length s = length (concat re)" and "barrier c re"
  shows "c \<notin> set s"
proof
  assume "c \<in> set s"
  then obtain a b where s: "s = a @ c # b" by (auto simp: in_set_conv_decomp)
  then have "match_items (concat re) a \<noteq> None"
    using assms(2,4) match_items_cut [of c "concat re" a b] by (simp add: barrier_def)
  moreover have "no_match re a" using s assms(3) by (intro ones_short [OF assms(1)]) simp
  ultimately have "a = []" by (cases a) auto
  with \<open>match_items (concat re) a \<noteq> None\<close> assms(4) show False by (simp add: barrier_def)
qed

lemma uuid_avoids: "uuid_form u \<Longrightarrow> barrier c uuid_regex \<Longrightarrow> c \<notin> set u"
  using ones_avoid [OF ones_regex(1), of u c] ones_regex(3) unfolding uuid_form_def by metis

lemma mac_avoids: "mac_form m \<Longrightarrow> barrier c mac_regex \<Longrightarrow> c \<notin> set m"
  using ones_avoid [OF ones_regex(2), of m c] ones_regex(4) unfolding mac_form_def by metis

lemma letter_barrier: "barrier CHR ''n'' uuid_regex" "barrier CHR ''q'' mac_regex" "barrier CHR ''n'' mac_regex"
  by (simp_all add: barrier_def refuses_def uuid_regex_def mac_regex_def literal_def
      lower_hex_def hex_digit_def eval_nat_numeral)

lemma uuid_item:
  assumes "j < 36" and "j \<notin> {8, 13, 18, 23}"
  shows "concat uuid_regex ! j = One lower_hex"
  using assms by (auto simp: uuid_regex_def literal_def nth_append nth_Cons')

lemma mac_item: "concat mac_regex ! 2 = One (\<lambda>c. c = CHR '':'' \<or> c = CHR ''-'')"
  "concat mac_regex ! 5 = One (\<lambda>c. c = CHR '':'' \<or> c = CHR ''-'')"
  by (simp_all add: mac_regex_def eval_nat_numeral)

text \<open>The dashes of an identifier are too far apart for an address.\<close>

lemma uuid_no_mac:
  assumes "uuid_form u" shows "no_match mac_regex u"
proof (rule no_match_suffixes)
  fix a b assume u: "u = a @ b"
  show "match_items (concat mac_regex) b = None"
  proof (cases "match_items (concat mac_regex) b")
    case (Some ts)
    have len: "length u = 36" using assms by (simp add: uuid_form_def)
    from assms obtain us where us: "match_items (concat uuid_regex) u = Some us"
      by (auto simp: uuid_form_def)
    have mark: "length a + i \<in> {8, 13, 18, 23}" if "i < 17"
      "concat mac_regex ! i = One (\<lambda>c. c = CHR '':'' \<or> c = CHR ''-'')" for i
    proof (rule ccontr)
      assume no: "length a + i \<notin> {8, 13, 18, 23}"
      from ones_nth [OF ones_regex(2) Some _ that(2)] that(1) ones_regex(4)
      have i: "i < length b" "b ! i = CHR '':'' \<or> b ! i = CHR ''-''" by auto
      have at: "length a + i < 36" using i(1) u len by simp
      from ones_nth [OF ones_regex(1) us _ uuid_item [OF at no]] at ones_regex(3)
      have "lower_hex (u ! (length a + i))" by simp
      with i u show False by (auto simp: lower_hex_def)
    qed
    from mark [OF _ mac_item(1)] mark [OF _ mac_item(2)] show ?thesis by auto
  qed
qed

lemma mac_short: "mac_form m \<Longrightarrow> no_match uuid_regex m"
  using ones_short [OF ones_regex(1), of m] ones_regex(3) by (simp add: mac_form_def)

subsection \<open>The passes over one line\<close>

lemma name_lacks: "CHR ''n'' \<notin> set s \<or> CHR ''<'' \<notin> set s \<Longrightarrow> no_match name_regex s"
  using no_match_lacks [of "\<lambda>x. x = CHR ''n''" name_regex s] no_match_lacks [of "\<lambda>x. x = CHR ''<''" name_regex s]
  by (auto simp: name_regex_def literal_def)

lemma disk_lacks: "CHR 0x22 \<notin> set s \<or> CHR ''q'' \<notin> set s \<Longrightarrow> no_match disk_regex s"
  using no_match_lacks [of "\<lambda>x. x = CHR 0x22" disk_regex s] no_match_lacks [of "\<lambda>x. x = CHR ''q''" disk_regex s]
  by (auto simp: disk_regex_def literal_def)

lemma indent_chars: "indent k \<Longrightarrow> c \<in> set k \<Longrightarrow> c = CHR '' '' \<or> c = CHR 0x09"
  by (auto simp: indent_def)

lemma name_indent: "indent k \<Longrightarrow> regex_replace name_regex f (k @ s) = k @ regex_replace name_regex f s"
  using indent_chars by (intro replace_skip) (auto simp: name_regex_def literal_def)

lemma slot_xml_other: "ok_line (Other_line s) \<Longrightarrow> slot_xml s vm uuid = s"
  by (simp add: slot_xml_def no_match_replace no_identity_def)

lemma slot_xml_name:
  assumes "ok_line (Name_line k n)" and "good_name (pool_name vm)"
  shows "slot_xml (line_text (Name_line k n)) vm uuid = line_text (Name_line k (pool_name vm))"
proof -
  let ?s = "k @ ''<name>'' @ pool_name vm @ ''</name>''"
  have k: "indent k" using assms(1) by simp
  have "regex_replace name_regex (keep_outer (pool_name vm)) (k @ ''<name>'' @ n @ ''</name>'') = ?s"
    using assms(1) name_indent [OF k] replace_name by simp
  moreover have "CHR 0x22 \<notin> set ?s" using indent_chars [OF k] assms(2) by (auto simp: good_name_def)
  then have "no_match disk_regex ?s" using disk_lacks by blast
  moreover have "no_identity ?s"
  proof -
    have sep: "separator CHR ''>''" "separator CHR ''<''" by (simp_all add: separator_def)
    have "no_identity (''<name'' @ CHR ''>'' # pool_name vm @ CHR ''<'' # ''/name>'')"
      unfolding no_identity_cut [OF sep(1)] no_identity_cut [OF sep(2)]
      using good_name_identity [OF assms(2)] no_identity_short by simp
    with no_identity_indent [OF k] show ?thesis by simp
  qed
  ultimately show ?thesis by (simp add: slot_xml_def no_match_replace no_identity_def)
qed

lemma slot_xml_disk:
  assumes "ok_line (Disk_line k dir n)" and "good_name (pool_name vm)"
  shows "slot_xml (line_text (Disk_line k dir n)) vm uuid = line_text (Disk_line k dir (pool_name vm))"
proof -
  let ?d = "drop 12 n"
  have k: "indent k" using assms(1) by simp
  have "n = take 12 n @ drop 12 n" by simp
  with assms(1) have n: "n = ''parastation-'' @ ?d" by simp
  let ?old = "k @ ''<source file=\"'' @ (dir @ ''/'') @ ''parastation-'' @ ?d @ ''.qcow2\"/>''"
  let ?new = "k @ ''<source file=\"'' @ (dir @ ''/'') @ pool_name vm @ ''.qcow2\"/>''"
  have old: "line_text (Disk_line k dir n) = ?old" by (subst n) simp
  have d: "list_all line_char (dir @ ?d)" "CHR ''<'' \<notin> set (dir @ ?d)" "CHR ''p'' \<notin> set ?d"
    using assms(1) in_set_dropD [of _ 12 n] by (auto simp: list_all_iff)
  have "no_match name_regex (tl (''<source file=\"'' @ (dir @ ''/'') @ ''parastation-'' @ ?d @ ''.qcow2\"/>''))"
    using d(2) by (intro name_lacks) simp
  then have "no_match name_regex (''<source file=\"'' @ (dir @ ''/'') @ ''parastation-'' @ ?d @ ''.qcow2\"/>'')"
    by (simp add: name_items literal_def)
  then have name: "regex_replace name_regex f ?old = ?old" for f
    by (simp only: name_indent [OF k] no_match_replace)
  have "list_all line_char (k @ (dir @ ''/'') @ ?d)" "CHR ''<'' \<notin> set ((dir @ ''/'') @ ?d)"
    using d(1,2) indent_chars [OF k] by (auto simp: list_all_iff line_char_def)
  from replace_disk [OF this d(3)] have disk: "regex_replace disk_regex (keep_outer (pool_name vm)) ?old = ?new"
    by simp
  have sep: "separator CHR 0x22" "separator CHR ''/''" "separator CHR ''.''"
    by (simp_all add: separator_def)
  have "no_identity (''<source file='' @ CHR 0x22 # dir @ CHR ''/'' # pool_name vm @ CHR ''.'' #
      ''qcow2'' @ CHR 0x22 # ''/>'')"
    unfolding no_identity_cut [OF sep(1)] no_identity_cut [OF sep(2)] no_identity_cut [OF sep(3)]
    using good_name_identity [OF assms(2)] assms(1) no_identity_short by simp
  with no_identity_indent [OF k] have "no_identity ?new" by simp
  then have "slot_xml ?old vm uuid = ?new"
    unfolding slot_xml_def Let_def name disk by (simp add: no_identity_def no_match_replace)
  moreover have "line_text (Disk_line k dir (pool_name vm)) = ?new" by simp
  ultimately show ?thesis by (simp only: old)
qed

lemma slot_xml_uuid:
  assumes "ok_line (Uuid_line k u)" and "uuid_form uuid"
  shows "slot_xml (line_text (Uuid_line k u)) vm uuid = line_text (Uuid_line k uuid)"
proof -
  let ?s = "k @ ''<uuid>'' @ u @ ''</uuid>''" and ?t = "k @ ''<uuid>'' @ uuid @ ''</uuid>''"
  have k: "indent k" and u: "uuid_form u" using assms(1) by simp_all
  have sep: "separator CHR ''>''" "separator CHR ''<''" by (simp_all add: separator_def)
  have "CHR ''n'' \<notin> set u" "CHR 0x22 \<notin> set u"
    using uuid_avoids [OF u] letter_barrier(1) separator_barrier(1) [of "CHR 0x22"] by (simp_all add: separator_def)
  then have "CHR ''n'' \<notin> set ?s" "CHR 0x22 \<notin> set ?s" using indent_chars [OF k] by auto
  then have "no_match name_regex ?s" "no_match disk_regex ?s" using name_lacks disk_lacks by blast+
  moreover have "regex_replace uuid_regex (\<lambda>_. uuid) ?s = ?t"
  proof -
    have s: "?s = (k @ ''<uuid'') @ CHR ''>'' # u @ CHR ''<'' # ''/uuid>''" by simp
    have "no_match uuid_regex (k @ ''<uuid'')" "no_match uuid_regex ''/uuid>''"
      using no_identity_indent [OF k, of "''<uuid''"] no_identity_short [of "''<uuid''"]
        no_identity_short [of "''/uuid>''"] by (simp_all add: no_identity_def)
    from replace_between [OF separator_barrier(1) [OF sep(1)] separator_barrier(1) [OF sep(2)] this,
        of "\<lambda>_. uuid" u] show ?thesis
      unfolding s replace_uuid [OF u] by simp
  qed
  moreover have "no_match mac_regex ?t"
  proof -
    have t: "?t = (k @ ''<uuid'') @ CHR ''>'' # uuid @ CHR ''<'' # ''/uuid>''" by simp
    have "no_match mac_regex (k @ ''<uuid'')" "no_match mac_regex ''/uuid>''"
      using no_identity_indent [OF k, of "''<uuid''"] no_identity_short [of "''<uuid''"]
        no_identity_short [of "''/uuid>''"] by (simp_all add: no_identity_def)
    then show ?thesis
      unfolding t no_match_cut [OF separator_barrier(2) [OF sep(1)]]
        no_match_cut [OF separator_barrier(2) [OF sep(2)]]
      using uuid_no_mac [OF assms(2)] by blast
  qed
  ultimately show ?thesis by (simp add: slot_xml_def no_match_replace)
qed

lemma slot_xml_mac:
  assumes "ok_line (Mac_line k m)"
  shows "slot_xml (line_text (Mac_line k m)) vm uuid = line_text (Mac_line k (mac_addr vm))"
proof -
  let ?s = "k @ ''<mac address=\"'' @ m @ ''\"/>''"
  have k: "indent k" and m: "mac_form m" using assms(1) by simp_all
  have q: "separator CHR 0x22" by (simp add: separator_def)
  have s: "?s = (k @ ''<mac address='') @ CHR 0x22 # m @ CHR 0x22 # ''/>''" by simp
  have "CHR ''n'' \<notin> set m" "CHR ''q'' \<notin> set m"
    using mac_avoids [OF m] letter_barrier(2,3) by simp_all
  then have "CHR ''n'' \<notin> set ?s" "CHR ''q'' \<notin> set ?s" using indent_chars [OF k] by auto
  then have "no_match name_regex ?s" "no_match disk_regex ?s" using name_lacks disk_lacks by blast+
  moreover have rest: "no_identity (k @ ''<mac address='')" "no_identity ''/>''"
    using no_identity_indent [OF k] no_identity_short by simp_all
  then have "no_match uuid_regex ?s"
    unfolding s no_match_cut [OF separator_barrier(1) [OF q]]
    using mac_short [OF m] by (simp add: no_identity_def)
  moreover have "regex_replace mac_regex (\<lambda>_. mac_addr vm) ?s = line_text (Mac_line k (mac_addr vm))"
    using replace_between [OF separator_barrier(2) [OF q] separator_barrier(2) [OF q],
        of "k @ ''<mac address=''" "''/>''" "\<lambda>_. mac_addr vm" m] rest
    unfolding s replace_mac [OF m] by (simp only: no_identity_def simp_thms) simp
  ultimately show ?thesis by (simp add: slot_xml_def no_match_replace)
qed

lemma slot_xml_line:
  assumes "vm \<in> set glob_vm_pool" and "uuid_form uuid" and "ok_line l"
  shows "slot_xml (line_text l) vm uuid = line_text (renew vm uuid l)"
  using slot_xml_name [OF _ pool_names [OF assms(1)]] slot_xml_disk [OF _ pool_names [OF assms(1)]]
    slot_xml_uuid [OF _ assms(2)] slot_xml_mac slot_xml_other assms(3)
  by (cases l) (simp_all del: line_text.simps ok_line.simps add: line_text.simps(5))

subsection \<open>The description of a slot\<close>

text \<open>
  C19: \<open>generate_start_task\<close> rewrites the description of a slot for the machine taken from the pool.
  Take any description made of lines that hold the machine's name, the image of its disk in some
  directory, its identifier or its hardware address, and of further lines in which no pattern of
  the code occurs. In the start task exactly these four pieces of information are replaced, each
  wherever it stands, by the name and the address of the machine and by the new identifier:
  neither the directory nor another attribute nor a line break is touched, and no pass undoes
  what an earlier one has put in.
\<close>

theorem start_task_renews_description:
  assumes "free_vm \<in> set glob_vm_pool" and "uuid_form (uuids c (uuid_count c))"
    and "\<forall>l \<in> set ls. ok_line l"
    and "slot_files c (slot_file_name (slot_path c) slot) = unlines (map line_text ls)"
  shows "\<exists>task. generate_start_task slot free_vm c = (task, c\<lparr>uuid_count := Suc (uuid_count c)\<rparr>) \<and>
    start_xml task = with_value ''xml''
      (unlines (map (\<lambda>l. line_text (renew free_vm (uuids c (uuid_count c)) l)) ls)) \<and>
    start_vm_name task = no_value ''vm-name'' \<and>
    start_pci_ids task = [\<lparr>vendor = 0x15b3, device = 0x1004\<rparr>] \<and>
    start_transient task = with_value ''transient'' True \<and>
    task_concurrent_execution task = with_value ''concurrent-execution'' True"
proof -
  let ?uuid = "uuids c (uuid_count c)"
  have "slot_xml (unlines (map line_text ls)) free_vm ?uuid =
      unlines (map (\<lambda>l. line_text (renew free_vm ?uuid l)) ls)"
    using slot_xml_line [OF assms(1,2)] assms(3) by (simp add: slot_xml_lines comp_def cong: map_cong)
  then show ?thesis
    by (simp add: generate_start_task_def Let_def assms(4) start_from_xml_def extend_start_def
        task_with_def Task.defs with_value_def set_value_def no_value_def)
qed

text \<open>
  An excerpt of \<open>example/slots-ivb-snb-compatible/slot-0.xml\<close>: the path of the guest agent's
  channel also has the name of the machine in it, and keeps it.
\<close>

definition example_lines :: "xml_line list" where
  "example_lines =
     [Other_line ''<?xml version=\"1.0\"?><domain type=\"kvm\">'',
      Name_line ''  '' ''parastation-1'',
      Uuid_line ''  '' ''7bb212c8-afe6-11e6-bba4-002590926adc'',
      Other_line ''  <memory unit=\"KiB\">20971520</memory>'',
      Other_line ''      <driver name=\"qemu\" type=\"qcow2\" cache=\"none\"/>'',
      Disk_line ''      '' ''/global/work/vms/parastation'' ''parastation-1'',
      Mac_line ''      '' ''00:16:3e:6e:1c:c7'',
      Other_line ''      <source bridge=\"br0\"/>'',
      Other_line ''      <source mode=\"bind\" path=\"/var/lib/libvirt/qemu/channel/target/parastation-1.org.qemu.guest_agent.0\"/>'']"

lemma example_lines_ok: "\<forall>l \<in> set example_lines. ok_line l"
  by (simp only: example_lines_def list.set ball_simps insert_iff) code_simp

theorem start_task_renews_description_witness:
  "\<exists>task. generate_start_task 0 (pool_elem ''parastation-2'' ''00:16:3e:0a:5b:0f'')
      (example_vm\<lparr>slot_files := \<lambda>_. unlines (map line_text example_lines),
         uuids := \<lambda>_. ''0f0e0d0c-0b0a-4908-8706-050403020100''\<rparr>) =
      (task, example_vm\<lparr>slot_files := \<lambda>_. unlines (map line_text example_lines),
         uuids := \<lambda>_. ''0f0e0d0c-0b0a-4908-8706-050403020100'', uuid_count := 1\<rparr>) \<and>
    start_xml task = with_value ''xml'' (unlines
     [''<?xml version=\"1.0\"?><domain type=\"kvm\">'',
      ''  <name>parastation-2</name>'',
      ''  <uuid>0f0e0d0c-0b0a-4908-8706-050403020100</uuid>'',
      ''  <memory unit=\"KiB\">20971520</memory>'',
      ''      <driver name=\"qemu\" type=\"qcow2\" cache=\"none\"/>'',
      ''      <source file=\"/global/work/vms/parastation/parastation-2.qcow2\"/>'',
      ''      <mac address=\"00:16:3e:0a:5b:0f\"/>'',
      ''      <source bridge=\"br0\"/>'',
      ''      <source mode=\"bind\" path=\"/var/lib/libvirt/qemu/channel/target/parastation-1.org.qemu.guest_agent.0\"/>''])"
proof -
  let ?vm = "pool_elem ''parastation-2'' ''00:16:3e:0a:5b:0f''"
  let ?c = "example_vm\<lparr>slot_files := \<lambda>_. unlines (map line_text example_lines),
    uuids := \<lambda>_. ''0f0e0d0c-0b0a-4908-8706-050403020100''\<rparr>"
  have "?vm \<in> set glob_vm_pool" by (simp only: glob_vm_pool_def list.set insert_iff simp_thms)
  moreover have "uuid_form (uuids ?c (uuid_count ?c))" by simp code_simp
  moreover have "slot_files ?c (slot_file_name (slot_path ?c) 0) = unlines (map line_text example_lines)"
    by simp
  moreover have "uuid_count ?c = 0" by (simp add: example_vm_def controllerT.extend_def)
  ultimately show ?thesis
    using start_task_renews_description [of ?vm ?c example_lines 0, OF _ _ example_lines_ok]
    by (auto simp: example_lines_def pool_elem_def)
qed

end
