(* ===== verification/Spec2Isabelle.thy ===== *)
theory Spec2Isabelle
  imports Session_Properties Vm_Properties Vm_Start Controller_Refinement
    Consec_Properties Two_App_Properties Multi_App_Properties Slot_Xml_Properties
begin

text \<open>
  A verification development for poncos, a scheduler for MPI jobs on a small cluster whose
  machines are divided into slots.

  \<^bold>\<open>The program.\<close> \<open>main\<close> (\<open>src/poncos.cpp\<close>) reads a queue of jobs, a list of machines and the
  configuration of the slots, connects to an MQTT broker, creates a controller and a scheduler
  and lets the scheduler run the queue. A controller (\<open>src/controller.cpp\<close>) records which job
  holds which slot, runs the command of every job in a thread of its own, and suspends, resumes
  and moves jobs; what a slot is on a machine is left to a derived class: a control group
  (\<open>src/controller_cgroup.cpp\<close>) or a virtual machine (\<open>src/controller_vm.cpp\<close>). The hosts are
  told by YAML messages of the library fast-lib (\<open>vendor/fast-lib\<close>). There are three schedulers:
  two jobs side by side (\<open>src/scheduler_two_app.cpp\<close>), placement by memory bandwidth with moves
  (\<open>src/scheduler_multi_app.cpp\<close>), and whole machines (\<open>src/scheduler_multi_app_consec.cpp\<close>).

  \<^bold>\<open>How it is modelled.\<close> An operation is a function on an explicit state that returns
  \<open>error + value\<close>: a failed assertion, an exception, undefined behaviour and a wait that never
  ends are different errors. \<open>size_t\<close> is a natural number, with the wrap-around at 64 bits written
  out (\<open>wrap64\<close>); \<open>double\<close> is a rational that fits 53 bits of precision, an infinity or NaN, with
  rounding after every operation. Threads are a field of the controller; which of them finish before a
  wake-up of the main thread is the list \<open>wakeups\<close>, so every interleaving the lock allows is a
  value of it. The functions of the model are total. A wait is recursion over \<open>wakeups\<close>, which thus
  is its fuel: a wait that outlives the list is the error \<open>Blocked\<close>, and the theorems that state
  that a scheduler or \<open>done\<close> returns say how many wake-ups suffice (one more than there are jobs
  for the queue, one for \<open>done\<close>).

  \<^bold>\<open>The theories.\<close>
  \<^item> \<open>Prelude\<close>: results, loops that may fail (\<open>for_each\<close>), vectors with their bounds, \<open>std::stoul\<close>
    and \<open>std::to_string\<close>, and the induction principles for the loops.
  \<^item> \<open>Binary64\<close>: doubles; rounding, sums, comparison.
  \<^item> \<open>Yaml_Node\<close>: \<open>serializable\<close> and \<open>optional\<close> of fast-lib, nodes and their look-ups.
  \<^item> \<open>Job_Model\<close>, \<open>Text_Files\<close>: \<open>job.cpp\<close>, \<open>system_config.cpp\<close>, \<open>helper.cpp\<close>, with round trips.
  \<^item> \<open>Time_Measurement\<close>, \<open>Mqtt_Communicator\<close>, \<open>Migfra_Task\<close>, \<open>Task_Container\<close>, \<open>Migfra_Result\<close>,
    \<open>Agent_Messages\<close>: the parts of fast-lib the program uses. The locale \<open>mailbox\<close> is what the
    clients need of the communicator: messages of a topic arrive in order and one at a time.
  \<^item> \<open>Controller_Base\<close>: \<open>controllerT\<close> is the record \<open>controllerT\<close>, its virtual functions are the record
    \<open>virtuals\<close>, its operations functions of the same names (\<open>execute\<close>, \<open>freeze\<close>, \<open>wait_for_ressource\<close>;
    \<open>update_config\<close> is \<open>base_update_config\<close> here, \<open>done\<close> is \<open>controller_done\<close>, the destructor \<open>controller_dtor\<close>).
  \<^item> \<open>Controller_Invariant\<close>: \<open>wf\<close>, the usage table and the configurations of the running jobs
    describe the same allocation, and every operation keeps it, for all virtual functions that obey the
    locale \<open>controller_interface\<close>; \<open>quiet_controller\<close> adds that deleting a domain cannot fail.
  \<^item> \<open>Controller_Properties\<close>, \<open>Controller_Cgroup\<close>: the operations one by one; the messages, the
    command and the files of the control groups, and the interpretation of the interface.
  \<^item> \<open>Slot_Xml\<close>, \<open>Slot_Xml_Properties\<close>: the four patterns and replacements with which the slot files
    are rewritten, over a matcher that stands for \<open>std::regex_replace\<close>; which lines of a description
    they change, and into what.
  \<^item> \<open>Controller_Vm\<close>, \<open>Vm_Properties\<close>, \<open>Vm_Start\<close>: the virtual machines: start and stop of all,
    the exchange of machines when a job moves, the command; moves keep every job in its machines.
  \<^item> \<open>Slot_Allocation\<close>, \<open>Controller_Refinement\<close>: the abstract specification (jobs hold disjoint sets of
    slots; a step takes free slots, gives slots back or exchanges two) and the step relation of
    the controllers, which refines it.
  \<^item> \<open>Scheduler_Base\<close>, \<open>Scheduler_Two_App\<close>, \<open>Scheduler_Multi_App\<close>, \<open>Scheduler_Consec\<close>: the schedulers,
    as compositions of the operations of a controller in the order of the code.
  \<^item> \<open>Two_App_Properties\<close>, \<open>Multi_App_Properties\<close>, \<open>Consec_Properties\<close>: what they achieve: the
    exclusive scheduler runs every queue to its end; the choices of the bandwidth-aware one
    against direct definitions; and where the schedulers are left by an error.
  \<^item> \<open>Poncos_Main\<close>, \<open>Main_Properties\<close>, \<open>Session_Properties\<close>: the command line and \<open>main\<close>: options
    that are written down are read back, and with virtual machines and the exclusive scheduler a
    whole run of the program comes to its end.

  \<^bold>\<open>Parameters.\<close> The text form of YAML (the library yaml-cpp) is the record \<open>yaml_lib\<close>, of which only
  is assumed, where a message is read, what the text of the reply parses to. The mosquitto
  library is the list of its events and return codes. The file system, the clocks, \<open>std::system\<close>,
  the generator of identifiers, the order of an \<open>unordered_map\<close> and the way \<open>std::sort\<close> orders
  equal elements are arguments; nothing is assumed of the last but that it sorts.

  \<^bold>\<open>Not modelled.\<close> The output of the log, of the help and of notices; sleeping, which has no effect
  on the state; the memory order of the timers that the threads of the jobs start and stop
  without the lock (they run here when a thread finishes); the failure to open the file of hosts that
  \<open>generate_command\<close> writes, which an assertion excludes. The detached thread of the bandwidth-aware
  scheduler runs in the model when it is started (\<open>start_waiter\<close>, \<open>waiter_loop\<close>), not beside the main
  thread: while the main thread owns the lock object its first wait is undefined in either order.
  yaml-cpp, mosquitto, spdlog and fructose are third-party code.

  \<^bold>\<open>Next.\<close> The queue of the bandwidth-aware scheduler when no machine is above the threshold, and
  the placement and the decision of the scheduler for two applications, against direct definitions.
\<close>

end
